(* ===== verification/Prelude.thy ===== *)
theory Prelude
  imports Main "HOL-Library.Word"
begin

text \<open>
  Shared vocabulary of the development: machine integers and bytes, the outcomes a C
  function can have (a value, a diagnostic the code reports, or the end of the process
  through \<^verbatim>\<open>passert\<close>, \<^verbatim>\<open>bad_case\<close>, an access outside an array, a shift by a bad count, the use of an
  uninitialised object or a loop that never ends), network byte order,
  and memory as a list of bytes with block reads and block writes.
\<close>

unbundle bit_operations_syntax

section \<open>Integers and bytes\<close>

type_synonym byte = "8 word"
type_synonym u16 = "16 word"
type_synonym u32 = "32 word"
type_synonym u64 = "64 word"
type_synonym memory = "byte list"

lemma unat_bound: "unat (w :: 'a::len word) < 2 ^ LENGTH('a)"
  by (rule unsigned_less)

lemmas unat_u32_bound = unat_bound [where 'a = 32, simplified]
  and unat_u64_bound = unat_bound [where 'a = 64, simplified]

section \<open>Outcomes\<close>

text \<open>
  A \<^emph>\<open>fault\<close> ends the daemon: a failed \<^verbatim>\<open>passert\<close>, a \<^verbatim>\<open>bad_case\<close>, or undefined
  behaviour of C: a read or write outside the object, a shift by a negative count
  or by more than the width, the use of an object nothing was written
  to. A loop that never ends counts as a fault where its caller waits for it. An
  \<^emph>\<open>error\<close> is a diagnostic the code returns to its caller.
\<close>

datatype fault = Passert | Bad_case | Out_of_bounds | Bad_shift | Uninitialised | Endless

datatype ('e, 'a) outcome = Ok 'a | Err 'e | Abort fault

fun bind_outcome :: "('e, 'a) outcome \<Rightarrow> ('a \<Rightarrow> ('e, 'b) outcome) \<Rightarrow> ('e, 'b) outcome" where
  "bind_outcome (Ok a) f = f a"
| "bind_outcome (Err e) f = Err e"
| "bind_outcome (Abort x) f = Abort x"

fun passert :: "bool \<Rightarrow> ('e, 'a) outcome \<Rightarrow> ('e, 'a) outcome" where
  "passert b k = (if b then k else Abort Passert)"

fun lift_fault :: "fault + 'a \<Rightarrow> ('a \<Rightarrow> ('e, 'b) outcome) \<Rightarrow> ('e, 'b) outcome" where
  "lift_fault (Inl x) f = Abort x"
| "lift_fault (Inr a) f = f a"

lemma bind_outcome_Ok_iff:
  "bind_outcome r f = Ok b \<longleftrightarrow> (\<exists>a. r = Ok a \<and> f a = Ok b)"
  by (cases r) auto

lemma bind_outcome_Abort_iff:
  "bind_outcome r f = Abort x \<longleftrightarrow> r = Abort x \<or> (\<exists>a. r = Ok a \<and> f a = Abort x)"
  by (cases r) auto

lemma lift_fault_Ok_iff:
  "lift_fault r f = Ok b \<longleftrightarrow> (\<exists>a. r = Inr a \<and> f a = Ok b)"
  by (cases r) auto

lemma passert_Ok_iff: "passert b k = Ok r \<longleftrightarrow> b \<and> k = Ok r"
  by simp

definition safe :: "('e, 'a) outcome \<Rightarrow> bool" where
  "safe r \<longleftrightarrow> (\<forall>x. r \<noteq> Abort x)"

lemma safe_simps [simp]:
  "safe (Ok a)" "safe (Err e)" "\<not> safe (Abort x)"
  by (auto simp: safe_def)

lemma safe_bind_outcome:
  "safe r \<Longrightarrow> (\<And>a. r = Ok a \<Longrightarrow> safe (f a)) \<Longrightarrow> safe (bind_outcome r f)"
  by (cases r) auto

text \<open>
  \<open>yields r P\<close>: the call does not fault, and if it returns a value, the value satisfies \<open>P\<close>.
\<close>

definition yields :: "('e, 'a) outcome \<Rightarrow> ('a \<Rightarrow> bool) \<Rightarrow> bool" where
  "yields r P \<longleftrightarrow> (case r of Ok a \<Rightarrow> P a | Err _ \<Rightarrow> True | Abort _ \<Rightarrow> False)"

lemma yields_simps [simp]:
  "yields (Ok a) P = P a" "yields (Err e) P" "\<not> yields (Abort x) P"
  by (auto simp: yields_def)

lemma yields_bind:
  "yields r P \<Longrightarrow> (\<And>a. r = Ok a \<Longrightarrow> P a \<Longrightarrow> yields (f a) Q) \<Longrightarrow> yields (bind_outcome r f) Q"
  by (cases r) auto

lemma yields_mono: "yields r P \<Longrightarrow> (\<And>a. P a \<Longrightarrow> Q a) \<Longrightarrow> yields r Q"
  by (cases r) auto

lemma yields_safe: "yields r P \<Longrightarrow> safe r"
  by (cases r) auto

lemma yields_Ok: "yields r P \<Longrightarrow> r = Ok a \<Longrightarrow> P a"
  by simp

fun outcome_of :: "'e + 'a \<Rightarrow> ('e, 'a) outcome" where
  "outcome_of (Inl e) = Err e"
| "outcome_of (Inr a) = Ok a"

lemma outcome_of_Ok_iff [simp]: "outcome_of r = Ok a \<longleftrightarrow> r = Inr a"
  by (cases r) auto

lemma safe_outcome_of [simp]: "safe (outcome_of r)"
  by (cases r) auto

section \<open>Network byte order\<close>

text \<open>
  The emit loop of \<^verbatim>\<open>out_struct\<close> and \<^verbatim>\<open>close_output_pbs\<close>
  (\<^verbatim>\<open>while (i-- != 0) { cur[i] = (u_int8_t)n; n >>= 8; }\<close>) and the parse loop of
  \<^verbatim>\<open>in_struct\<close> (\<^verbatim>\<open>n = (n << 8) | *cur++\<close>).
\<close>

fun be_bytes :: "nat \<Rightarrow> u32 \<Rightarrow> byte list" where
  "be_bytes 0 n = []"
| "be_bytes (Suc i) n = be_bytes i (drop_bit 8 n) @ [ucast n]"

definition be_value :: "byte list \<Rightarrow> u32" where
  "be_value bs = foldl (\<lambda>n b. push_bit 8 n OR ucast b) 0 bs"

lemma length_be_bytes [simp]: "length (be_bytes i n) = i"
  by (induction i arbitrary: n) auto

lemma be_bytes_sizes [simp]:
  "be_bytes (Suc 0) n = [ucast n]"
  "be_bytes 2 n = [ucast (drop_bit 8 n), ucast n]"
  "be_bytes 4 n = [ucast (drop_bit 24 n), ucast (drop_bit 16 n), ucast (drop_bit 8 n), ucast n]"
  by (simp_all add: numeral_eq_Suc)

lemma be_value_be_bytes [simp]: "be_value (be_bytes i n) = take_bit (8 * i) n"
proof (induction i arbitrary: n)
  case 0
  show ?case by (simp add: be_value_def)
next
  case (Suc i)
  then have "be_value (be_bytes (Suc i) n) =
      push_bit 8 (take_bit (8 * i) (drop_bit 8 n)) OR ucast (ucast n :: byte)"
    by (simp add: be_value_def)
  also have "\<dots> = take_bit (8 * Suc i) n"
    by (rule bit_word_eqI) (auto simp: bit_simps)
  finally show ?case .
qed

lemma be_value_append: "be_value (xs @ [b]) = push_bit 8 (be_value xs) OR ucast b"
  by (simp add: be_value_def)

lemma bit_be_value_bound: "bit (be_value bs) n \<Longrightarrow> n < 8 * length bs"
proof (induction bs arbitrary: n rule: rev_induct)
  case Nil
  then show ?case by (simp add: be_value_def)
next
  case (snoc b bs)
  have byte: "bit (ucast b :: u32) n \<Longrightarrow> n < 8"
    by (auto simp: bit_simps dest: bit_imp_le_length)
  from snoc.prems have "bit (push_bit 8 (be_value bs) OR ucast b) n"
    by (simp only: be_value_append)
  then consider "8 \<le> n" "bit (be_value bs) (n - 8)" | "n < 8"
    using byte by (auto simp: bit_or_iff bit_push_bit_iff)
  then show ?case
  proof cases
    case 1
    with snoc.IH have "n - 8 < 8 * length bs" by blast
    with \<open>8 \<le> n\<close> show ?thesis by simp
  qed simp
qed

lemma be_value_bound: "take_bit (8 * length bs) (be_value bs) = be_value bs"
  by (rule bit_word_eqI) (auto simp: bit_simps dest: bit_be_value_bound)

section \<open>Memory blocks\<close>

text \<open>
  \<^verbatim>\<open>read_block\<close> and \<^verbatim>\<open>write_block\<close> access \<open>n\<close> consecutive bytes; an access that leaves the
  buffer is the fault \<open>Out_of_bounds\<close>.
\<close>

definition read_block :: "memory \<Rightarrow> nat \<Rightarrow> nat \<Rightarrow> fault + byte list" where
  "read_block mem a n =
     (if a + n \<le> length mem then Inr (take n (drop a mem)) else Inl Out_of_bounds)"

definition write_block :: "memory \<Rightarrow> nat \<Rightarrow> byte list \<Rightarrow> fault + memory" where
  "write_block mem a bs =
     (if a + length bs \<le> length mem
      then Inr (take a mem @ bs @ drop (a + length bs) mem) else Inl Out_of_bounds)"

lemma write_block_length:
  "write_block mem a bs = Inr mem' \<Longrightarrow> length mem' = length mem"
  by (auto simp: write_block_def split: if_splits)

lemma write_block_read:
  "write_block mem a bs = Inr mem' \<Longrightarrow> read_block mem' a (length bs) = Inr bs"
  by (auto simp: write_block_def read_block_def split: if_splits)

lemma write_block_nth:
  assumes "write_block mem a bs = Inr mem'" and "i < length mem"
  shows "mem' ! i = (if a \<le> i \<and> i < a + length bs then bs ! (i - a) else mem ! i)"
proof -
  from assms(1) have le: "a + length bs \<le> length mem"
    and mem': "mem' = take a mem @ bs @ drop (a + length bs) mem"
    by (auto simp: write_block_def split: if_splits)
  consider "i < a" | "a \<le> i" "i < a + length bs" | "a + length bs \<le> i"
    by linarith
  then show ?thesis
  proof cases
    case 1
    with le show ?thesis by (simp add: mem' nth_append)
  next
    case 2
    then have "i - a < length bs" by simp
    with 2 le show ?thesis by (simp add: mem' nth_append)
  next
    case 3
    then have "\<not> i - a < length bs" by simp
    with 3 le assms(2) show ?thesis by (simp add: mem' nth_append)
  qed
qed

lemma write_block_frame:
  assumes w: "write_block mem a bs = Inr mem'" and "b + n \<le> a \<or> a + length bs \<le> b"
  shows "read_block mem' b n = read_block mem b n"
proof -
  have len: "length mem' = length mem" using w by (rule write_block_length)
  have "take n (drop b mem') = take n (drop b mem)" if le: "b + n \<le> length mem"
  proof (rule nth_equalityI)
    fix i assume "i < length (take n (drop b mem'))"
    then have "i < n" and "b + i < length mem" using le by simp_all
    moreover from this have "mem' ! (b + i) = mem ! (b + i)"
      using write_block_nth [OF w, of "b + i"] assms(2) by auto
    ultimately show "take n (drop b mem') ! i = take n (drop b mem) ! i"
      using le len by simp
  qed (simp add: len)
  with len show ?thesis by (simp add: read_block_def)
qed

lemma read_block_prefix:
  "read_block mem a (n + m) = Inr bs \<Longrightarrow> read_block mem a n = Inr (take n bs)"
  by (auto simp: read_block_def min_def split: if_splits)

lemma read_block_suffix:
  "read_block mem a (n + m) = Inr bs \<Longrightarrow> read_block mem (a + n) m = Inr (drop n bs)"
  by (auto simp: read_block_def drop_take add.commute split: if_splits)

lemma write_block_total:
  "a + length bs \<le> length mem \<Longrightarrow> \<exists>mem'. write_block mem a bs = Inr mem'"
  by (simp add: write_block_def)

lemma write_block_append:
  assumes "write_block mem a xs = Inr m1" "write_block m1 (a + length xs) ys = Inr m2"
  shows "write_block mem a (xs @ ys) = Inr m2"
  using assms by (auto simp: write_block_def add.commute add.left_commute split: if_splits)

lemma write_block_patch:
  assumes "write_block mem a (xs @ p @ ys) = Inr m1" "write_block m1 (a + length xs) q = Inr m2"
    and "length q = length p"
  shows "write_block mem a (xs @ q @ ys) = Inr m2"
  using assms by (auto simp: write_block_def drop_append split: if_splits)

lemma read_block_append:
  assumes "read_block mem a n = Inr xs" "read_block mem (a + n) m = Inr ys"
  shows "read_block mem a (n + m) = Inr (xs @ ys)"
  using assms by (auto simp: read_block_def take_add add.assoc add.commute [of n a] split: if_splits)

lemma write_block_same: "read_block mem a (length bs) = Inr bs \<Longrightarrow> write_block mem a bs = Inr mem"
  by (auto simp: read_block_def write_block_def split: if_splits)
    (metis add.commute append_take_drop_id drop_drop)

section \<open>The value of an octet string\<close>

fun be_nat :: "byte list \<Rightarrow> nat" where
  "be_nat [] = 0"
| "be_nat (b # bs) = unat b * 2 ^ (8 * length bs) + be_nat bs"

lemma unat_byte_bound [simp]: "unat (b :: byte) < 256"
  using unat_bound [of b] by simp

lemma be_nat_bound: "be_nat bs < 2 ^ (8 * length bs)"
proof (induction bs)
  case (Cons b bs)
  have "be_nat (b # bs) < unat b * 2 ^ (8 * length bs) + 2 ^ (8 * length bs)"
    using Cons by simp
  also have "\<dots> = (unat b + 1) * 2 ^ (8 * length bs)" by simp
  also have "\<dots> \<le> 256 * 2 ^ (8 * length bs)"
    by (intro mult_right_mono) (use unat_byte_bound [of b] in linarith, simp)
  finally show ?case by (simp add: power_add)
qed simp

lemma be_nat_replicate_0 [simp]: "be_nat (replicate n 0) = 0"
  by (induction n) simp_all

lemma be_nat_append: "be_nat (xs @ ys) = be_nat xs * 2 ^ (8 * length ys) + be_nat ys"
  by (induction xs) (simp_all add: algebra_simps power_add)

lemma be_nat_inject: "length xs = length ys \<Longrightarrow> be_nat xs = be_nat ys \<longleftrightarrow> xs = ys"
proof (induction xs ys rule: list_induct2)
  case (Cons x xs y ys)
  let ?M = "2 ^ (8 * length ys) :: nat"
  have b: "be_nat xs < ?M" "be_nat ys < ?M"
    using be_nat_bound [of xs] be_nat_bound [of ys] Cons.hyps by simp_all
  show ?case
  proof
    assume eq: "be_nat (x # xs) = be_nat (y # ys)"
    have "(unat x * ?M + be_nat xs) div ?M = (unat y * ?M + be_nat ys) div ?M"
      using eq Cons.hyps by simp
    then have "unat x = unat y" using b by simp
    with eq Cons show "x # xs = y # ys" by (simp add: word_unat_eq_iff)
  qed simp
qed simp

end
