(* ===== verification/EnumNames.thy ===== *)
theory EnumNames
  imports Prelude
begin

text \<open>
  The name tables of \<^verbatim>\<open>lib/libswan/constants.c\<close>: chains of ranges that name the values of
  an enumeration (\<^verbatim>\<open>struct enum_names\<close>), tables selected by another enumeration
  (\<^verbatim>\<open>struct enum_enum_names\<close>), bit-set names, and the functions that look values up,
  search names and print sets. A name array is the list of its pointers, \<open>None\<close> being
  NULL; reading past its end is the fault \<open>Out_of_bounds\<close>. \<^verbatim>\<open>unsigned long\<close> and
  \<^verbatim>\<open>lset_t\<close> are 64-bit words.
\<close>

section \<open>Tables\<close>

type_synonym name_array = "string option list"

datatype enum_names = EnumNames
  (en_first: u64) (en_last: u64) (en_names: name_array) (en_checklen: nat)
  (en_prefix: "string option") (en_next_range: "enum_names option")

record enum_enum_names =
  een_first :: u64
  een_last :: u64
  een_enum_name :: "enum_names option list"
  een_checklen :: nat

section \<open>Bounded string copies\<close>

text \<open>
  \<^verbatim>\<open>jam_str\<close> copies what fits and always terminates the string; the model returns the
  string left in the destination (its length is the distance of the returned pointer).
  \<^verbatim>\<open>add_str\<close> appends to the string \<open>old\<close> already in the buffer; \<open>hint\<close> is an offset into
  it, and the returned offset is that of the terminating NUL.
\<close>

definition jam_str :: "nat \<Rightarrow> string \<Rightarrow> fault + string" where
  "jam_str sz src = (if sz > 0 then Inr (take (sz - 1) src) else Inl Passert)"

definition add_str :: "string \<Rightarrow> nat \<Rightarrow> nat \<Rightarrow> string \<Rightarrow> fault + string \<times> nat" where
  "add_str old sz hint src =
     (if \<not> (sz > 0 \<and> hint \<le> sz) then Inl Passert
      else if hint = sz then Inr (old, hint)
      else let hint' = max hint (length old) in
        if \<not> hint' < sz then Inl Passert
        else (case jam_str (sz - hint') src of
                Inl x \<Rightarrow> Inl x
              | Inr s \<Rightarrow> Inr (take hint' old @ s, hint' + length s)))"

section \<open>Characters\<close>

definition tolower :: "char \<Rightarrow> char" where
  "tolower c = (let n = of_char c :: nat in
     if 65 \<le> n \<and> n \<le> 90 then char_of (n + 32) else c)"

definition strcaseeq :: "string \<Rightarrow> string \<Rightarrow> bool" where
  "strcaseeq a b \<longleftrightarrow> map tolower a = map tolower b"

definition strncaseeq :: "string \<Rightarrow> string \<Rightarrow> nat \<Rightarrow> bool" where
  "strncaseeq a b n \<longleftrightarrow> map tolower (take n a) = map tolower (take n b)"

definition strneq :: "string \<Rightarrow> string \<Rightarrow> nat \<Rightarrow> bool" where
  "strneq a b n \<longleftrightarrow> take n a = take n b"

section \<open>Looking values up\<close>

definition nth_name :: "name_array \<Rightarrow> nat \<Rightarrow> fault + string option" where
  "nth_name ns i = (if i < length ns then Inr (ns ! i) else Inl Out_of_bounds)"

fun enum_name :: "enum_names \<Rightarrow> u64 \<Rightarrow> fault + string option" where
  "enum_name (EnumNames lo hi names checklen prefix nxt) val =
     (if hi - lo + 1 \<noteq> of_nat checklen then Inl Passert
      else if lo \<le> val \<and> val \<le> hi then nth_name names (unat (val - lo))
      else (case nxt of None \<Rightarrow> Inr None | Some p \<Rightarrow> enum_name p val))"

definition strip_prefix :: "string \<Rightarrow> string \<Rightarrow> string" where
  "strip_prefix s prefix =
     (let pl = length prefix in if strneq s prefix pl then drop pl s else s)"

definition enum_short_name :: "enum_names \<Rightarrow> u64 \<Rightarrow> fault + string option" where
  "enum_short_name ed val =
     (case enum_name ed val of
        Inl x \<Rightarrow> Inl x
      | Inr None \<Rightarrow> Inr None
      | Inr (Some p) \<Rightarrow>
          Inr (Some (case en_prefix ed of None \<Rightarrow> p | Some pfx \<Rightarrow> strip_prefix p pfx)))"

definition enum_enum_table :: "enum_enum_names \<Rightarrow> u64 \<Rightarrow> fault + enum_names option" where
  "enum_enum_table een table =
     (if een_last een - een_first een + 1 \<noteq> of_nat (een_checklen een) then Inl Passert
      else if een_first een \<le> table \<and> table \<le> een_last een then
        (let i = unat (table - een_first een) in
         if i < length (een_enum_name een) then Inr (een_enum_name een ! i)
         else Inl Out_of_bounds)
      else Inr None)"

definition enum_enum_name :: "enum_enum_names \<Rightarrow> u64 \<Rightarrow> u64 \<Rightarrow> fault + string option" where
  "enum_enum_name een table val =
     (case enum_enum_table een table of
        Inl x \<Rightarrow> Inl x | Inr None \<Rightarrow> Inr None | Inr (Some en) \<Rightarrow> enum_name en val)"

definition enum_enum_short_name ::
    "enum_enum_names \<Rightarrow> u64 \<Rightarrow> u64 \<Rightarrow> fault + string option" where
  "enum_enum_short_name een table val =
     (case enum_enum_table een table of
        Inl x \<Rightarrow> Inl x | Inr None \<Rightarrow> Inr None | Inr (Some en) \<Rightarrow> enum_short_name en val)"

section \<open>Searching names\<close>

text \<open>
  \<^verbatim>\<open>search_range\<close> is the inner loop of \<^verbatim>\<open>enum_search\<close> and \<^verbatim>\<open>enum_match\<close>: it walks the
  \<open>k\<close> names of one range from the value \<open>en\<close> on and stops at the first that \<open>matches\<close>.
  \<^verbatim>\<open>INT_MAX\<close> is \<open>2 ^ 31 - 1\<close>. The result \<open>None\<close> stands for \<^verbatim>\<open>-1\<close>.
\<close>

fun search_range :: "bool \<Rightarrow> (string \<Rightarrow> bool) \<Rightarrow> u64 \<Rightarrow> nat \<Rightarrow> name_array \<Rightarrow> fault + u64 option" where
  "search_range early matches en 0 names = Inr None"
| "search_range early matches en (Suc k) [] = Inl Out_of_bounds"
| "search_range early matches en (Suc k) (None # names) =
     search_range early matches (en + 1) k names"
| "search_range early matches en (Suc k) (Some name # names) =
     (if early \<and> \<not> unat en \<le> 2 ^ 31 - 1 then Inl Passert
      else if matches name then (if unat en \<le> 2 ^ 31 - 1 then Inr (Some en) else Inl Passert)
      else search_range early matches (en + 1) k names)"

fun search_chain :: "bool \<Rightarrow> (string \<Rightarrow> bool) \<Rightarrow> enum_names \<Rightarrow> fault + u64 option" where
  "search_chain early matches (EnumNames lo hi names checklen prefix nxt) =
     (if hi - lo + 1 \<noteq> of_nat checklen then Inl Passert
      else case search_range early matches lo (if lo \<le> hi then checklen else 0) names of
        Inl x \<Rightarrow> Inl x
      | Inr (Some en) \<Rightarrow> Inr (Some en)
      | Inr None \<Rightarrow> (case nxt of None \<Rightarrow> Inr None | Some p \<Rightarrow> search_chain early matches p))"

definition enum_search :: "enum_names \<Rightarrow> string \<Rightarrow> fault + u64 option" where
  "enum_search ed str = search_chain False (\<lambda>name. strcaseeq name str) ed"

text \<open>
  One comparison of \<^verbatim>\<open>enum_match\<close>: the whole name, or the name up to a trailing
  \<^verbatim>\<open>(...)\<close> group.
\<close>

definition name_matches :: "string \<Rightarrow> string \<Rightarrow> bool" where
  "name_matches name str \<longleftrightarrow>
     strcaseeq name str \<or>
     (strncaseeq name str (length str) \<and>
      length str < length name \<and> name ! length str = CHR ''('' \<and> last name = CHR '')'')"

definition enum_match :: "enum_names \<Rightarrow> string \<Rightarrow> fault + u64 option" where
  "enum_match ed str = search_chain True
     (\<lambda>name. name_matches name str \<or>
       (case en_prefix ed of
          None \<Rightarrow> False
        | Some pfx \<Rightarrow>
            pfx \<noteq> [] \<and> strneq name pfx (length pfx) \<and>
            name_matches (strip_prefix name pfx) str)) ed"

section \<open>Bit sets\<close>

text \<open>
  \<^verbatim>\<open>testset\<close>: every member of the set has a name. The table is read entry by entry until
  the set is exhausted; the read of a NULL entry ends it with FALSE.
\<close>

fun testset_from :: "name_array \<Rightarrow> u64 \<Rightarrow> u64 \<Rightarrow> fault + bool" where
  "testset_from [] b val = (if val = 0 then Inr True else Inl Out_of_bounds)"
| "testset_from (n # ns) b val =
     (if val = 0 then Inr True
      else case n of
        None \<Rightarrow> Inr False
      | Some s \<Rightarrow> if val AND b \<noteq> 0 \<and> s = [] then Inr False
                  else testset_from ns (push_bit 1 b) (val AND NOT b))"

definition testset :: "name_array \<Rightarrow> u64 \<Rightarrow> fault + bool" where
  "testset table val = testset_from table 1 val"

section \<open>Well-formed tables\<close>

text \<open>
  \<open>wf_enum\<close> is what the assertions of the look-up functions demand of every range of a
  chain, and that the name array is as long as the check length says. Ranges of one chain
  are disjoint when no value is named twice.
\<close>

fun wf_enum :: "enum_names \<Rightarrow> bool" where
  "wf_enum (EnumNames lo hi names checklen prefix nxt) \<longleftrightarrow>
     hi - lo + 1 = of_nat checklen \<and>
     (lo \<le> hi \<longrightarrow> checklen = unat (hi - lo) + 1 \<and> checklen \<le> length names) \<and>
     (case nxt of None \<Rightarrow> True | Some p \<Rightarrow> wf_enum p)"

fun enum_ranges :: "enum_names \<Rightarrow> (u64 \<times> u64) list" where
  "enum_ranges (EnumNames lo hi names checklen prefix nxt) =
     (lo, hi) # (case nxt of None \<Rightarrow> [] | Some p \<Rightarrow> enum_ranges p)"

fun disjoint_ranges :: "(u64 \<times> u64) list \<Rightarrow> bool" where
  "disjoint_ranges [] = True"
| "disjoint_ranges ((lo, hi) # rs) \<longleftrightarrow>
     (\<forall>(lo', hi') \<in> set rs. hi < lo' \<or> hi' < lo) \<and> disjoint_ranges rs"

section \<open>Look-up and search agree\<close>

lemma range_index:
  fixes lo hi :: u64
  assumes "lo \<le> hi" and "i \<le> unat (hi - lo)"
  shows "lo \<le> lo + of_nat i" "lo + of_nat i \<le> hi" "unat (of_nat i :: u64) = i"
proof -
  have hl: "unat (hi - lo) = unat hi - unat lo"
    using assms(1) by (simp add: unat_sub)
  have i: "i < 2 ^ 64"
    using assms(2) unat_u64_bound [of "hi - lo"] by simp
  then show u: "unat (of_nat i :: u64) = i"
    by (simp add: unat_of_nat take_bit_nat_eq_self)
  have "unat lo + i \<le> unat hi"
    using assms hl by (simp add: word_le_nat_alt)
  then have "unat (lo + of_nat i) = unat lo + i"
    using u unat_u64_bound [of hi] by (subst unat_add_lem [THEN iffD1]) auto
  with \<open>unat lo + i \<le> unat hi\<close> show "lo \<le> lo + of_nat i" "lo + of_nat i \<le> hi"
    by (simp_all add: word_le_nat_alt)
qed

lemma enum_name_total: "wf_enum ed \<Longrightarrow> \<exists>r. enum_name ed v = Inr r"
proof (induction ed v rule: enum_name.induct)
  case (1 lo hi names checklen prefix nxt val)
  have "unat (val - lo) \<le> unat (hi - lo)" if "lo \<le> val" "val \<le> hi"
    using that by (simp add: unat_sub word_le_nat_alt)
  with 1 show ?case
    by (auto simp: nth_name_def split: option.splits)
qed

lemma search_range_Some:
  assumes "search_range early m en k names = Inr (Some v)"
  shows "\<exists>i < k. v = en + of_nat i \<and> i < length names \<and> (\<exists>name. names ! i = Some name \<and> m name)"
  using assms
proof (induction early m en k names rule: search_range.induct)
  case (3 early m en k names)
  then obtain i where "i < k" "v = en + 1 + of_nat i" "i < length names"
      "\<exists>name. names ! i = Some name \<and> m name"
    by auto
  then show ?case by (intro exI [of _ "Suc i"]) (simp add: algebra_simps)
next
  case (4 early m en k name names)
  show ?case
  proof (cases "m name")
    case True
    with 4 show ?thesis by (intro exI [of _ 0]) (auto split: if_splits)
  next
    case False
    with 4 obtain i where "i < k" "v = en + 1 + of_nat i" "i < length names"
      "\<exists>name. names ! i = Some name \<and> m name"
      by (auto split: if_splits)
    then show ?thesis by (intro exI [of _ "Suc i"]) (simp add: algebra_simps)
  qed
qed auto

lemma search_chain_Some:
  assumes "search_chain early m ed = Inr (Some v)" "wf_enum ed" "disjoint_ranges (enum_ranges ed)"
  shows "(\<exists>name. enum_name ed v = Inr (Some name) \<and> m name) \<and>
         (\<exists>(lo, hi) \<in> set (enum_ranges ed). lo \<le> v \<and> v \<le> hi)"
  using assms
proof (induction early m ed rule: search_chain.induct)
  case (1 early m lo hi names checklen prefix nxt)
  let ?k = "if lo \<le> hi then checklen else 0"
  consider (here) "search_range early m lo ?k names = Inr (Some v)"
    | (later) p where "search_range early m lo ?k names = Inr None" "nxt = Some p" "search_chain early m p = Inr (Some v)"
    using 1(2,3) by (auto split: sum.splits option.splits if_splits)
  then show ?case
  proof cases
    case here
    then obtain i where i: "i < ?k" "v = lo + of_nat i" "i < length names"
        "\<exists>name. names ! i = Some name \<and> m name"
      using search_range_Some by blast
    then have le: "lo \<le> hi" "i \<le> unat (hi - lo)"
      using 1(3) by (auto split: if_splits)
    show ?thesis
      using i range_index [OF le] 1(3) by (auto simp: nth_name_def)
  next
    case later
    from later have ih: "(\<exists>name. enum_name p v = Inr (Some name) \<and> m name)"
        "\<exists>(lo, hi) \<in> set (enum_ranges p). lo \<le> v \<and> v \<le> hi"
      using 1 by (auto split: if_splits)
    have "\<not> (lo \<le> v \<and> v \<le> hi)"
      using ih(2) 1(4) later(2) by fastforce
    with ih later(2) 1(3) show ?thesis by auto
  qed
qed

lemma search_range_complete:
  assumes "i < k" "k \<le> length names" "names ! i = Some name" "m name"
    and "\<forall>j < k. unat (en + of_nat j) \<le> 2 ^ 31 - 1"
  shows "\<exists>v. search_range early m en k names = Inr (Some v)"
  using assms
proof (induction early m en k names arbitrary: i rule: search_range.induct)
  case (3 early m en k names)
  then obtain j where j: "i = Suc j" by (cases i) auto
  have "\<forall>j < k. unat (en + 1 + of_nat j) \<le> 2 ^ 31 - 1"
    using 3(6) by (metis Suc_less_eq add.assoc of_nat_Suc)
  with 3 j show ?case by auto
next
  case (4 early m en k n names)
  have "\<forall>j < k. unat (en + 1 + of_nat j) \<le> 2 ^ 31 - 1"
    using 4(6) by (metis Suc_less_eq add.assoc of_nat_Suc)
  moreover have "unat en \<le> 2 ^ 31 - 1" using 4(6) by force
  ultimately show ?case using 4 by (cases i) auto
qed auto

lemma search_range_total:
  assumes "k \<le> length names" and "\<forall>j < k. unat (en + of_nat j) \<le> 2 ^ 31 - 1"
  shows "\<exists>r. search_range early m en k names = Inr r"
  using assms
proof (induction early m en k names rule: search_range.induct)
  case (3 early m en k names)
  have "\<forall>j < k. unat (en + 1 + of_nat j) \<le> 2 ^ 31 - 1"
    using 3(3) by (metis Suc_less_eq add.assoc of_nat_Suc)
  with 3 show ?case by auto
next
  case (4 early m en k n names)
  have "\<forall>j < k. unat (en + 1 + of_nat j) \<le> 2 ^ 31 - 1"
    using 4(3) by (metis Suc_less_eq add.assoc of_nat_Suc)
  moreover have "unat en \<le> 2 ^ 31 - 1" using 4(3) by force
  ultimately show ?case using 4 by auto
qed auto

lemma range_values_int:
  fixes lo hi :: u64
  assumes "lo \<le> hi" "unat hi \<le> 2 ^ 31 - 1" "j < unat (hi - lo) + 1"
  shows "unat (lo + of_nat j) \<le> 2 ^ 31 - 1"
  using range_index (2) [of lo hi j] assms by (simp add: word_le_nat_alt)

lemma search_chain_complete:
  assumes "wf_enum ed" "\<forall>(lo, hi) \<in> set (enum_ranges ed). unat hi \<le> 2 ^ 31 - 1"
    and "enum_name ed v = Inr (Some name)" "m name"
  shows "\<exists>v'. search_chain early m ed = Inr (Some v')"
  using assms
proof (induction early m ed rule: search_chain.induct)
  case (1 early m lo hi names checklen prefix nxt)
  let ?k = "if lo \<le> hi then checklen else 0"
  have ints: "\<forall>j < ?k. unat (lo + of_nat j) \<le> 2 ^ 31 - 1"
    using 1(2,3) range_values_int [of lo hi] by auto
  have len: "?k \<le> length names" using 1(2) by auto
  show ?case
  proof (cases "lo \<le> v \<and> v \<le> hi")
    case True
    then have "unat (v - lo) < ?k" using 1(2)
      by (auto simp: unat_sub word_le_nat_alt)
    moreover from this have "names ! unat (v - lo) = Some name"
      using True 1(2,4) len by (auto simp: nth_name_def)
    ultimately obtain v' where "search_range early m lo ?k names = Inr (Some v')"
      using search_range_complete [where m = m and en = lo and names = names and name = name] len ints 1(5)
      by blast
    then show ?thesis using 1(2) by simp
  next
    case False
    then obtain p where p: "nxt = Some p" "enum_name p v = Inr (Some name)"
      using 1(2,4) by (auto split: option.splits)
    obtain r where r: "search_range early m lo ?k names = Inr r"
      using search_range_total [where en = lo and names = names] len ints by blast
    show ?thesis
    proof (cases r)
      case None
      moreover have "\<exists>v'. search_chain early m p = Inr (Some v')"
        using 1 p r None by auto
      ultimately show ?thesis using 1(2) p r by auto
    next
      case (Some v')
      with r 1(2) show ?thesis by simp
    qed
  qed
qed

section \<open>Bit sets, specified\<close>

lemma testset_from_spec:
  assumes "\<forall>n. bit val n \<longrightarrow> k \<le> n \<and> n < k + length ns"
  shows "testset_from ns (push_bit k 1) val =
    Inr (\<forall>n. bit val n \<longrightarrow> (\<forall>m \<in> {k..n}. ns ! (m - k) \<noteq> None) \<and> ns ! (n - k) \<noteq> Some [])"
  using assms
proof (induction ns "push_bit k 1 :: u64" val arbitrary: k rule: testset_from.induct)
  case (1 val)
  then have "val = 0" by (intro bit_word_eqI) auto
  then show ?case by simp
next
  case (2 n ns val k)
  let ?v = "val AND NOT (push_bit k 1)"
  have rest: "\<forall>i. bit ?v i \<longleftrightarrow> bit val i \<and> i \<noteq> k"
    using 2(2) by (auto simp: bit_simps dest: bit_imp_le_length)
  then have vb: "\<forall>i. bit ?v i \<longrightarrow> Suc k \<le> i \<and> i < Suc k + length ns"
    using 2(2) by (metis Suc_leI add_Suc add_Suc_right le_neq_implies_less length_Cons)
  have pb: "push_bit 1 (push_bit k 1) = (push_bit (Suc k) 1 :: u64)" by simp
  show ?case
  proof (cases n)
    case None
    show ?thesis
    proof (cases "val = 0")
      case False
      then obtain i where "bit val i" by (auto simp: bit_eq_iff)
      moreover from this have "k \<in> {k..i}" using 2(2) by auto
      ultimately show ?thesis using None False by force
    qed simp
  next
    case (Some s)
    have b: "val AND push_bit k 1 \<noteq> 0 \<longleftrightarrow> bit val k"
      by (simp add: bit_iff_and_push_bit_not_eq_0)
    have shift: "(Some s # ns) ! (m - k) = ns ! (m - Suc k)" if "Suc k \<le> m" for m
      using that by (simp add: nth_Cons')
    have iv: "{k..i} = insert k {Suc k..i}" if "k \<le> i" for i
      using that by auto
    show ?thesis
    proof (cases "val = 0 \<or> bit val k \<and> s = []")
      case True
      with Some b show ?thesis by force
    next
      case False
      with Some b have "testset_from (n # ns) (push_bit k 1) val = testset_from ns (push_bit (Suc k) 1) ?v"
        by (auto simp: mult.commute)
      also have "\<dots> = Inr (\<forall>i. bit ?v i \<longrightarrow> (\<forall>m \<in> {Suc k..i}. ns ! (m - Suc k) \<noteq> None) \<and> ns ! (i - Suc k) \<noteq> Some [])"
        by (rule 2(1) [OF _ Some _ pb vb]) (use False b in auto)
      also have "(\<forall>i. bit ?v i \<longrightarrow> (\<forall>m \<in> {Suc k..i}. ns ! (m - Suc k) \<noteq> None) \<and> ns ! (i - Suc k) \<noteq> Some []) \<longleftrightarrow>
          (\<forall>i. bit val i \<longrightarrow> (\<forall>m\<in>{k..i}. (n # ns) ! (m - k) \<noteq> None) \<and> (n # ns) ! (i - k) \<noteq> Some [])"
          (is "(\<forall>i. ?P i) \<longleftrightarrow> (\<forall>i. ?Q i)")
      proof (rule all_cong1)
        fix i
        have "bit val i \<Longrightarrow> k \<le> i" using 2(2) by blast
        then show "?P i \<longleftrightarrow> ?Q i"
          using rest False Some shift iv [of i] by (cases "i = k") auto
      qed
      finally show ?thesis .
    qed
  qed
qed

lemma testset_spec:
  assumes "\<forall>n. bit val n \<longrightarrow> n < length table"
  shows "testset table val =
    Inr (\<forall>n. bit val n \<longrightarrow> (\<forall>m \<le> n. table ! m \<noteq> None) \<and> table ! n \<noteq> Some [])"
  using testset_from_spec [where k = 0 and ns = table and val = val] assms
  by (auto simp: testset_def)

text \<open>
  What \<^verbatim>\<open>testset\<close> answers, whatever the table: the members have to be named by a non-empty name
  in front of the terminating NULL.
\<close>

definition set_named :: "name_array \<Rightarrow> nat \<Rightarrow> bool" where
  "set_named table b \<longleftrightarrow> b < length (takeWhile (\<lambda>n. n \<noteq> None) table) \<and> table ! b \<noteq> Some []"

lemma testset_from_answer:
  assumes "testset_from ns (push_bit k 1) val = Inr r" "\<forall>n. bit val n \<longrightarrow> k \<le> n"
  shows "r \<longleftrightarrow> (\<forall>n. bit val n \<longrightarrow> set_named ns (n - k))"
  using assms
proof (induction ns arbitrary: k val)
  case Nil
  then show ?case by (auto split: if_splits)
next
  case (Cons n ns k val)
  let ?v = "val AND NOT (push_bit k 1)"
  have rest: "bit ?v i \<longleftrightarrow> bit val i \<and> i \<noteq> k" for i
    by (auto simp: bit_simps dest: bit_imp_le_length)
  have b: "val AND push_bit k 1 \<noteq> 0 \<longleftrightarrow> bit val k"
    by (simp add: bit_iff_and_push_bit_not_eq_0)
  have pb: "push_bit 1 (push_bit k 1) = (push_bit (Suc k) 1 :: u64)" by simp
  have ex: "val \<noteq> 0 \<Longrightarrow> \<exists>i. bit val i" by (auto simp: bit_eq_iff)
  show ?case
  proof (cases n)
    case None
    then show ?thesis using Cons(2) ex by (auto simp: set_named_def split: if_splits)
  next
    case (Some t)
    consider "val = 0" | "val \<noteq> 0" "bit val k" "t = []" | "val \<noteq> 0" "\<not> (bit val k \<and> t = [])" by blast
    then show ?thesis
    proof cases
      case 2
      then have "\<not> set_named (n # ns) (k - k)" using Some by (simp add: set_named_def)
      moreover have "\<not> r" using Cons(2) Some 2 b by simp
      ultimately show ?thesis using 2(2) by metis
    next
      case 3
      have t: "testset_from ns (push_bit (Suc k) 1) ?v = Inr r"
        using Cons(2) Some 3 b pb by (simp del: push_bit_of_1 push_bit_Suc split: if_splits)
      have low: "\<forall>i. bit ?v i \<longrightarrow> Suc k \<le> i" using Cons(3) rest by (metis Suc_leI le_neq_implies_less)
      have sh: "set_named (n # ns) (i - k) \<longleftrightarrow> set_named ns (i - Suc k)" if "Suc k \<le> i" for i
        using that Some by (simp add: set_named_def Suc_diff_le nth_Cons' Suc_le_eq) (metis Suc_diff_Suc Suc_less_eq)
      have here: "bit val k \<longrightarrow> set_named (n # ns) (k - k)" using 3(2) Some by (simp add: set_named_def)
      show ?thesis unfolding Cons.IH [OF t low] using rest sh low here by metis
    qed (use Cons(2) in simp)
  qed
qed

lemma testset_answer: "testset table val = Inr r \<Longrightarrow> r \<longleftrightarrow> (\<forall>n. bit val n \<longrightarrow> set_named table n)"
  using testset_from_answer [of table 0 val r] by (simp add: testset_def)

text \<open>
  A table without a terminating NULL whose names are all non-empty: \<^verbatim>\<open>testset\<close> accepts the
  sets that have a name for every member and reads past the table on every other set.
\<close>

lemma testset_from_zero [simp]: "testset_from ns b 0 = Inr True"
  by (cases ns) auto

lemma testset_from_unterminated:
  assumes "\<forall>n \<in> set ns. n \<noteq> None \<and> n \<noteq> Some []" "\<forall>n. bit val n \<longrightarrow> k \<le> n"
  shows "testset_from ns (push_bit k 1) val =
    (if \<forall>n. bit val n \<longrightarrow> n < k + length ns then Inr True else Inl Out_of_bounds)"
  using assms
proof (induction ns arbitrary: k val)
  case Nil
  have "val = 0 \<longleftrightarrow> (\<forall>n. bit val n \<longrightarrow> n < k)"
    using Nil(2) by (metis bit_0_eq bot_apply bot_bool_def leD bit_word_eqI)
  then show ?case by simp
next
  case (Cons n ns k val)
  let ?v = "val AND NOT (push_bit k 1)"
  have rest: "bit ?v i \<longleftrightarrow> bit val i \<and> i \<noteq> k" for i
    by (auto simp: bit_simps dest: bit_imp_le_length)
  have low: "\<forall>i. bit ?v i \<longrightarrow> Suc k \<le> i"
    using Cons(3) rest by (metis Suc_leI le_neq_implies_less)
  have pb: "push_bit 1 (push_bit k 1) = (push_bit (Suc k) 1 :: u64)" by simp
  have "testset_from (n # ns) (push_bit k 1) val = testset_from ns (push_bit (Suc k) 1) ?v"
    using Cons(2) pb by (cases "val = 0"; cases n) (simp_all del: push_bit_of_1 push_bit_Suc)
  also have "\<dots> = (if \<forall>i. bit ?v i \<longrightarrow> i < Suc k + length ns then Inr True else Inl Out_of_bounds)"
    using Cons.IH [OF _ low] Cons(2) by simp
  finally show ?case unfolding rest by (metis add_Suc_right add_Suc length_Cons less_add_Suc1)
qed

lemma bits_below_8: "(\<forall>n. bit val n \<longrightarrow> n < 8) \<longleftrightarrow> (val :: u64) < 256"
proof -
  have "(\<forall>n. bit val n \<longrightarrow> n < 8) \<longleftrightarrow> take_bit 8 val = val"
    by (metis bit_take_bit_iff bit_word_eqI)
  also have "\<dots> \<longleftrightarrow> unat val mod 256 = unat val"
    by (simp add: take_bit_eq_mod word_unat_eq_iff [of "val mod 256"] unat_mod)
  also have "\<dots> \<longleftrightarrow> val < 256"
    by (auto simp: word_less_nat_alt mod_less mod_eq_self_iff_div_eq_0 div_eq_0_iff)
  finally show ?thesis .
qed

lemma testset_from_terminated: "None \<in> set ns \<Longrightarrow> \<exists>r. testset_from ns b v = Inr r"
  by (induction ns b v rule: testset_from.induct) (auto split: option.splits)

end
