(* ===== verification/EnumTables.thy ===== *)
theory EnumTables
  imports EnumNames
begin

text \<open>
  The name tables of \<^verbatim>\<open>lib/libswan/constants.c\<close> that the packet descriptors and the
  start-up check refer to, in the default build (no \<^verbatim>\<open>HAVE_LABELED_IPSEC\<close>). A pointer
  into the middle of an array (\<^verbatim>\<open>&a[k]\<close>) is \<open>drop k a\<close>; \<^verbatim>\<open>ARRAY_REF(a)\<close> initialises
  the pointer and the check length. The last section has the registry \<^verbatim>\<open>en_checklist\<close>
  that \<^verbatim>\<open>init_constants\<close> checks.
\<close>

section \<open>Names of enumeration values and of bits\<close>

definition version_name_2 :: name_array where
  "version_name_2 = [
    Some ''IKEv2 version 2.0 (rfc4306/rfc5996)'']"

definition version_name_1 :: name_array where
  "version_name_1 = [
    Some ''ISAKMP Version 1.0 (rfc2407)'']"

definition version_names_1 :: enum_names where
  \<comment> \<open>ISAKMP_MAJOR_VERSION << ISA_MAJ_SHIFT | ISAKMP_MINOR_VERSION .. ISAKMP_MAJOR_VERSION << ISA_MAJ_SHIFT | ISAKMP_MINOR_VERSION\<close>
  "version_names_1 = EnumNames 16 16 version_name_1
     (length version_name_1) None None"

definition version_names :: enum_names where
  \<comment> \<open>IKEv2_MAJOR_VERSION << ISA_MAJ_SHIFT | IKEv2_MINOR_VERSION .. IKEv2_MAJOR_VERSION << ISA_MAJ_SHIFT | IKEv2_MINOR_VERSION\<close>
  "version_names = EnumNames 32 32 version_name_2
     (length version_name_2) None (Some version_names_1)"

definition doi_name :: name_array where
  "doi_name = [
    Some ''ISAKMP_DOI_ISAKMP'', Some ''ISAKMP_DOI_IPSEC'']"

definition doi_names :: enum_names where
  \<comment> \<open>ISAKMP_DOI_ISAKMP .. ISAKMP_DOI_IPSEC\<close>
  "doi_names = EnumNames 0 1 doi_name
     (length doi_name) None None"

definition connection_kind_name :: name_array where
  "connection_kind_name = [
    Some ''CK_GROUP'', Some ''CK_TEMPLATE'', Some ''CK_PERMANENT'', Some ''CK_INSTANCE'',
    Some ''CK_GOING_AWAY'']"

definition connection_kind_names :: enum_names where
  \<comment> \<open>CK_GROUP .. CK_GOING_AWAY\<close>
  "connection_kind_names = EnumNames 0 4 connection_kind_name
     (length connection_kind_name) None None"

definition payload_name_ikev1 :: name_array where
  "payload_name_ikev1 = [
    Some ''ISAKMP_NEXT_NONE'', Some ''ISAKMP_NEXT_SA'', Some ''ISAKMP_NEXT_P'',
    Some ''ISAKMP_NEXT_T'', Some ''ISAKMP_NEXT_KE'', Some ''ISAKMP_NEXT_ID'',
    Some ''ISAKMP_NEXT_CERT'', Some ''ISAKMP_NEXT_CR'', Some ''ISAKMP_NEXT_HASH'',
    Some ''ISAKMP_NEXT_SIG'', Some ''ISAKMP_NEXT_NONCE'', Some ''ISAKMP_NEXT_N'',
    Some ''ISAKMP_NEXT_D'', Some ''ISAKMP_NEXT_VID'', Some ''ISAKMP_NEXT_MODECFG'',
    Some ''ISAKMP_NEXT_SAK'', Some ''ISAKMP_NEXT_TEK'', Some ''ISAKMP_NEXT_KD'',
    Some ''ISAKMP_NEXT_SEQ'', Some ''ISAKMP_NEXT_POP'', Some ''ISAKMP_NEXT_NATD_RFC'',
    Some ''ISAKMP_NEXT_NATOA_RFC'', Some ''ISAKMP_NEXT_GAP'', None]"

definition payload_name_ikev1_private_use :: name_array where
  "payload_name_ikev1_private_use = [
    Some ''ISAKMP_NEXT_NATD_DRAFTS'', Some ''ISAKMP_NEXT_NATOA_DRAFTS'',
    Some ''ISAKMP_NEXT_IKE_FRAGMENTATION'']"

definition payload_names_ikev1_private_use :: enum_names where
  \<comment> \<open>ISAKMP_NEXT_NATD_DRAFTS .. ISAKMP_NEXT_IKE_FRAGMENTATION\<close>
  "payload_names_ikev1_private_use = EnumNames 130 132 payload_name_ikev1_private_use
     (length payload_name_ikev1_private_use) None None"

definition ikev1_payload_names :: enum_names where
  \<comment> \<open>ISAKMP_NEXT_NONE .. ISAKMP_NEXT_GAP\<close>
  "ikev1_payload_names = EnumNames 0 22 payload_name_ikev1
     (length payload_name_ikev1 - 1) None (Some payload_names_ikev1_private_use)"

definition payload_name_ikev2 :: name_array where
  "payload_name_ikev2 = [
    Some ''ISAKMP_NEXT_v2NONE'']"

definition payload_name_ikev2_main :: name_array where
  "payload_name_ikev2_main = [
    Some ''ISAKMP_NEXT_v2SA'', Some ''ISAKMP_NEXT_v2KE'', Some ''ISAKMP_NEXT_v2IDi'',
    Some ''ISAKMP_NEXT_v2IDr'', Some ''ISAKMP_NEXT_v2CERT'', Some ''ISAKMP_NEXT_v2CERTREQ'',
    Some ''ISAKMP_NEXT_v2AUTH'', Some ''ISAKMP_NEXT_v2Ni'', Some ''ISAKMP_NEXT_v2N'',
    Some ''ISAKMP_NEXT_v2D'', Some ''ISAKMP_NEXT_v2V'', Some ''ISAKMP_NEXT_v2TSi'',
    Some ''ISAKMP_NEXT_v2TSr'', Some ''ISAKMP_NEXT_v2SK'', Some ''ISAKMP_NEXT_v2CP'',
    Some ''ISAKMP_NEXT_v2EAP'', Some ''ISAKMP_NEXT_v2GSPM'', Some ''ISAKMP_NEXT_v2IDG'',
    Some ''ISAKMP_NEXT_v2GSA'', Some ''ISAKMP_NEXT_v2KD'', Some ''ISAKMP_NEXT_v2SKF'', None]"

definition payload_name_ikev2_private_use :: name_array where
  "payload_name_ikev2_private_use = [
    Some ''ISAKMP_NEXT_v2IKE_FRAGMENTATION'']"

definition payload_names_ikev2_private_use :: enum_names where
  \<comment> \<open>ISAKMP_NEXT_v2IKE_FRAGMENTATION .. ISAKMP_NEXT_v2IKE_FRAGMENTATION\<close>
  "payload_names_ikev2_private_use = EnumNames 132 132 payload_name_ikev2_private_use
     (length payload_name_ikev2_private_use) None None"

definition payload_names_ikev2_main :: enum_names where
  \<comment> \<open>ISAKMP_NEXT_v2SA .. ISAKMP_NEXT_v2SKF\<close>
  "payload_names_ikev2_main = EnumNames 33 53 payload_name_ikev2_main
     (length payload_name_ikev2_main - 1) None (Some payload_names_ikev2_private_use)"

definition ikev2_payload_names :: enum_names where
  \<comment> \<open>ISAKMP_NEXT_v2NONE .. ISAKMP_NEXT_v2NONE\<close>
  "ikev2_payload_names = EnumNames 0 0 payload_name_ikev2
     (length payload_name_ikev2) None (Some payload_names_ikev2_main)"

definition payload_names_ikev2copy_main :: enum_names where
  \<comment> \<open>ISAKMP_NEXT_v2SA .. ISAKMP_NEXT_v2SKF\<close>
  "payload_names_ikev2copy_main = EnumNames 33 53 payload_name_ikev2_main
     (length payload_name_ikev2_main - 1) None (Some payload_names_ikev1_private_use)"

definition payload_names_ikev1orv2 :: enum_names where
  \<comment> \<open>ISAKMP_NEXT_NONE .. ISAKMP_NEXT_GAP\<close>
  "payload_names_ikev1orv2 = EnumNames 0 22 payload_name_ikev1
     (length payload_name_ikev1 - 1) None (Some payload_names_ikev2copy_main)"

definition ikev2_last_proposal_names :: name_array where
  "ikev2_last_proposal_names = [
    Some ''v2_PROPOSAL_LAST'', None, Some ''v2_PROPOSAL_NON_LAST'']"

definition ikev2_last_proposal_desc :: enum_names where
  \<comment> \<open>v2_PROPOSAL_LAST .. v2_PROPOSAL_NON_LAST\<close>
  "ikev2_last_proposal_desc = EnumNames 0 2 ikev2_last_proposal_names
     (length ikev2_last_proposal_names) None None"

definition exchange_name_ikev1 :: name_array where
  "exchange_name_ikev1 = [
    Some ''ISAKMP_XCHG_NONE'', Some ''ISAKMP_XCHG_BASE'', Some ''ISAKMP_XCHG_IDPROT'',
    Some ''ISAKMP_XCHG_AO'', Some ''ISAKMP_XCHG_AGGR'', Some ''ISAKMP_XCHG_INFO'',
    Some ''ISAKMP_XCHG_MODE_CFG'']"

definition exchange_name_doi :: name_array where
  "exchange_name_doi = [
    Some ''ISAKMP_XCHG_STOLEN_BY_OPENSWAN_FOR_ECHOREQUEST'',
    Some ''ISAKMP_XCHG_STOLEN_BY_OPENSWAN_FOR_ECHOREPLY'', Some ''ISAKMP_XCHG_QUICK'',
    Some ''ISAKMP_XCHG_NGRP'']"

definition exchange_name_private_use :: name_array where
  "exchange_name_private_use = [
    Some ''ISAKMP_XCHG_ECHOREQUEST_PRIVATE'', Some ''ISAKMP_XCHG_ECHOREPLY_PRIVATE'']"

definition exchange_names_private_use :: enum_names where
  \<comment> \<open>ISAKMP_XCHG_ECHOREQUEST_PRIVATE .. ISAKMP_XCHG_ECHOREPLY_PRIVATE\<close>
  "exchange_names_private_use = EnumNames 244 245 exchange_name_private_use
     (length exchange_name_private_use) None None"

definition exchange_names_doi :: enum_names where
  \<comment> \<open>ISAKMP_XCHG_STOLEN_BY_OPENSWAN_FOR_ECHOREQUEST .. ISAKMP_XCHG_NGRP\<close>
  "exchange_names_doi = EnumNames 30 33 exchange_name_doi
     (length exchange_name_doi) None (Some exchange_names_private_use)"

definition ikev1_exchange_names :: enum_names where
  \<comment> \<open>ISAKMP_XCHG_NONE .. ISAKMP_XCHG_MODE_CFG\<close>
  "ikev1_exchange_names = EnumNames 0 6 exchange_name_ikev1
     (length exchange_name_ikev1) None (Some exchange_names_doi)"

definition exchange_name_ikev2 :: name_array where
  "exchange_name_ikev2 = [
    Some ''ISAKMP_v2_SA_INIT'', Some ''ISAKMP_v2_AUTH'', Some ''ISAKMP_v2_CREATE_CHILD_SA'',
    Some ''ISAKMP_v2_INFORMATIONAL'', Some ''ISAKMP_v2_IKE_SESSION_RESUME'']"

definition ikev2_exchange_names :: enum_names where
  \<comment> \<open>ISAKMP_v2_SA_INIT .. ISAKMP_v2_IKE_SESSION_RESUME\<close>
  "ikev2_exchange_names = EnumNames 34 38 exchange_name_ikev2
     (length exchange_name_ikev2) None (Some exchange_names_private_use)"

definition exchange_names_doi_and_v2 :: enum_names where
  \<comment> \<open>ISAKMP_XCHG_STOLEN_BY_OPENSWAN_FOR_ECHOREQUEST .. ISAKMP_XCHG_NGRP\<close>
  "exchange_names_doi_and_v2 = EnumNames 30 33 exchange_name_doi
     (length exchange_name_doi) None (Some ikev2_exchange_names)"

definition exchange_names_ikev1orv2 :: enum_names where
  \<comment> \<open>ISAKMP_XCHG_NONE .. ISAKMP_XCHG_MODE_CFG\<close>
  "exchange_names_ikev1orv2 = EnumNames 0 6 exchange_name_ikev1
     (length exchange_name_ikev1) None (Some exchange_names_doi_and_v2)"

definition ikev1_protocol_name :: name_array where
  "ikev1_protocol_name = [
    Some ''PROTO_RESERVED'', Some ''PROTO_ISAKMP'', Some ''PROTO_IPSEC_AH'',
    Some ''PROTO_IPSEC_ESP'', Some ''PROTO_IPCOMP'']"

definition ikev1_protocol_names :: enum_names where
  \<comment> \<open>PROTO_RESERVED .. PROTO_IPCOMP\<close>
  "ikev1_protocol_names = EnumNames 0 4 ikev1_protocol_name
     (length ikev1_protocol_name) None None"

definition ikev2_protocol_name :: name_array where
  "ikev2_protocol_name = [
    Some ''PROTO_v2_RESERVED'', Some ''PROTO_v2_IKE'', Some ''PROTO_v2_AH'', Some ''PROTO_v2_ESP'']"

definition ikev2_protocol_names :: enum_names where
  \<comment> \<open>PROTO_v2_RESERVED .. PROTO_v2_ESP\<close>
  "ikev2_protocol_names = EnumNames 0 3 ikev2_protocol_name
     (length ikev2_protocol_name) None None"

definition ikev2_del_protocol_names :: enum_names where
  \<comment> \<open>PROTO_ISAKMP .. PROTO_IPSEC_ESP\<close>
  "ikev2_del_protocol_names = EnumNames 1 3 (drop 1 ikev2_protocol_name)
     (length ikev2_protocol_name - 1) None None"

definition isakmp_transform_name :: name_array where
  "isakmp_transform_name = [
    Some ''KEY_IKE'']"

definition isakmp_transformid_names :: enum_names where
  \<comment> \<open>KEY_IKE .. KEY_IKE\<close>
  "isakmp_transformid_names = EnumNames 1 1 isakmp_transform_name
     (length isakmp_transform_name) None None"

definition ah_transform_name :: name_array where
  "ah_transform_name = [
    Some ''AH_MD5'', Some ''AH_SHA'', Some ''AH_DES(UNUSED)'', Some ''AH_SHA2_256'',
    Some ''AH_SHA2_384'', Some ''AH_SHA2_512'', Some ''AH_RIPEMD'', Some ''AH_AES_XCBC_MAC'',
    Some ''AH_RSA(UNUSED)'', Some ''AH_AES_128_GMAC'', Some ''AH_AES_192_GMAC'',
    Some ''AH_AES_256_GMAC'']"

definition ah_transform_name_private_use :: name_array where
  "ah_transform_name_private_use = [
    Some ''AH_AES_CMAC_96'', Some ''AH_NULL'', Some ''AH_SHA2_256_TRUNC'']"

definition ah_transformid_names_private_use :: enum_names where
  \<comment> \<open>AH_AES_CMAC_96 .. AH_SHA2_256_TRUNC\<close>
  "ah_transformid_names_private_use = EnumNames 250 252 ah_transform_name_private_use
     (length ah_transform_name_private_use) None None"

definition ah_transformid_names :: enum_names where
  \<comment> \<open>AH_MD5 .. AH_AES_256_GMAC\<close>
  "ah_transformid_names = EnumNames 2 13 ah_transform_name
     (length ah_transform_name) (Some ''AH_'') (Some ah_transformid_names_private_use)"

definition esp_transform_name :: name_array where
  "esp_transform_name = [
    Some ''ESP_DES_IV64(UNUSED)'', Some ''ESP_DES(UNUSED)'', Some ''ESP_3DES'',
    Some ''ESP_RC5(UNUSED)'', Some ''ESP_IDEA(UNUSED)'', Some ''ESP_CAST'',
    Some ''ESP_BLOWFISH(UNUSED)'', Some ''ESP_3IDEA(UNUSED)'', Some ''ESP_DES_IV32(UNUSED)'',
    Some ''ESP_RC4(UNUSED)'', Some ''ESP_NULL'', Some ''ESP_AES'', Some ''ESP_AES_CTR'',
    Some ''ESP_AES_CCM_A'', Some ''ESP_AES_CCM_B'', Some ''ESP_AES_CCM_C'',
    Some ''ESP_UNUSED_ID17'', Some ''ESP_AES_GCM_A'', Some ''ESP_AES_GCM_B'',
    Some ''ESP_AES_GCM_C'', Some ''ESP_NULL_AUTH_AES_GMAC'', Some ''ESP_CAMELLIA'',
    Some ''IKEv2:ESP_CAMELLIA or IKEv1:ESP_NULL_AUTH_AES_GMAC'', Some ''ESP_CAMELLIA_CTR'',
    Some ''ESP_CAMELLIA_CCM_A'', Some ''ESP_CAMELLIA_CCM_B'', Some ''ESP_CAMELLIA_CCM_C'']"

definition esp_transform_name_private_use :: name_array where
  "esp_transform_name_private_use = [
    Some ''ESP_MARS'', Some ''ESP_RC6(UNUSED)'', Some ''ESP_KAME_NULL'', Some ''ESP_SERPENT'',
    Some ''ESP_TWOFISH'', Some ''ESP_ID254(UNUSED)'', Some ''ESP_ID255(UNUSED)'']"

definition esp_transformid_names_private_use :: enum_names where
  \<comment> \<open>ESP_MARS .. ESP_ID255\<close>
  "esp_transformid_names_private_use = EnumNames 249 255 esp_transform_name_private_use
     (length esp_transform_name_private_use) None None"

definition esp_transformid_names :: enum_names where
  \<comment> \<open>ESP_DES_IV64 .. ESP_CAMELLIA_CCM_16\<close>
  "esp_transformid_names = EnumNames 1 27 esp_transform_name
     (length esp_transform_name) (Some ''ESP_'') (Some esp_transformid_names_private_use)"

definition ipcomp_transform_name :: name_array where
  "ipcomp_transform_name = [
    Some ''IPCOMP_OUI'', Some ''IPCOMP_DEFLAT'', Some ''IPCOMP_LZS'', Some ''IPCOMP_LZJH'']"

definition ipcomp_transformid_names :: enum_names where
  \<comment> \<open>IPCOMP_OUI .. IPCOMP_LZJH\<close>
  "ipcomp_transformid_names = EnumNames 1 4 ipcomp_transform_name
     (length ipcomp_transform_name) None None"

definition ike_idtype_name :: name_array where
  "ike_idtype_name = [
    Some ''ID_NONE'', Some ''ID_IPV4_ADDR'', Some ''ID_FQDN'', Some ''ID_USER_FQDN'',
    Some ''ID_IPV4_ADDR_SUBNET'', Some ''ID_IPV6_ADDR'', Some ''ID_IPV6_ADDR_SUBNET'',
    Some ''ID_IPV4_ADDR_RANGE'', Some ''ID_IPV6_ADDR_RANGE'', Some ''ID_DER_ASN1_DN'',
    Some ''ID_DER_ASN1_GN'', Some ''ID_KEY_ID'', Some ''ID_FC_NAME'', Some ''ID_NULL'']"

definition ike_idtype_names :: enum_names where
  \<comment> \<open>ID_IPV4_ADDR .. ID_NULL\<close>
  "ike_idtype_names = EnumNames 1 13 (drop 1 ike_idtype_name)
     13 None None"

definition ikev2_idtype_names_3 :: enum_names where
  \<comment> \<open>ID_DER_ASN1_DN .. ID_NULL\<close>
  "ikev2_idtype_names_3 = EnumNames 9 13 (drop 9 ike_idtype_name)
     (length ike_idtype_name - 9) None None"

definition ikev2_idtype_names_2 :: enum_names where
  \<comment> \<open>ID_IPV6_ADDR .. ID_IPV6_ADDR\<close>
  "ikev2_idtype_names_2 = EnumNames 5 5 (drop 5 ike_idtype_name)
     1 None (Some ikev2_idtype_names_3)"

definition ikev2_idtype_names :: enum_names where
  \<comment> \<open>ID_IPV4_ADDR .. ID_RFC822_ADDR\<close>
  "ikev2_idtype_names = EnumNames 1 3 (drop 1 ike_idtype_name)
     3 None (Some ikev2_idtype_names_2)"

definition ike_cert_type_name :: name_array where
  "ike_cert_type_name = [
    Some ''CERT_PKCS7_WRAPPED_X509'', Some ''CERT_PGP'', Some ''CERT_DNS_SIGNED_KEY'',
    Some ''CERT_X509_SIGNATURE'', Some ''CERT_X509_KEY_EXCHANGE'', Some ''CERT_KERBEROS_TOKENS'',
    Some ''CERT_CRL'', Some ''CERT_ARL'', Some ''CERT_SPKI'', Some ''CERT_X509_ATTRIBUTE'',
    Some ''CERT_RAW_RSA'', Some ''CERT_X509_CERT_URL'', Some ''CERT_X509_BUNDLE_URL'',
    Some ''CERT_OCSP_CONTENT'', Some ''CERT_RAW_PUBLIC_KEY'']"

definition ike_cert_type_names :: enum_names where
  \<comment> \<open>CERT_PKCS7_WRAPPED_X509 .. CERT_X509_ATTRIBUTE\<close>
  "ike_cert_type_names = EnumNames 1 10 ike_cert_type_name
     10 None None"

definition ikev2_cert_type_names_2 :: enum_names where
  \<comment> \<open>CERT_KERBEROS_TOKENS .. CERT_RAW_PUBLIC_KEY\<close>
  "ikev2_cert_type_names_2 = EnumNames 6 15 (drop 5 ike_cert_type_name)
     10 None None"

definition ikev2_cert_type_names :: enum_names where
  \<comment> \<open>CERT_PKCS7_WRAPPED_X509 .. CERT_X509_SIGNATURE\<close>
  "ikev2_cert_type_names = EnumNames 1 4 ike_cert_type_name
     4 None (Some ikev2_cert_type_names_2)"

definition certpolicy_type_name :: name_array where
  "certpolicy_type_name = [
    Some ''cert_neversend'', Some ''cert_sendifasked'', Some ''cert_alwayssend'']"

definition certpolicy_type_names :: enum_names where
  \<comment> \<open>cert_neversend .. cert_alwayssend\<close>
  "certpolicy_type_names = EnumNames 1 3 certpolicy_type_name
     (length certpolicy_type_name) None None"

definition oakley_var_attr_name :: name_array where
  "oakley_var_attr_name = [
    Some ''OAKLEY_GROUP_PRIME (variable length)'',
    Some ''OAKLEY_GROUP_GENERATOR_ONE (variable length)'',
    Some ''OAKLEY_GROUP_GENERATOR_TWO (variable length)'',
    Some ''OAKLEY_GROUP_CURVE_A (variable length)'',
    Some ''OAKLEY_GROUP_CURVE_B (variable length)'', None,
    Some ''OAKLEY_LIFE_DURATION (variable length)'', None, None, None,
    Some ''OAKLEY_GROUP_ORDER (variable length)'']"

definition oakley_attr_bit_names :: name_array where
  "oakley_attr_bit_names = [
    Some ''OAKLEY_ENCRYPTION_ALGORITHM'', Some ''OAKLEY_HASH_ALGORITHM'',
    Some ''OAKLEY_AUTHENTICATION_METHOD'', Some ''OAKLEY_GROUP_DESCRIPTION'',
    Some ''OAKLEY_GROUP_TYPE'', Some ''OAKLEY_GROUP_PRIME'', Some ''OAKLEY_GROUP_GENERATOR_ONE'',
    Some ''OAKLEY_GROUP_GENERATOR_TWO'', Some ''OAKLEY_GROUP_CURVE_A'',
    Some ''OAKLEY_GROUP_CURVE_B'', Some ''OAKLEY_LIFE_TYPE'', Some ''OAKLEY_LIFE_DURATION'',
    Some ''OAKLEY_PRF'', Some ''OAKLEY_KEY_LENGTH'', Some ''OAKLEY_FIELD_SIZE'',
    Some ''OAKLEY_GROUP_ORDER'', None]"

definition oakley_attr_desc_tv :: enum_names where
  \<comment> \<open>OAKLEY_ENCRYPTION_ALGORITHM + ISAKMP_ATTR_AF_TV .. OAKLEY_GROUP_ORDER + ISAKMP_ATTR_AF_TV\<close>
  "oakley_attr_desc_tv = EnumNames 32769 32784 oakley_attr_bit_names
     (length oakley_attr_bit_names - 1) None None"

definition oakley_attr_names :: enum_names where
  \<comment> \<open>OAKLEY_GROUP_PRIME .. OAKLEY_GROUP_ORDER\<close>
  "oakley_attr_names = EnumNames 6 16 oakley_var_attr_name
     (length oakley_var_attr_name) None (Some oakley_attr_desc_tv)"

definition ipsec_var_attr_name :: name_array where
  "ipsec_var_attr_name = [
    None, Some ''SA_LIFE_DURATION (variable length)'', None, None, None, None, None, None,
    Some ''COMPRESS_PRIVATE_ALG (variable length)'']"

definition ipsec_attr_name :: name_array where
  "ipsec_attr_name = [
    Some ''SA_LIFE_TYPE'', Some ''SA_LIFE_DURATION'', Some ''GROUP_DESCRIPTION'',
    Some ''ENCAPSULATION_MODE'', Some ''AUTH_ALGORITHM'', Some ''KEY_LENGTH'',
    Some ''KEY_ROUNDS'', Some ''COMPRESS_DICT_SIZE'', Some ''COMPRESS_PRIVATE_ALG'']"

definition ipsec_attr_desc_tv :: enum_names where
  \<comment> \<open>SA_LIFE_TYPE + ISAKMP_ATTR_AF_TV .. COMPRESS_PRIVATE_ALG + ISAKMP_ATTR_AF_TV\<close>
  "ipsec_attr_desc_tv = EnumNames 32769 32777 ipsec_attr_name
     (length ipsec_attr_name) None None"

definition ipsec_attr_names :: enum_names where
  \<comment> \<open>SA_LIFE_TYPE .. COMPRESS_PRIVATE_ALG\<close>
  "ipsec_attr_names = EnumNames 1 9 ipsec_var_attr_name
     (length ipsec_var_attr_name) None (Some ipsec_attr_desc_tv)"

definition sa_lifetime_name :: name_array where
  "sa_lifetime_name = [
    Some ''SA_LIFE_TYPE_SECONDS'', Some ''SA_LIFE_TYPE_KBYTES'']"

definition sa_lifetime_names :: enum_names where
  \<comment> \<open>SA_LIFE_TYPE_SECONDS .. SA_LIFE_TYPE_KBYTES\<close>
  "sa_lifetime_names = EnumNames 1 2 sa_lifetime_name
     (length sa_lifetime_name) None None"

definition enc_draft_mode_name :: name_array where
  "enc_draft_mode_name = [
    Some ''ENCAPSULATION_MODE_UDP_TUNNEL_DRAFTS'',
    Some ''ENCAPSULATION_MODE_UDP_TRANSPORT_DRAFTS'']"

definition enc_rfc_mode_name :: name_array where
  "enc_rfc_mode_name = [
    Some ''ENCAPSULATION_MODE_TUNNEL'', Some ''ENCAPSULATION_MODE_TRANSPORT'',
    Some ''ENCAPSULATION_MODE_UDP_TUNNEL_RFC'', Some ''ENCAPSULATION_MODE_UDP_TRANSPORT_RFC'']"

definition enc_rfc_mode_names :: enum_names where
  \<comment> \<open>ENCAPSULATION_MODE_TUNNEL .. ENCAPSULATION_MODE_UDP_TRANSPORT_RFC\<close>
  "enc_rfc_mode_names = EnumNames 1 4 enc_rfc_mode_name
     (length enc_rfc_mode_name) None None"

definition enc_mode_names :: enum_names where
  \<comment> \<open>ENCAPSULATION_MODE_UDP_TUNNEL_DRAFTS .. ENCAPSULATION_MODE_UDP_TRANSPORT_DRAFTS\<close>
  "enc_mode_names = EnumNames 61443 61444 enc_draft_mode_name
     (length enc_draft_mode_name) None (Some enc_rfc_mode_names)"

definition auth_alg_name :: name_array where
  "auth_alg_name = [
    Some ''AUTH_ALGORITHM_NONE'', Some ''AUTH_ALGORITHM_HMAC_MD5'',
    Some ''AUTH_ALGORITHM_HMAC_SHA1'', Some ''AUTH_ALGORITHM_DES_MAC(UNUSED)'',
    Some ''AUTH_ALGORITHM_KPDK(UNUSED)'', Some ''AUTH_ALGORITHM_HMAC_SHA2_256'',
    Some ''AUTH_ALGORITHM_HMAC_SHA2_384'', Some ''AUTH_ALGORITHM_HMAC_SHA2_512'',
    Some ''AUTH_ALGORITHM_HMAC_RIPEMD'', Some ''AUTH_ALGORITHM_AES_XCBC'',
    Some ''AUTH_ALGORITHM_SIG_RSA(UNUSED)'', Some ''AUTH_ALGORITHM_AES_128_GMAC'',
    Some ''AUTH_ALGORITHM_AES_192_GMAC'', Some ''AUTH_ALGORITHM_AES_256_GMAC'']"

definition auth_alg_name_stolen_use :: name_array where
  "auth_alg_name_stolen_use = [
    Some ''AUTH_ALGORITHM_AES_CMAC_96'', Some ''AUTH_ALGORITHM_NULL_KAME'']"

definition auth_alg_names_stolen_use :: enum_names where
  \<comment> \<open>AUTH_ALGORITHM_AES_CMAC_96 .. AUTH_ALGORITHM_NULL_KAME\<close>
  "auth_alg_names_stolen_use = EnumNames 250 251 auth_alg_name_stolen_use
     (length auth_alg_name_stolen_use) None None"

definition auth_alg_names :: enum_names where
  \<comment> \<open>AUTH_ALGORITHM_NONE .. AUTH_ALGORITHM_AES_256_GMAC\<close>
  "auth_alg_names = EnumNames 0 13 auth_alg_name
     (length auth_alg_name) (Some ''AUTH_ALGORITHM_'') (Some auth_alg_names_stolen_use)"

definition xauth_type_name :: name_array where
  "xauth_type_name = [
    Some ''Generic'', Some ''RADIUS-CHAP'', Some ''OTP'', Some ''S/KEY'']"

definition xauth_type_names :: enum_names where
  \<comment> \<open>XAUTH_TYPE_GENERIC .. XAUTH_TYPE_SKEY\<close>
  "xauth_type_names = EnumNames 0 3 xauth_type_name
     (length xauth_type_name) None None"

definition modecfg_attr_name_draft :: name_array where
  "modecfg_attr_name_draft = [
    Some ''INTERNAL_IP4_ADDRESS'', Some ''INTERNAL_IP4_NETMASK'', Some ''INTERNAL_IP4_DNS'',
    Some ''INTERNAL_IP4_NBNS'', Some ''INTERNAL_ADDRESS_EXPIRY'', Some ''INTERNAL_IP4_DHCP'',
    Some ''APPLICATION_VERSION'', Some ''INTERNAL_IP6_ADDRESS'', Some ''INTERNAL_IP6_NETMASK'',
    Some ''INTERNAL_IP6_DNS'', Some ''INTERNAL_IP6_NBNS'', Some ''INTERNAL_IP6_DHCP'',
    Some ''INTERNAL_IP4_SUBNET'', Some ''SUPPORTED_ATTRIBUTES'', Some ''INTERNAL_IP6_SUBNET'',
    Some ''MIP6_HOME_PREFIX'', Some ''INTERNAL_IP6_LINK'', Some ''INTERNAL_IP6_PREFIX'',
    Some ''HOME_AGENT_ADDRESS'']"

definition xauth_attr_name :: name_array where
  "xauth_attr_name = [
    Some ''XAUTH-TYPE'', Some ''XAUTH-USER-NAME'', Some ''XAUTH-USER-PASSWORD'',
    Some ''XAUTH-PASSCODE'', Some ''XAUTH-MESSAGE'', Some ''XAUTH-CHALLENGE'',
    Some ''XAUTH-DOMAIN'', Some ''XAUTH-STATUS'', Some ''XAUTH-NEXT-PIN'', Some ''XAUTH-ANSWER'']"

definition modecfg_microsoft_attr_name :: name_array where
  "modecfg_microsoft_attr_name = [
    Some ''INTERNAL_IP4_SERVER'', Some ''INTERNAL_IP6_SERVER'']"

definition modecfg_cisco_attr_name :: name_array where
  "modecfg_cisco_attr_name = [
    Some ''MODECFG_BANNER'', Some ''CISCO_SAVE_PW'', Some ''MODECFG_DOMAIN'',
    Some ''CISCO_SPLIT_DNS'', Some ''CISCO_SPLIT_INC'', Some ''CISCO_UDP_ENCAP_PORT'',
    Some ''CISCO_SPLIT_EXCLUDE'', Some ''CISCO_DO_PFS'', Some ''CISCO_FW_TYPE'',
    Some ''CISCO_BACKUP_SERVER'', Some ''CISCO_DDNS_HOSTNAME'',
    Some ''CISCO_UNKNOWN_SEEN_ON_IPHONE'']"

definition modecfg_cisco_attr_names :: enum_names where
  \<comment> \<open>MODECFG_BANNER .. CISCO_UNKNOWN_SEEN_ON_IPHONE\<close>
  "modecfg_cisco_attr_names = EnumNames 28672 28683 modecfg_cisco_attr_name
     (length modecfg_cisco_attr_name) None None"

definition modecfg_microsoft_attr_names :: enum_names where
  \<comment> \<open>INTERNAL_IP4_SERVER .. INTERNAL_IP6_SERVER\<close>
  "modecfg_microsoft_attr_names = EnumNames 23456 23457 modecfg_microsoft_attr_name
     (length modecfg_microsoft_attr_name) None (Some modecfg_cisco_attr_names)"

definition xauth_attr_names :: enum_names where
  \<comment> \<open>XAUTH_TYPE .. XAUTH_ANSWER\<close>
  "xauth_attr_names = EnumNames 16520 16529 xauth_attr_name
     (length xauth_attr_name) None (Some modecfg_microsoft_attr_names)"

definition modecfg_attr_names :: enum_names where
  \<comment> \<open>INTERNAL_IP4_ADDRESS .. HOME_AGENT_ADDRESS\<close>
  "modecfg_attr_names = EnumNames 1 19 modecfg_attr_name_draft
     (length modecfg_attr_name_draft) None (Some xauth_attr_names)"

definition oakley_lifetime_name :: name_array where
  "oakley_lifetime_name = [
    Some ''OAKLEY_LIFE_SECONDS'', Some ''OAKLEY_LIFE_KILOBYTES'']"

definition oakley_lifetime_names :: enum_names where
  \<comment> \<open>OAKLEY_LIFE_SECONDS .. OAKLEY_LIFE_KILOBYTES\<close>
  "oakley_lifetime_names = EnumNames 1 2 oakley_lifetime_name
     (length oakley_lifetime_name) None None"

definition oakley_prf_names :: enum_names where
  \<comment> \<open>1 .. 0\<close>
  "oakley_prf_names = EnumNames 1 0 []
     0 None None"

definition oakley_enc_name :: name_array where
  "oakley_enc_name = [
    Some ''OAKLEY_DES_CBC(UNUSED)'', Some ''OAKLEY_IDEA_CBC(UNUSED)'',
    Some ''OAKLEY_BLOWFISH_CBC(UNUSED)'', Some ''OAKLEY_RC5_R16_B64_CBC(UNUSED)'',
    Some ''OAKLEY_3DES_CBC'', Some ''OAKLEY_CAST_CBC'', Some ''OAKLEY_AES_CBC'',
    Some ''OAKLEY_CAMELLIA_CBC'', Some ''UNUSED_9'', Some ''UNUSED_10'', Some ''UNUSED_11'',
    Some ''UNUSED_12'', Some ''OAKLEY_AES_CTR'', Some ''OAKLEY_AES_CCM_A'',
    Some ''OAKLEY_AES_CCM_B'', Some ''OAKLEY_AES_CCM_16'', Some ''UNUSED_17'',
    Some ''OAKLEY_AES_GCM_A'', Some ''OAKLEY_AES_GCM_B'', Some ''OAKLEY_AES_GCM_C'',
    Some ''UNUSED_21'', Some ''UNUSED_22'', Some ''UNUSED_23'', Some ''OAKLEY_CAMELLIA_CTR'',
    Some ''OAKLEY_CAMELLIA_CCM_A'', Some ''OAKLEY_CAMELLIA_CCM_B'', Some ''OAKLEY_CAMELLIA_CCM_C'']"

definition oakley_enc_name_private_use :: name_array where
  "oakley_enc_name_private_use = [
    Some ''OAKLEY_MARS_CBC'', Some ''OAKLEY_RC6_CBC'', Some ''OAKLEY_ID_65003'',
    Some ''OAKLEY_SERPENT_CBC'', Some ''OAKLEY_TWOFISH_CBC'']"

definition oakley_enc_name_private_use_ssh :: name_array where
  "oakley_enc_name_private_use_ssh = [
    Some ''OAKLEY_TWOFISH_CBC_SSH'']"

definition oakley_enc_names_private_use_ssh :: enum_names where
  \<comment> \<open>OAKLEY_TWOFISH_CBC_SSH .. OAKLEY_TWOFISH_CBC_SSH\<close>
  "oakley_enc_names_private_use_ssh = EnumNames 65289 65289 oakley_enc_name_private_use_ssh
     (length oakley_enc_name_private_use_ssh) None None"

definition oakley_enc_names_private_use :: enum_names where
  \<comment> \<open>OAKLEY_MARS_CBC .. OAKLEY_TWOFISH_CBC\<close>
  "oakley_enc_names_private_use = EnumNames 65001 65005 oakley_enc_name_private_use
     (length oakley_enc_name_private_use) None (Some oakley_enc_names_private_use_ssh)"

definition oakley_enc_names :: enum_names where
  \<comment> \<open>OAKLEY_DES_CBC .. OAKLEY_CAMELLIA_CCM_C\<close>
  "oakley_enc_names = EnumNames 1 27 oakley_enc_name
     (length oakley_enc_name) (Some ''OAKLEY_'') (Some oakley_enc_names_private_use)"

definition oakley_hash_name :: name_array where
  "oakley_hash_name = [
    Some ''OAKLEY_MD5'', Some ''OAKLEY_SHA1'', Some ''OAKLEY_TIGER(UNUSED)'',
    Some ''OAKLEY_SHA2_256'', Some ''OAKLEY_SHA2_384'', Some ''OAKLEY_SHA2_512'']"

definition oakley_hash_names :: enum_names where
  \<comment> \<open>OAKLEY_MD5 .. OAKLEY_SHA2_512\<close>
  "oakley_hash_names = EnumNames 1 6 oakley_hash_name
     (length oakley_hash_name) (Some ''OAKLEY_'') None"

definition oakley_auth_name :: name_array where
  "oakley_auth_name = [
    Some ''OAKLEY_PRESHARED_KEY'', Some ''OAKLEY_DSS_SIG'', Some ''OAKLEY_RSA_SIG'',
    Some ''OAKLEY_RSA_ENC'', Some ''OAKLEY_RSA_REVISED_MODE'', Some ''OAKLEY_RESERVED_6'',
    Some ''OAKLEY_RESERVED_7'', Some ''OAKLEY_RESERVED_8'', Some ''OAKLEY_ECDSA_P256'',
    Some ''OAKLEY_ECDSA_P384'', Some ''OAKLEY_ECDSA_P521'']"

definition oakley_auth_name_private_use :: name_array where
  "oakley_auth_name_private_use = [
    Some ''XAUTHInitPreShared'', Some ''XAUTHRespPreShared'', Some ''XAUTHInitDSS'',
    Some ''XAUTHRespDSS'', Some ''XAUTHInitRSA'', Some ''XAUTHRespRSA'',
    Some ''XAUTHInitRSAEncryption'', Some ''XAUTHRespRSAEncryption'',
    Some ''XAUTHInitRSARevisedEncryption'', Some ''XAUTHRespRSARevisedEncryption'']"

definition oakley_auth_name_private_use2 :: name_array where
  "oakley_auth_name_private_use2 = [
    Some ''HybridInitRSA'', Some ''HybridRespRSA'', Some ''HybridInitDSS'', Some ''HybridRespDSS'']"

definition oakley_auth_names_private_use2 :: enum_names where
  \<comment> \<open>HybridInitRSA .. HybridRespDSS\<close>
  "oakley_auth_names_private_use2 = EnumNames 64221 64224 oakley_auth_name_private_use2
     (length oakley_auth_name_private_use2) None None"

definition oakley_auth_names_private_use :: enum_names where
  \<comment> \<open>XAUTHInitPreShared .. XAUTHRespRSARevisedEncryption\<close>
  "oakley_auth_names_private_use = EnumNames 65001 65010 oakley_auth_name_private_use
     (length oakley_auth_name_private_use) None (Some oakley_auth_names_private_use2)"

definition oakley_auth_names :: enum_names where
  \<comment> \<open>OAKLEY_PRESHARED_KEY .. OAKLEY_ECDSA_P521\<close>
  "oakley_auth_names = EnumNames 1 11 oakley_auth_name
     (length oakley_auth_name) (Some ''OAKLEY_'') (Some oakley_auth_names_private_use)"

definition ikev2_cp_attribute_type_name :: name_array where
  "ikev2_cp_attribute_type_name = [
    Some ''IKEv2_CP_ATTR_RESERVED'', Some ''IKEv2_INTERNAL_IP4_ADDRESS'',
    Some ''IKEv2_INTERNAL_IP4_NETMASK'', Some ''IKEv2_INTERNAL_IP4_DNS'',
    Some ''IKEv2_INTERNAL_IP4_NBNS'', Some ''IKEv2_CP_ATTRIBUTE_RESERVED_5'',
    Some ''IKEv2_INTERNAL_IP4_DHCP'', Some ''IKEv2_APPLICATION_VERSION'',
    Some ''IKEv2_INTERNAL_IP6_ADDRESS'', Some ''IKEv2_CP_ATTRIBUTE_RESERVED_9'',
    Some ''IKEv2_INTERNAL_IP6_DNS'', Some ''IKEv2_CP_ATTRIBUTE_RESERVED_11'',
    Some ''IKEv2_INTERNAL_IP6_DHCP'', Some ''IKEv2_INTERNAL_IP4_SUBNET'',
    Some ''IKEv2_SUPPORTED_ATTRIBUTES'', Some ''IKEv2_INTERNAL_IP6_SUBNET'',
    Some ''IKEv2_MIP6_HOME_PREFIX'', Some ''IKEv2_INTERNAL_IP6_LINK'',
    Some ''IKEv2_INTERNAL_IP6_PREFIX'', Some ''IKEv2_HOME_AGENT_ADDRESS'',
    Some ''IKEv2_P_CSCF_IP4_ADDRESS'', Some ''IKEv2_P_CSCF_IP6_ADDRESS'', Some ''IKEv2_FTT_KAT'',
    Some ''IKEv2_EXTERNAL_SOURCE_IP4_NAT_INFO'', Some ''IKEv2_TIMEOUT_PERIOD_FOR_LIVENESS_CHECK'']"

definition ikev2_cp_attribute_type_names :: enum_names where
  \<comment> \<open>IKEv2_CP_ATTR_RESERVED .. IKEv2_TIMEOUT_PERIOD_FOR_LIVENESS_CHECK\<close>
  "ikev2_cp_attribute_type_names = EnumNames 0 24 ikev2_cp_attribute_type_name
     (length ikev2_cp_attribute_type_name) None None"

definition ikev2_cp_type_name :: name_array where
  "ikev2_cp_type_name = [
    Some ''IKEv2_CP_CFG_REQUEST'', Some ''IKEv2_CP_CFG_REPLY'', Some ''IKEv2_CP_CFG_SET'',
    Some ''IKEv2_CP_CFG_ACK'']"

definition ikev2_cp_type_names :: enum_names where
  \<comment> \<open>IKEv2_CP_CFG_REQUEST .. IKEv2_CP_CFG_ACK\<close>
  "ikev2_cp_type_names = EnumNames 1 4 ikev2_cp_type_name
     (length ikev2_cp_type_name) None None"

definition ikev2_auth_name :: name_array where
  "ikev2_auth_name = [
    Some ''IKEv2_AUTH_RESERVED'', Some ''IKEv2_AUTH_RSA'', Some ''IKEv2_AUTH_SHARED'',
    Some ''IKEv2_AUTH_DSA(UNUSED)'', Some ''IKEv2_AUTH_UNUSED_4'', Some ''IKEv2_AUTH_UNUSED_5'',
    Some ''IKEv2_AUTH_UNUSED_6'', Some ''IKEv2_AUTH_UNUSED_7'', Some ''IKEv2_AUTH_UNUSED_8'',
    Some ''IKEv2_AUTH_ECDSA_P256'', Some ''IKEv2_AUTH_ECDSA_P384'',
    Some ''IKEv2_AUTH_ECDSA_P521'', Some ''IKEv2_AUTH_GSPM'', Some ''IKEv2_AUTH_NULL'']"

definition ikev2_auth_names :: enum_names where
  \<comment> \<open>IKEv2_AUTH_RESERVED .. IKEv2_AUTH_NULL\<close>
  "ikev2_auth_names = EnumNames 0 13 ikev2_auth_name
     (length ikev2_auth_name) None None"

definition oakley_group_name :: name_array where
  "oakley_group_name = [
    Some ''OAKLEY_GROUP_MODP768'', Some ''OAKLEY_GROUP_MODP1024'',
    Some ''OAKLEY_GROUP_GP155(UNUSED)'', Some ''OAKLEY_GROUP_GP185(UNUSED)'',
    Some ''OAKLEY_GROUP_MODP1536'', Some ''OAKLEY_GROUP_EC2N_2_1(UNUSED)'',
    Some ''OAKLEY_GROUP_EC2N_2_2(UNUSED)'', Some ''OAKLEY_GROUP_EC2N_2_3(UNUSED)'',
    Some ''OAKLEY_GROUP_EC2N_2_4(UNUSED)'', Some ''OAKLEY_GROUP_EC2N_2_5(UNUSED)'',
    Some ''OAKLEY_GROUP_EC2N_2_6(UNUSED)'', Some ''OAKLEY_GROUP_EC2N_2_7(UNUSED)'',
    Some ''OAKLEY_GROUP_EC2N_2_8(UNUSED)'', Some ''OAKLEY_GROUP_MODP2048'',
    Some ''OAKLEY_GROUP_MODP3072'', Some ''OAKLEY_GROUP_MODP4096'',
    Some ''OAKLEY_GROUP_MODP6144'', Some ''OAKLEY_GROUP_MODP8192'', Some ''OAKLEY_GROUP_ECP_256'',
    Some ''OAKLEY_GROUP_ECP_384'', Some ''OAKLEY_GROUP_ECP_521'', Some ''OAKLEY_GROUP_DH22'',
    Some ''OAKLEY_GROUP_DH23'', Some ''OAKLEY_GROUP_DH24'', Some ''OAKLEY_GROUP_ECP_192'',
    Some ''OAKLEY_GROUP_ECP_224'', Some ''OAKLEY_GROUP_BRAINPOOL_P224R1'',
    Some ''OAKLEY_GROUP_BRAINPOOL_P256R1'', Some ''OAKLEY_GROUP_BRAINPOOL_P384R1'',
    Some ''OAKLEY_GROUP_BRAINPOOL_P512R1'', Some ''OAKLEY_GROUP_CURVE25519'',
    Some ''OAKLEY_GROUP_CURVE448'']"

definition oakley_group_names :: enum_names where
  \<comment> \<open>OAKLEY_GROUP_MODP768 .. OAKLEY_GROUP_CURVE448\<close>
  "oakley_group_names = EnumNames 1 32 oakley_group_name
     (length oakley_group_name) (Some ''OAKLEY_GROUP_'') None"

definition oakley_group_type_name :: name_array where
  "oakley_group_type_name = [
    Some ''OAKLEY_GROUP_TYPE_MODP'', Some ''OAKLEY_GROUP_TYPE_ECP'',
    Some ''OAKLEY_GROUP_TYPE_EC2N'']"

definition oakley_group_type_names :: enum_names where
  \<comment> \<open>OAKLEY_GROUP_TYPE_MODP .. OAKLEY_GROUP_TYPE_EC2N\<close>
  "oakley_group_type_names = EnumNames 1 3 oakley_group_type_name
     (length oakley_group_type_name) None None"

definition ikev1_notify_name :: name_array where
  "ikev1_notify_name = [
    Some ''INVALID_PAYLOAD_TYPE'', Some ''DOI_NOT_SUPPORTED'', Some ''SITUATION_NOT_SUPPORTED'',
    Some ''INVALID_COOKIE'', Some ''INVALID_MAJOR_VERSION'', Some ''INVALID_MINOR_VERSION'',
    Some ''INVALID_EXCHANGE_TYPE'', Some ''INVALID_FLAGS'', Some ''INVALID_MESSAGE_ID'',
    Some ''INVALID_PROTOCOL_ID'', Some ''INVALID_SPI'', Some ''INVALID_TRANSFORM_ID'',
    Some ''ATTRIBUTES_NOT_SUPPORTED'', Some ''NO_PROPOSAL_CHOSEN'', Some ''BAD_PROPOSAL_SYNTAX'',
    Some ''PAYLOAD_MALFORMED'', Some ''INVALID_KEY_INFORMATION'', Some ''INVALID_ID_INFORMATION'',
    Some ''INVALID_CERT_ENCODING'', Some ''INVALID_CERTIFICATE'', Some ''CERT_TYPE_UNSUPPORTED'',
    Some ''INVALID_CERT_AUTHORITY'', Some ''INVALID_HASH_INFORMATION'',
    Some ''AUTHENTICATION_FAILED'', Some ''INVALID_SIGNATURE'', Some ''ADDRESS_NOTIFICATION'',
    Some ''NOTIFY_SA_LIFETIME'', Some ''CERTIFICATE_UNAVAILABLE'',
    Some ''UNSUPPORTED_EXCHANGE_TYPE'', Some ''UNEQUAL_PAYLOAD_LENGTHS'']"

definition ikev1_notify_status_name :: name_array where
  "ikev1_notify_status_name = [
    Some ''CONNECTED'']"

definition ikev1_ipsec_notify_name :: name_array where
  "ikev1_ipsec_notify_name = [
    Some ''IPSEC_RESPONDER_LIFETIME'', Some ''IPSEC_REPLAY_STATUS'',
    Some ''IPSEC_INITIAL_CONTACT'']"

definition ikev1_notify_cisco_chatter_name :: name_array where
  "ikev1_notify_cisco_chatter_name = [
    Some ''ISAKMP_N_CISCO_HELLO'', Some ''ISAKMP_N_CISCO_WWTEBR'', Some ''ISAKMP_N_CISCO_SHUT_UP'']"

definition ikev1_notify_ios_alives_name :: name_array where
  "ikev1_notify_ios_alives_name = [
    Some ''ISAKMP_N_IOS_KEEP_ALIVE_REQ'', Some ''ISAKMP_N_IOS_KEEP_ALIVE_ACK'']"

definition ikev1_notify_dpd_name :: name_array where
  "ikev1_notify_dpd_name = [
    Some ''R_U_THERE'', Some ''R_U_THERE_ACK'']"

definition ikev1_notify_juniper_name :: name_array where
  "ikev1_notify_juniper_name = [
    Some ''NETSCREEN_NHTB_INFORM'']"

definition ikev1_notify_cisco_more_name :: name_array where
  "ikev1_notify_cisco_more_name = [
    Some ''ISAKMP_N_CISCO_LOAD_BALANCE'', Some ''ISAKMP_N_CISCO_UNKNOWN_40502'',
    Some ''ISAKMP_N_CISCO_PRESHARED_KEY_HASH'']"

definition ikev1_notify_cisco_more_names :: enum_names where
  \<comment> \<open>ISAKMP_N_CISCO_LOAD_BALANCE .. ISAKMP_N_CISCO_PRESHARED_KEY_HASH\<close>
  "ikev1_notify_cisco_more_names = EnumNames 40501 40503 ikev1_notify_cisco_more_name
     (length ikev1_notify_cisco_more_name) None None"

definition ikev1_notify_juniper_names :: enum_names where
  \<comment> \<open>NETSCREEN_NHTB_INFORM .. NETSCREEN_NHTB_INFORM\<close>
  "ikev1_notify_juniper_names = EnumNames 40001 40001 ikev1_notify_juniper_name
     (length ikev1_notify_juniper_name) None (Some ikev1_notify_cisco_more_names)"

definition ikev1_notify_dpd_names :: enum_names where
  \<comment> \<open>R_U_THERE .. R_U_THERE_ACK\<close>
  "ikev1_notify_dpd_names = EnumNames 36136 36137 ikev1_notify_dpd_name
     (length ikev1_notify_dpd_name) None (Some ikev1_notify_juniper_names)"

definition ikev1_notify_ios_alives_names :: enum_names where
  \<comment> \<open>ISAKMP_N_IOS_KEEP_ALIVE_REQ .. ISAKMP_N_IOS_KEEP_ALIVE_ACK\<close>
  "ikev1_notify_ios_alives_names = EnumNames 32768 32769 ikev1_notify_ios_alives_name
     (length ikev1_notify_ios_alives_name) None (Some ikev1_notify_dpd_names)"

definition ikev1_notify_cisco_chatter_names :: enum_names where
  \<comment> \<open>ISAKMP_N_CISCO_HELLO .. ISAKMP_N_CISCO_SHUT_UP\<close>
  "ikev1_notify_cisco_chatter_names = EnumNames 30000 30002 ikev1_notify_cisco_chatter_name
     (length ikev1_notify_cisco_chatter_name) None (Some ikev1_notify_ios_alives_names)"

definition ikev1_ipsec_notify_names :: enum_names where
  \<comment> \<open>IPSEC_RESPONDER_LIFETIME .. IPSEC_INITIAL_CONTACT\<close>
  "ikev1_ipsec_notify_names = EnumNames 24576 24578 ikev1_ipsec_notify_name
     (length ikev1_ipsec_notify_name) None (Some ikev1_notify_cisco_chatter_names)"

definition ikev1_notify_status_names :: enum_names where
  \<comment> \<open>CONNECTED .. CONNECTED\<close>
  "ikev1_notify_status_names = EnumNames 16384 16384 ikev1_notify_status_name
     (length ikev1_notify_status_name) None (Some ikev1_ipsec_notify_names)"

definition ikev1_notify_names :: enum_names where
  \<comment> \<open>INVALID_PAYLOAD_TYPE .. UNEQUAL_PAYLOAD_LENGTHS\<close>
  "ikev1_notify_names = EnumNames 1 30 ikev1_notify_name
     (length ikev1_notify_name) None (Some ikev1_notify_status_names)"

definition ikev2_notify_name :: name_array where
  "ikev2_notify_name = [
    Some ''v2N_RESERVED'', Some ''v2N_UNSUPPORTED_CRITICAL_PAYLOAD'', Some ''v2N_UNUSED_2'',
    Some ''v2N_UNUSED_3'', Some ''v2N_INVALID_IKE_SPI'', Some ''v2N_INVALID_MAJOR_VERSION'',
    Some ''v2N_UNUSED_6'', Some ''v2N_INVALID_SYNTAX'', Some ''v2N_UNUSED_8'',
    Some ''v2N_INVALID_MESSAGE_ID'', Some ''v2N_UNUSED_10'', Some ''v2N_INVALID_SPI'',
    Some ''v2N_UNUSED_12'', Some ''v2N_UNUSED_13'', Some ''v2N_NO_PROPOSAL_CHOSEN'',
    Some ''v2N_UNUSED_15'', Some ''v2N_UNUSED_16'', Some ''v2N_INVALID_KE_PAYLOAD'',
    Some ''v2N_UNUSED_18'', Some ''v2N_UNUSED_19'', Some ''v2N_UNUSED_20'',
    Some ''v2N_UNUSED_21'', Some ''v2N_UNUSED_22'', Some ''v2N_UNUSED_23'',
    Some ''v2N_AUTHENTICATION_FAILED'', Some ''v2N_UNUSED_25'', Some ''v2N_UNUSED_26'',
    Some ''v2N_UNUSED_27'', Some ''v2N_UNUSED_28'', Some ''v2N_UNUSED_29'',
    Some ''v2N_UNUSED_30'', Some ''v2N_UNUSED_31'', Some ''v2N_UNUSED_32'',
    Some ''v2N_UNUSED_33'', Some ''v2N_SINGLE_PAIR_REQUIRED'', Some ''v2N_NO_ADDITIONAL_SAS'',
    Some ''v2N_INTERNAL_ADDRESS_FAILURE'', Some ''v2N_FAILED_CP_REQUIRED'',
    Some ''v2N_TS_UNACCEPTABLE'', Some ''v2N_INVALID_SELECTORS'',
    Some ''v2N_UNACCEPTABLE_ADDRESSES'', Some ''v2N_UNEXPECTED_NAT_DETECTED'',
    Some ''v2N_USE_ASSIGNED_HoA'', Some ''v2N_TEMPORARY_FAILURE'',
    Some ''v2N_CHILD_SA_NOT_FOUND'', Some ''v2N_INVALID_GROUP_ID'',
    Some ''v2N_AUTHORIZATION_FAILED'']"

definition ikev2_notify_name_16384 :: name_array where
  "ikev2_notify_name_16384 = [
    Some ''v2N_INITIAL_CONTACT'', Some ''v2N_SET_WINDOW_SIZE'',
    Some ''v2N_ADDITIONAL_TS_POSSIBLE'', Some ''v2N_IPCOMP_SUPPORTED'',
    Some ''v2N_NAT_DETECTION_SOURCE_IP'', Some ''v2N_NAT_DETECTION_DESTINATION_IP'',
    Some ''v2N_COOKIE'', Some ''v2N_USE_TRANSPORT_MODE'', Some ''v2N_HTTP_CERT_LOOKUP_SUPPORTED'',
    Some ''v2N_REKEY_SA'', Some ''v2N_ESP_TFC_PADDING_NOT_SUPPORTED'',
    Some ''v2N_NON_FIRST_FRAGMENTS_ALSO'', Some ''v2N_MOBIKE_SUPPORTED'',
    Some ''v2N_ADDITIONAL_IP4_ADDRESS'', Some ''v2N_ADDITIONAL_IP6_ADDRESS'',
    Some ''v2N_NO_ADDITIONAL_ADDRESSES'', Some ''v2N_UPDATE_SA_ADDRESSES'', Some ''v2N_COOKIE2'',
    Some ''v2N_NO_NATS_ALLOWED'', Some ''v2N_AUTH_LIFETIME'',
    Some ''v2N_MULTIPLE_AUTH_SUPPORTED'', Some ''v2N_ANOTHER_AUTH_FOLLOWS'',
    Some ''v2N_REDIRECT_SUPPORTED'', Some ''v2N_REDIRECT'', Some ''v2N_REDIRECTED_FROM'',
    Some ''v2N_TICKET_LT_OPAQUE'', Some ''v2N_TICKET_REQUEST'', Some ''v2N_TICKET_ACK'',
    Some ''v2N_TICKET_NACK'', Some ''v2N_TICKET_OPAQUE'', Some ''v2N_LINK_ID'',
    Some ''v2N_USE_WESP_MODE'', Some ''v2N_ROHC_SUPPORTED'', Some ''v2N_EAP_ONLY_AUTHENTICATION'',
    Some ''v2N_CHILDLESS_IKEV2_SUPPORTED'', Some ''v2N_QUICK_CRASH_DETECTION'',
    Some ''v2N_IKEV2_MESSAGE_ID_SYNC_SUPPORTED'',
    Some ''v2N_IPSEC_REPLAY_COUNTER_SYNC_SUPPORTED'', Some ''v2N_IKEV2_MESSAGE_ID_SYNC'',
    Some ''v2N_IPSEC_REPLAY_COUNTER_SYNC'', Some ''v2N_SECURE_PASSWORD_METHODS'',
    Some ''v2N_PSK_PERSIST'', Some ''v2N_PSK_CONFIRM'', Some ''v2N_ERX_SUPPORTED'',
    Some ''v2N_IFOM_CAPABILITY'', Some ''v2N_SENDER_REQUEST_ID'',
    Some ''v2N_IKEV2_FRAGMENTATION_SUPPORTED'', Some ''v2N_SIGNATURE_HASH_ALGORITHMS'']"

definition ikev2_notify_names_16384 :: enum_names where
  \<comment> \<open>v2N_INITIAL_CONTACT .. v2N_SIGNATURE_HASH_ALGORITHMS\<close>
  "ikev2_notify_names_16384 = EnumNames 16384 16431 ikev2_notify_name_16384
     (length ikev2_notify_name_16384) None None"

definition ikev2_notify_names :: enum_names where
  \<comment> \<open>v2N_NOTHING_WRONG .. v2N_AUTHORIZATION_FAILED\<close>
  "ikev2_notify_names = EnumNames 0 46 ikev2_notify_name
     (length ikev2_notify_name) None (Some ikev2_notify_names_16384)"

definition ikev2_ts_type_name :: name_array where
  "ikev2_ts_type_name = [
    Some ''IKEv2_TS_IPV4_ADDR_RANGE'', Some ''IKEv2_TS_IPV6_ADDR_RANGE'',
    Some ''IKEv2_TS_FC_ADDR_RANGE'']"

definition ikev2_ts_type_names :: enum_names where
  \<comment> \<open>IKEv2_TS_IPV4_ADDR_RANGE .. IKEv2_TS_FC_ADDR_RANGE\<close>
  "ikev2_ts_type_names = EnumNames 7 9 ikev2_ts_type_name
     (length ikev2_ts_type_name) None None"

definition attr_msg_type_name :: name_array where
  "attr_msg_type_name = [
    Some ''ISAKMP_CFG_REQUEST'', Some ''ISAKMP_CFG_REPLY'', Some ''ISAKMP_CFG_SET'',
    Some ''ISAKMP_CFG_ACK'']"

definition attr_msg_type_names :: enum_names where
  \<comment> \<open>ISAKMP_CFG_REQUEST .. ISAKMP_CFG_ACK\<close>
  "attr_msg_type_names = EnumNames 1 4 attr_msg_type_name
     (length attr_msg_type_name) None None"

definition ikev2_sec_proto_id_name :: name_array where
  "ikev2_sec_proto_id_name = [
    Some ''IKEv2_SEC_PROTO_IKE'', Some ''IKEv2_SEC_PROTO_AH'', Some ''IKEv2_SEC_PROTO_ESP'',
    Some ''IKEv2_SEC_FC_ESP_HEADER'', Some ''IKEv2_SEC_FC_CT_AUTHENTICATION'']"

definition ikev2_sec_proto_id_names :: enum_names where
  \<comment> \<open>IKEv2_SEC_PROTO_IKE .. IKEv2_SEC_FC_CT_AUTHENTICATION\<close>
  "ikev2_sec_proto_id_names = EnumNames 1 5 ikev2_sec_proto_id_name
     (length ikev2_sec_proto_id_name) (Some ''IKEv2_SEC_PROTO_'') None"

definition ikev2_trans_type_encr_name :: name_array where
  "ikev2_trans_type_encr_name = [
    Some ''DES_IV64(UNUSED)'', Some ''DES(UNUSED)'', Some ''3DES'', Some ''RC5(UNUSED)'',
    Some ''IDEA(UNUSED)'', Some ''CAST'', Some ''BLOWFISH(UNUSED)'', Some ''3IDEA(UNUSED)'',
    Some ''DES_IV32(UNUSED)'', Some ''RES10(UNUSED)'', Some ''NULL'', Some ''AES_CBC'',
    Some ''AES_CTR'', Some ''AES_CCM_A'', Some ''AES_CCM_B'', Some ''AES_CCM_C'',
    Some ''UNASSIGNED(UNUSED)'', Some ''AES_GCM_A'', Some ''AES_GCM_B'', Some ''AES_GCM_C'',
    Some ''NULL_AUTH_AES_GMAC'', Some ''RESERVED_FOR_IEEE_P1619_XTS_AES(UNUSED)'',
    Some ''CAMELLIA_CBC'', Some ''CAMELLIA_CTR'', Some ''CAMELLIA_CCM_A'',
    Some ''CAMELLIA_CCM_B'', Some ''CAMELLIA_CCM_C'', Some ''CHACHA20_POLY1305'']"

definition ikev2_trans_type_encr_name_private_use1 :: name_array where
  "ikev2_trans_type_encr_name_private_use1 = [
    Some ''SERPENT_CBC'', Some ''TWOFISH_CBC'']"

definition ikev2_trans_type_encr_name_private_use2 :: name_array where
  "ikev2_trans_type_encr_name_private_use2 = [
    Some ''TWOFISH_CBC_SSH'']"

definition ikev2_trans_type_encr_names_private_use2 :: enum_names where
  \<comment> \<open>OAKLEY_TWOFISH_CBC_SSH .. OAKLEY_TWOFISH_CBC_SSH\<close>
  "ikev2_trans_type_encr_names_private_use2 = EnumNames 65289 65289 ikev2_trans_type_encr_name_private_use2
     (length ikev2_trans_type_encr_name_private_use2) None None"

definition ikev2_trans_type_encr_names_private_use1 :: enum_names where
  \<comment> \<open>OAKLEY_SERPENT_CBC .. OAKLEY_TWOFISH_CBC\<close>
  "ikev2_trans_type_encr_names_private_use1 = EnumNames 65004 65005 ikev2_trans_type_encr_name_private_use1
     (length ikev2_trans_type_encr_name_private_use1) None (Some ikev2_trans_type_encr_names_private_use2)"

definition ikev2_trans_type_encr_names :: enum_names where
  \<comment> \<open>IKEv2_ENCR_DES_IV64 .. IKEv2_ENCR_CHACHA20_POLY1305\<close>
  "ikev2_trans_type_encr_names = EnumNames 1 28 ikev2_trans_type_encr_name
     (length ikev2_trans_type_encr_name) None (Some ikev2_trans_type_encr_names_private_use1)"

definition ikev2_trans_type_prf_name :: name_array where
  "ikev2_trans_type_prf_name = [
    Some ''PRF_HMAC_MD5'', Some ''PRF_HMAC_SHA1'', Some ''PRF_HMAC_TIGER'',
    Some ''PRF_AES128_XCBC'', Some ''PRF_HMAC_SHA2_256'', Some ''PRF_HMAC_SHA2_384'',
    Some ''PRF_HMAC_SHA2_512'', Some ''PRF_AES128_CMAC'']"

definition ikev2_trans_type_prf_names :: enum_names where
  \<comment> \<open>IKEv2_PRF_HMAC_MD5 .. IKEv2_PRF_AES128_CMAC\<close>
  "ikev2_trans_type_prf_names = EnumNames 1 8 ikev2_trans_type_prf_name
     (length ikev2_trans_type_prf_name) (Some ''PRF_'') None"

definition ikev2_trans_type_integ_name :: name_array where
  "ikev2_trans_type_integ_name = [
    Some ''AUTH_NONE'', Some ''AUTH_HMAC_MD5_96'', Some ''AUTH_HMAC_SHA1_96'',
    Some ''AUTH_DES_MAC(UNUSED)'', Some ''AUTH_KPDK_MD5(UNUSED)'', Some ''AUTH_AES_XCBC_96'',
    Some ''AUTH_HMAC_MD5_128'', Some ''AUTH_HMAC_SHA1_160'', Some ''AUTH_AES_CMAC_96'',
    Some ''AUTH_AES_128_GMAC'', Some ''AUTH_AES_192_GMAC'', Some ''AUTH_AES_256_GMAC'',
    Some ''AUTH_HMAC_SHA2_256_128'', Some ''AUTH_HMAC_SHA2_384_192'',
    Some ''AUTH_HMAC_SHA2_512_256'']"

definition ikev2_trans_type_integ_names :: enum_names where
  \<comment> \<open>IKEv2_AUTH_NONE .. IKEv2_AUTH_HMAC_SHA2_512_256\<close>
  "ikev2_trans_type_integ_names = EnumNames 0 14 ikev2_trans_type_integ_name
     (length ikev2_trans_type_integ_name) (Some ''AUTH_'') None"

definition ikev2_trans_type_esn_name :: name_array where
  "ikev2_trans_type_esn_name = [
    Some ''ESN_DISABLED'', Some ''ESN_ENABLED'']"

definition ikev2_trans_type_esn_names :: enum_names where
  \<comment> \<open>IKEv2_ESN_DISABLED .. IKEv2_ESN_ENABLED\<close>
  "ikev2_trans_type_esn_names = EnumNames 0 1 ikev2_trans_type_esn_name
     (length ikev2_trans_type_esn_name) (Some ''ESN_'') None"

definition ikev2_trans_type_name :: name_array where
  "ikev2_trans_type_name = [
    Some ''TRANS_TYPE_ENCR'', Some ''TRANS_TYPE_PRF'', Some ''TRANS_TYPE_INTEG'',
    Some ''TRANS_TYPE_DH'', Some ''TRANS_TYPE_ESN'']"

definition ikev2_trans_type_names :: enum_names where
  \<comment> \<open>IKEv2_TRANS_TYPE_ENCR .. IKEv2_TRANS_TYPE_ESN\<close>
  "ikev2_trans_type_names = EnumNames 1 5 ikev2_trans_type_name
     (length ikev2_trans_type_name) (Some ''TRANS_TYPE_'') None"

definition ikev2_trans_attr_name :: name_array where
  "ikev2_trans_attr_name = [
    Some ''IKEv2_KEY_LENGTH'']"

definition ikev2_trans_attr_descs :: enum_names where
  \<comment> \<open>IKEv2_KEY_LENGTH + ISAKMP_ATTR_AF_TV .. IKEv2_KEY_LENGTH + ISAKMP_ATTR_AF_TV\<close>
  "ikev2_trans_attr_descs = EnumNames 32782 32782 ikev2_trans_attr_name
     (length ikev2_trans_attr_name) None None"

definition ppk_name :: name_array where
  "ppk_name = [
    Some ''PPK_PSK'', Some ''PPK_RSA'', Some ''PPK_XAUTH'', Some ''PPK_NULL'']"

definition ppk_names :: enum_names where
  \<comment> \<open>PPK_PSK .. PPK_NULL\<close>
  "ppk_names = EnumNames 1 4 ppk_name
     (length ppk_name) None None"

definition ikev2_last_transform_names :: name_array where
  "ikev2_last_transform_names = [
    Some ''v2_TRANSFORM_LAST'', None, None, Some ''v2_TRANSFORM_NON_LAST'']"

definition ikev2_last_transform_desc :: enum_names where
  \<comment> \<open>v2_TRANSFORM_LAST .. v2_TRANSFORM_NON_LAST\<close>
  "ikev2_last_transform_desc = EnumNames 0 3 ikev2_last_transform_names
     (length ikev2_last_transform_names) None None"

definition isakmp_flag_names :: name_array where
  "isakmp_flag_names = [
    Some ''ISAKMP_FLAG_v1_ENCRYPTION'', Some ''ISAKMP_FLAG_v1_COMMIT'',
    Some ''ISAKMP_FLAG_v1_AUTHONLY'', Some ''ISAKMP_FLAG_v2_IKE_INIT'',
    Some ''ISAKMP_FLAG_v2_VERSION'', Some ''ISAKMP_FLAG_v2_MSG_RESPONSE'',
    Some ''ISAKMP_FLAG_MSG_RESERVED_BIT6'', Some ''ISAKMP_FLAG_MSG_RESERVED_BIT7'', None]"

definition sit_bit_names :: name_array where
  "sit_bit_names = [
    Some ''SIT_IDENTITY_ONLY'', Some ''SIT_SECRECY'', Some ''SIT_INTEGRITY'', None]"

definition critical_names :: name_array where
  "critical_names = [
    Some ''RESERVED bit 0'', Some ''RESERVED bit 1'', Some ''RESERVED bit 2'',
    Some ''RESERVED bit 3'', Some ''RESERVED bit 4'', Some ''RESERVED bit 5'',
    Some ''RESERVED bit 6'', Some ''PAYLOAD_CRITICAL'']"

definition ikev2_transid_val_descs :: "enum_names option list" where
  "ikev2_transid_val_descs =
     [Some ikev2_trans_type_encr_names, Some ikev2_trans_type_prf_names,
      Some ikev2_trans_type_integ_names, Some oakley_group_names,
      Some ikev2_trans_type_esn_names]"

definition v2_transform_ID_enums :: enum_enum_names where
  \<comment> \<open>IKEv2_TRANS_TYPE_ENCR .. IKEv2_TRANS_TYPE_ESN\<close>
  "v2_transform_ID_enums = \<lparr>een_first = 1, een_last = 5,
     een_enum_name = ikev2_transid_val_descs,
     een_checklen = length ikev2_transid_val_descs\<rparr>"

section \<open>The registry checked at start-up\<close>

definition en_checklist :: "enum_names list" where
  "en_checklist =
     [version_names, doi_names, connection_kind_names, ikev1_payload_names,
      ikev2_payload_names, payload_names_ikev1orv2, ikev2_last_proposal_desc,
      ikev1_exchange_names, exchange_names_ikev1orv2, ikev1_protocol_names,
      ikev2_protocol_names, ikev2_del_protocol_names, isakmp_transformid_names,
      ah_transformid_names, esp_transformid_names, ipcomp_transformid_names,
      ike_idtype_names, ikev2_idtype_names, ike_cert_type_names, ikev2_cert_type_names,
      certpolicy_type_names, oakley_attr_names, ipsec_attr_names, sa_lifetime_names,
      enc_mode_names, auth_alg_names, xauth_type_names, modecfg_attr_names,
      oakley_lifetime_names, oakley_prf_names, oakley_enc_names, oakley_hash_names,
      oakley_auth_names, ikev2_cp_attribute_type_names, ikev2_cp_type_names,
      ikev2_auth_names, oakley_group_names, oakley_group_type_names, ikev1_notify_names,
      ikev2_notify_names, ikev2_ts_type_names, attr_msg_type_names,
      ikev2_sec_proto_id_names, ikev2_trans_type_encr_names, ikev2_trans_type_prf_names,
      ikev2_trans_type_integ_names, ikev2_trans_type_esn_names, ikev2_trans_type_names,
      ikev2_trans_attr_descs, ppk_names]"

lemmas name_array_defs =
   version_name_2_def version_name_1_def doi_name_def connection_kind_name_def
   payload_name_ikev1_def payload_name_ikev1_private_use_def payload_name_ikev2_def
   payload_name_ikev2_main_def payload_name_ikev2_private_use_def ikev2_last_proposal_names_def
   exchange_name_ikev1_def exchange_name_doi_def exchange_name_private_use_def
   exchange_name_ikev2_def ikev1_protocol_name_def ikev2_protocol_name_def
   isakmp_transform_name_def ah_transform_name_def ah_transform_name_private_use_def
   esp_transform_name_def esp_transform_name_private_use_def ipcomp_transform_name_def
   ike_idtype_name_def ike_cert_type_name_def certpolicy_type_name_def oakley_var_attr_name_def
   oakley_attr_bit_names_def ipsec_var_attr_name_def ipsec_attr_name_def sa_lifetime_name_def
   enc_draft_mode_name_def enc_rfc_mode_name_def auth_alg_name_def auth_alg_name_stolen_use_def
   xauth_type_name_def modecfg_attr_name_draft_def xauth_attr_name_def
   modecfg_microsoft_attr_name_def modecfg_cisco_attr_name_def oakley_lifetime_name_def
   oakley_enc_name_def oakley_enc_name_private_use_def oakley_enc_name_private_use_ssh_def
   oakley_hash_name_def oakley_auth_name_def oakley_auth_name_private_use_def
   oakley_auth_name_private_use2_def ikev2_cp_attribute_type_name_def ikev2_cp_type_name_def
   ikev2_auth_name_def oakley_group_name_def oakley_group_type_name_def ikev1_notify_name_def
   ikev1_notify_status_name_def ikev1_ipsec_notify_name_def ikev1_notify_cisco_chatter_name_def
   ikev1_notify_ios_alives_name_def ikev1_notify_dpd_name_def ikev1_notify_juniper_name_def
   ikev1_notify_cisco_more_name_def ikev2_notify_name_def ikev2_notify_name_16384_def
   ikev2_ts_type_name_def attr_msg_type_name_def ikev2_sec_proto_id_name_def
   ikev2_trans_type_encr_name_def ikev2_trans_type_encr_name_private_use1_def
   ikev2_trans_type_encr_name_private_use2_def ikev2_trans_type_prf_name_def
   ikev2_trans_type_integ_name_def ikev2_trans_type_esn_name_def ikev2_trans_type_name_def
   ikev2_trans_attr_name_def ppk_name_def ikev2_last_transform_names_def isakmp_flag_names_def
   sit_bit_names_def critical_names_def

lemmas enum_table_defs =
   version_names_1_def version_names_def doi_names_def connection_kind_names_def
   payload_names_ikev1_private_use_def ikev1_payload_names_def
   payload_names_ikev2_private_use_def payload_names_ikev2_main_def ikev2_payload_names_def
   payload_names_ikev2copy_main_def payload_names_ikev1orv2_def ikev2_last_proposal_desc_def
   exchange_names_private_use_def exchange_names_doi_def ikev1_exchange_names_def
   ikev2_exchange_names_def exchange_names_doi_and_v2_def exchange_names_ikev1orv2_def
   ikev1_protocol_names_def ikev2_protocol_names_def ikev2_del_protocol_names_def
   isakmp_transformid_names_def ah_transformid_names_private_use_def ah_transformid_names_def
   esp_transformid_names_private_use_def esp_transformid_names_def ipcomp_transformid_names_def
   ike_idtype_names_def ikev2_idtype_names_3_def ikev2_idtype_names_2_def ikev2_idtype_names_def
   ike_cert_type_names_def ikev2_cert_type_names_2_def ikev2_cert_type_names_def
   certpolicy_type_names_def oakley_attr_desc_tv_def oakley_attr_names_def
   ipsec_attr_desc_tv_def ipsec_attr_names_def sa_lifetime_names_def enc_rfc_mode_names_def
   enc_mode_names_def auth_alg_names_stolen_use_def auth_alg_names_def xauth_type_names_def
   modecfg_cisco_attr_names_def modecfg_microsoft_attr_names_def xauth_attr_names_def
   modecfg_attr_names_def oakley_lifetime_names_def oakley_prf_names_def
   oakley_enc_names_private_use_ssh_def oakley_enc_names_private_use_def oakley_enc_names_def
   oakley_hash_names_def oakley_auth_names_private_use2_def oakley_auth_names_private_use_def
   oakley_auth_names_def ikev2_cp_attribute_type_names_def ikev2_cp_type_names_def
   ikev2_auth_names_def oakley_group_names_def oakley_group_type_names_def
   ikev1_notify_cisco_more_names_def ikev1_notify_juniper_names_def ikev1_notify_dpd_names_def
   ikev1_notify_ios_alives_names_def ikev1_notify_cisco_chatter_names_def
   ikev1_ipsec_notify_names_def ikev1_notify_status_names_def ikev1_notify_names_def
   ikev2_notify_names_16384_def ikev2_notify_names_def ikev2_ts_type_names_def
   attr_msg_type_names_def ikev2_sec_proto_id_names_def
   ikev2_trans_type_encr_names_private_use2_def ikev2_trans_type_encr_names_private_use1_def
   ikev2_trans_type_encr_names_def ikev2_trans_type_prf_names_def
   ikev2_trans_type_integ_names_def ikev2_trans_type_esn_names_def ikev2_trans_type_names_def
   ikev2_trans_attr_descs_def ppk_names_def ikev2_last_transform_desc_def

lemma name_array_lengths [simp]:
   "length version_name_2 = 1" "length version_name_1 = 1" "length doi_name = 2"
   "length connection_kind_name = 5" "length payload_name_ikev1 = 24"
   "length payload_name_ikev1_private_use = 3" "length payload_name_ikev2 = 1"
   "length payload_name_ikev2_main = 22" "length payload_name_ikev2_private_use = 1"
   "length ikev2_last_proposal_names = 3" "length exchange_name_ikev1 = 7"
   "length exchange_name_doi = 4" "length exchange_name_private_use = 2"
   "length exchange_name_ikev2 = 5" "length ikev1_protocol_name = 5"
   "length ikev2_protocol_name = 4" "length isakmp_transform_name = 1"
   "length ah_transform_name = 12" "length ah_transform_name_private_use = 3"
   "length esp_transform_name = 27" "length esp_transform_name_private_use = 7"
   "length ipcomp_transform_name = 4" "length ike_idtype_name = 14"
   "length ike_cert_type_name = 15" "length certpolicy_type_name = 3"
   "length oakley_var_attr_name = 11" "length oakley_attr_bit_names = 17"
   "length ipsec_var_attr_name = 9" "length ipsec_attr_name = 9" "length sa_lifetime_name = 2"
   "length enc_draft_mode_name = 2" "length enc_rfc_mode_name = 4" "length auth_alg_name = 14"
   "length auth_alg_name_stolen_use = 2" "length xauth_type_name = 4"
   "length modecfg_attr_name_draft = 19" "length xauth_attr_name = 10"
   "length modecfg_microsoft_attr_name = 2" "length modecfg_cisco_attr_name = 12"
   "length oakley_lifetime_name = 2" "length oakley_enc_name = 27"
   "length oakley_enc_name_private_use = 5" "length oakley_enc_name_private_use_ssh = 1"
   "length oakley_hash_name = 6" "length oakley_auth_name = 11"
   "length oakley_auth_name_private_use = 10" "length oakley_auth_name_private_use2 = 4"
   "length ikev2_cp_attribute_type_name = 25" "length ikev2_cp_type_name = 4"
   "length ikev2_auth_name = 14" "length oakley_group_name = 32"
   "length oakley_group_type_name = 3" "length ikev1_notify_name = 30"
   "length ikev1_notify_status_name = 1" "length ikev1_ipsec_notify_name = 3"
   "length ikev1_notify_cisco_chatter_name = 3" "length ikev1_notify_ios_alives_name = 2"
   "length ikev1_notify_dpd_name = 2" "length ikev1_notify_juniper_name = 1"
   "length ikev1_notify_cisco_more_name = 3" "length ikev2_notify_name = 47"
   "length ikev2_notify_name_16384 = 48" "length ikev2_ts_type_name = 3"
   "length attr_msg_type_name = 4" "length ikev2_sec_proto_id_name = 5"
   "length ikev2_trans_type_encr_name = 28" "length ikev2_trans_type_encr_name_private_use1 = 2"
   "length ikev2_trans_type_encr_name_private_use2 = 1" "length ikev2_trans_type_prf_name = 8"
   "length ikev2_trans_type_integ_name = 15" "length ikev2_trans_type_esn_name = 2"
   "length ikev2_trans_type_name = 5" "length ikev2_trans_attr_name = 1" "length ppk_name = 4"
   "length ikev2_last_transform_names = 4" "length isakmp_flag_names = 9"
   "length sit_bit_names = 4" "length critical_names = 8"
  by (simp_all add: name_array_defs)

section \<open>The start-up check\<close>

text \<open>
  \<^verbatim>\<open>check_enum_names\<close> looks a value up that no table names (\<^verbatim>\<open>-42UL\<close>), so that
  \<^verbatim>\<open>enum_name\<close> walks every range of every chain and runs its assertions.
\<close>

fun check_enum_names :: "enum_names list \<Rightarrow> fault + unit" where
  "check_enum_names [] = Inr ()"
| "check_enum_names (ed # eds) =
     (case enum_name ed (- 42) of Inl x \<Rightarrow> Inl x | Inr _ \<Rightarrow> check_enum_names eds)"

definition init_constants_tables :: "fault + unit" where
  "init_constants_tables =
     (case check_enum_names en_checklist of
        Inl x \<Rightarrow> Inl x
      | Inr _ \<Rightarrow> (case enum_enum_table v2_transform_ID_enums (- 42) of
                    Inl x \<Rightarrow> Inl x | Inr _ \<Rightarrow> Inr ()))"

lemma en_checklist_wf: "list_all wf_enum en_checklist"
  by (simp add: en_checklist_def enum_table_defs)

lemma en_checklist_disjoint: "list_all (\<lambda>t. disjoint_ranges (enum_ranges t)) en_checklist"
  by (simp add: en_checklist_def enum_table_defs)

lemma en_checklist_int:
  "list_all (\<lambda>t. \<forall>(lo, hi) \<in> set (enum_ranges t). unat hi \<le> 2 ^ 31 - 1) en_checklist"
  by (simp add: en_checklist_def enum_table_defs)

lemma last_transform_wf [simp]: "wf_enum ikev2_last_transform_desc"
  by (simp add: enum_table_defs)

lemma check_enum_names_wf: "list_all wf_enum eds \<Longrightarrow> check_enum_names eds = Inr ()"
proof (induction eds)
  case (Cons ed eds)
  then show ?case using enum_name_total [of ed "- 42"] by auto
qed simp

lemma checklist_member_wf [simp]: "t \<in> set en_checklist \<Longrightarrow> wf_enum t"
  using en_checklist_wf by (simp add: list_all_iff)

text \<open>
  The start-up consistency check of the name tables passes. Every range of every table
  in \<^verbatim>\<open>en_checklist\<close> satisfies the assertion of \<^verbatim>\<open>enum_name\<close>, the transform-ID table
  satisfies that of \<^verbatim>\<open>enum_enum_table\<close>, and no array is read out of bounds.
\<close>

theorem init_constants_tables_pass: "init_constants_tables = Inr ()"
  by (simp add: init_constants_tables_def check_enum_names_wf en_checklist_wf
      enum_enum_table_def v2_transform_ID_enums_def ikev2_transid_val_descs_def)

text \<open>
  C37: for every registered table, searching a name and looking a value up are inverse up to
  letter case. A value that \<^verbatim>\<open>enum_search\<close> returns is named, by a name equal to the
  searched one; and every name that \<^verbatim>\<open>enum_name\<close> returns is found by \<^verbatim>\<open>enum_search\<close>.
\<close>

theorem enum_search_inverts_enum_name:
  assumes "t \<in> set en_checklist"
  shows "(\<forall>v. enum_search t str = Inr (Some v) \<longrightarrow>
           (\<exists>name. enum_name t v = Inr (Some name) \<and> strcaseeq name str)) \<and>
         (\<forall>w. enum_name t w = Inr (Some str) \<longrightarrow> (\<exists>v. enum_search t str = Inr (Some v)))"
proof -
  have t: "wf_enum t" "disjoint_ranges (enum_ranges t)"
      "\<forall>(lo, hi) \<in> set (enum_ranges t). unat hi \<le> 2 ^ 31 - 1"
    using assms en_checklist_wf en_checklist_disjoint en_checklist_int
    unfolding list_all_iff by blast+
  show ?thesis
    unfolding enum_search_def
    using search_chain_Some [OF _ t(1,2)] search_chain_complete [OF t(1,3)]
    by (metis strcaseeq_def)
qed

theorem enum_search_inverts_enum_name_witness:
  "ikev2_protocol_names \<in> set en_checklist \<and>
   enum_search ikev2_protocol_names ''proto_V2_esp'' = Inr (Some 3) \<and>
   (\<exists>name. enum_name ikev2_protocol_names 3 = Inr (Some name) \<and> strcaseeq name ''proto_V2_esp'') \<and>
   enum_name ikev2_protocol_names 1 = Inr (Some ''PROTO_v2_IKE'') \<and>
   (\<exists>v. enum_search ikev2_protocol_names ''PROTO_v2_IKE'' = Inr (Some v))"
proof -
  have m: "ikev2_protocol_names \<in> set en_checklist" by (simp add: en_checklist_def)
  have s: "enum_search ikev2_protocol_names ''proto_V2_esp'' = Inr (Some 3)"
    by (simp add: enum_search_def ikev2_protocol_names_def ikev2_protocol_name_def
        strcaseeq_def tolower_def char_of_def bit_simps)
  have l: "enum_name ikev2_protocol_names 1 = Inr (Some ''PROTO_v2_IKE'')"
    by (simp add: ikev2_protocol_names_def ikev2_protocol_name_def nth_name_def)
  show ?thesis
    using m s l enum_search_inverts_enum_name [OF m, of "''proto_V2_esp''"]
      enum_search_inverts_enum_name [OF m, of "''PROTO_v2_IKE''"] by blast
qed

lemma testset_critical_names_eq:
  "testset critical_names val = (if val < 256 then Inr True else Inl Out_of_bounds)"
proof -
  have "length critical_names = 8" "\<forall>n \<in> set critical_names. n \<noteq> None \<and> n \<noteq> Some []"
    by (simp_all add: critical_names_def)
  then show ?thesis
    using testset_from_unterminated [of critical_names val 0] bits_below_8 [of val]
    by (simp add: testset_def)
qed

text \<open>
  \<^verbatim>\<open>testset\<close> on \<^verbatim>\<open>critical_names\<close>. The header requires name tables to end in NULL, and
  this one does not: any set with a member beyond bit 7 makes \<^verbatim>\<open>testset\<close> read past the
  array, and every value that fits the 8-bit field it describes is accepted without
  leaving the array.
\<close>

theorem testset_critical_names:
  "testset critical_names val = (if val < 256 then Inr True else Inl Out_of_bounds)"
  by (rule testset_critical_names_eq)

end
