(* ===== verification/PacketDesc.thy ===== *)
theory PacketDesc
  imports EnumTables
begin

text \<open>
  The descriptors of \<^verbatim>\<open>programs/pluto/packet.c\<close>: for every wire structure the array of its
  fields and its size, and the tables that give the descriptor of a payload type (default
  build, no \<^verbatim>\<open>HAVE_LABELED_IPSEC\<close>). The sizes are the \<^verbatim>\<open>sizeof\<close> of the structs of
  \<^verbatim>\<open>packet.h\<close> and \<^verbatim>\<open>isakmp_hdr.h\<close>.
\<close>

section \<open>Fields and structures\<close>

datatype field_type = ft_mbz | ft_nat | ft_len | ft_lv | ft_enum | ft_loose_enum
  | ft_loose_enum_enum | ft_af_enum | ft_af_loose_enum | ft_set | ft_raw | ft_zig | ft_end

text \<open>
  The \<^verbatim>\<open>desc\<close> pointer of a field is a cheap union: a name table, a table of name tables, or
  an array of bit names, according to the type of the field.
\<close>

datatype field_names = No_desc | Enum_desc enum_names | Enum_enum_desc enum_enum_names
  | Set_desc name_array

datatype field_desc = Field
  (field_type: field_type) (fd_size: nat) (fd_name: "string option") (fd_desc: field_names)

record struct_desc =
  sd_name :: string
  sd_fields :: "field_desc list"
  sd_size :: nat

section \<open>Descriptors\<close>

definition isa_fields :: "field_desc list" where
  "isa_fields = [
    Field ft_raw 8 (Some ''initiator cookie'') No_desc,
    Field ft_raw 8 (Some ''responder cookie'') No_desc,
    Field ft_enum 1 (Some ''next payload type'') (Enum_desc payload_names_ikev1orv2),
    Field ft_loose_enum 1 (Some ''ISAKMP version'') (Enum_desc version_names),
    Field ft_enum 1 (Some ''exchange type'') (Enum_desc exchange_names_ikev1orv2),
    Field ft_set 1 (Some ''flags'') (Set_desc isakmp_flag_names),
    Field ft_raw 4 (Some ''message ID'') No_desc,
    Field ft_len 4 (Some ''length'') No_desc,
    Field ft_end 0 None No_desc]"

definition isakmp_hdr_desc :: struct_desc where
  "isakmp_hdr_desc = \<lparr>sd_name = ''ISAKMP Message'', sd_fields = isa_fields, sd_size = 28\<rparr>"

definition isag_fields :: "field_desc list" where
  "isag_fields = [
    Field ft_enum 1 (Some ''next payload type'') (Enum_desc payload_names_ikev1orv2),
    Field ft_zig 1 None No_desc,
    Field ft_len 2 (Some ''length'') No_desc,
    Field ft_end 0 None No_desc]"

definition isaat_fields_oakley :: "field_desc list" where
  "isaat_fields_oakley = [
    Field ft_af_enum 2 (Some ''af+type'') (Enum_desc oakley_attr_names),
    Field ft_lv 2 (Some ''length/value'') No_desc,
    Field ft_end 0 None No_desc]"

definition isakmp_oakley_attribute_desc :: struct_desc where
  "isakmp_oakley_attribute_desc = \<lparr>sd_name = ''ISAKMP Oakley attribute'', sd_fields = isaat_fields_oakley, sd_size = 4\<rparr>"

definition isaat_fields_ipsec :: "field_desc list" where
  "isaat_fields_ipsec = [
    Field ft_af_enum 2 (Some ''af+type'') (Enum_desc ipsec_attr_names),
    Field ft_lv 2 (Some ''length/value'') No_desc,
    Field ft_end 0 None No_desc]"

definition isakmp_ipsec_attribute_desc :: struct_desc where
  "isakmp_ipsec_attribute_desc = \<lparr>sd_name = ''ISAKMP IPsec DOI attribute'', sd_fields = isaat_fields_ipsec, sd_size = 4\<rparr>"

definition isaat_fields_xauth :: "field_desc list" where
  "isaat_fields_xauth = [
    Field ft_af_loose_enum 2 (Some ''ModeCfg attr type'') (Enum_desc modecfg_attr_names),
    Field ft_lv 2 (Some ''length/value'') No_desc,
    Field ft_end 0 None No_desc]"

definition isakmp_xauth_attribute_desc :: struct_desc where
  "isakmp_xauth_attribute_desc = \<lparr>sd_name = ''ISAKMP ModeCfg attribute'', sd_fields = isaat_fields_xauth, sd_size = 4\<rparr>"

definition isasa_fields :: "field_desc list" where
  "isasa_fields = [
    Field ft_enum 1 (Some ''next payload type'') (Enum_desc payload_names_ikev1orv2),
    Field ft_zig 1 None No_desc,
    Field ft_len 2 (Some ''length'') No_desc,
    Field ft_enum 4 (Some ''DOI'') (Enum_desc doi_names),
    Field ft_end 0 None No_desc]"

definition isakmp_sa_desc :: struct_desc where
  "isakmp_sa_desc = \<lparr>sd_name = ''ISAKMP Security Association Payload'', sd_fields = isasa_fields, sd_size = 8\<rparr>"

definition ipsec_sit_field :: "field_desc list" where
  "ipsec_sit_field = [
    Field ft_set 4 (Some ''IPsec DOI SIT'') (Set_desc sit_bit_names),
    Field ft_end 0 None No_desc]"

definition ipsec_sit_desc :: struct_desc where
  "ipsec_sit_desc = \<lparr>sd_name = ''IPsec DOI SIT'', sd_fields = ipsec_sit_field, sd_size = 4\<rparr>"

definition isap_fields :: "field_desc list" where
  "isap_fields = [
    Field ft_enum 1 (Some ''next payload type'') (Enum_desc ikev1_payload_names),
    Field ft_zig 1 None No_desc,
    Field ft_len 2 (Some ''length'') No_desc,
    Field ft_nat 1 (Some ''proposal number'') No_desc,
    Field ft_enum 1 (Some ''protocol ID'') (Enum_desc ikev1_protocol_names),
    Field ft_nat 1 (Some ''SPI size'') No_desc,
    Field ft_nat 1 (Some ''number of transforms'') No_desc,
    Field ft_end 0 None No_desc]"

definition isakmp_proposal_desc :: struct_desc where
  "isakmp_proposal_desc = \<lparr>sd_name = ''ISAKMP Proposal Payload'', sd_fields = isap_fields, sd_size = 8\<rparr>"

definition isat_fields_isakmp :: "field_desc list" where
  "isat_fields_isakmp = [
    Field ft_enum 1 (Some ''next payload type'') (Enum_desc ikev1_payload_names),
    Field ft_zig 1 None No_desc,
    Field ft_len 2 (Some ''length'') No_desc,
    Field ft_nat 1 (Some ''ISAKMP transform number'') No_desc,
    Field ft_enum 1 (Some ''ISAKMP transform ID'') (Enum_desc isakmp_transformid_names),
    Field ft_zig 2 None No_desc,
    Field ft_end 0 None No_desc]"

definition isakmp_isakmp_transform_desc :: struct_desc where
  "isakmp_isakmp_transform_desc = \<lparr>sd_name = ''ISAKMP Transform Payload (ISAKMP)'', sd_fields = isat_fields_isakmp, sd_size = 8\<rparr>"

definition isat_fields_ah :: "field_desc list" where
  "isat_fields_ah = [
    Field ft_enum 1 (Some ''next payload type'') (Enum_desc ikev1_payload_names),
    Field ft_zig 1 None No_desc,
    Field ft_len 2 (Some ''length'') No_desc,
    Field ft_nat 1 (Some ''AH transform number'') No_desc,
    Field ft_enum 1 (Some ''AH transform ID'') (Enum_desc ah_transformid_names),
    Field ft_zig 2 None No_desc,
    Field ft_end 0 None No_desc]"

definition isakmp_ah_transform_desc :: struct_desc where
  "isakmp_ah_transform_desc = \<lparr>sd_name = ''ISAKMP Transform Payload (AH)'', sd_fields = isat_fields_ah, sd_size = 8\<rparr>"

definition isat_fields_esp :: "field_desc list" where
  "isat_fields_esp = [
    Field ft_enum 1 (Some ''next payload type'') (Enum_desc ikev1_payload_names),
    Field ft_zig 1 None No_desc,
    Field ft_len 2 (Some ''length'') No_desc,
    Field ft_nat 1 (Some ''ESP transform number'') No_desc,
    Field ft_enum 1 (Some ''ESP transform ID'') (Enum_desc esp_transformid_names),
    Field ft_zig 2 None No_desc,
    Field ft_end 0 None No_desc]"

definition isakmp_esp_transform_desc :: struct_desc where
  "isakmp_esp_transform_desc = \<lparr>sd_name = ''ISAKMP Transform Payload (ESP)'', sd_fields = isat_fields_esp, sd_size = 8\<rparr>"

definition isat_fields_ipcomp :: "field_desc list" where
  "isat_fields_ipcomp = [
    Field ft_enum 1 (Some ''next payload type'') (Enum_desc ikev1_payload_names),
    Field ft_zig 1 None No_desc,
    Field ft_len 2 (Some ''length'') No_desc,
    Field ft_nat 1 (Some ''IPCOMP transform number'') No_desc,
    Field ft_enum 1 (Some ''IPCOMP transform ID'') (Enum_desc ipcomp_transformid_names),
    Field ft_zig 2 None No_desc,
    Field ft_end 0 None No_desc]"

definition isakmp_ipcomp_transform_desc :: struct_desc where
  "isakmp_ipcomp_transform_desc = \<lparr>sd_name = ''ISAKMP Transform Payload (COMP)'', sd_fields = isat_fields_ipcomp, sd_size = 8\<rparr>"

definition isakmp_keyex_desc :: struct_desc where
  "isakmp_keyex_desc = \<lparr>sd_name = ''ISAKMP Key Exchange Payload'', sd_fields = isag_fields, sd_size = 4\<rparr>"

definition isaid_fields :: "field_desc list" where
  "isaid_fields = [
    Field ft_enum 1 (Some ''next payload type'') (Enum_desc payload_names_ikev1orv2),
    Field ft_zig 1 None No_desc,
    Field ft_len 2 (Some ''length'') No_desc,
    Field ft_enum 1 (Some ''ID type'') (Enum_desc ike_idtype_names),
    Field ft_nat 1 (Some ''DOI specific A'') No_desc,
    Field ft_nat 2 (Some ''DOI specific B'') No_desc,
    Field ft_end 0 None No_desc]"

definition isakmp_identification_desc :: struct_desc where
  "isakmp_identification_desc = \<lparr>sd_name = ''ISAKMP Identification Payload'', sd_fields = isaid_fields, sd_size = 8\<rparr>"

definition isaiid_fields :: "field_desc list" where
  "isaiid_fields = [
    Field ft_enum 1 (Some ''next payload type'') (Enum_desc payload_names_ikev1orv2),
    Field ft_zig 1 None No_desc,
    Field ft_len 2 (Some ''length'') No_desc,
    Field ft_enum 1 (Some ''ID type'') (Enum_desc ike_idtype_names),
    Field ft_nat 1 (Some ''Protocol ID'') No_desc,
    Field ft_nat 2 (Some ''port'') No_desc,
    Field ft_end 0 None No_desc]"

definition isakmp_ipsec_identification_desc :: struct_desc where
  "isakmp_ipsec_identification_desc = \<lparr>sd_name = ''ISAKMP Identification Payload (IPsec DOI)'', sd_fields = isaiid_fields, sd_size = 8\<rparr>"

definition isacert_fields :: "field_desc list" where
  "isacert_fields = [
    Field ft_enum 1 (Some ''next payload type'') (Enum_desc payload_names_ikev1orv2),
    Field ft_zig 1 None No_desc,
    Field ft_len 2 (Some ''length'') No_desc,
    Field ft_enum 1 (Some ''cert encoding'') (Enum_desc ike_cert_type_names),
    Field ft_end 0 None No_desc]"

definition isakmp_ipsec_certificate_desc :: struct_desc where
  "isakmp_ipsec_certificate_desc = \<lparr>sd_name = ''ISAKMP Certificate Payload'', sd_fields = isacert_fields, sd_size = 5\<rparr>"

definition isacr_fields :: "field_desc list" where
  "isacr_fields = [
    Field ft_enum 1 (Some ''next payload type'') (Enum_desc payload_names_ikev1orv2),
    Field ft_zig 1 None No_desc,
    Field ft_len 2 (Some ''length'') No_desc,
    Field ft_enum 1 (Some ''cert type'') (Enum_desc ike_cert_type_names),
    Field ft_end 0 None No_desc]"

definition isakmp_ipsec_cert_req_desc :: struct_desc where
  "isakmp_ipsec_cert_req_desc = \<lparr>sd_name = ''ISAKMP Certificate RequestPayload'', sd_fields = isacr_fields, sd_size = 5\<rparr>"

definition isakmp_hash_desc :: struct_desc where
  "isakmp_hash_desc = \<lparr>sd_name = ''ISAKMP Hash Payload'', sd_fields = isag_fields, sd_size = 4\<rparr>"

definition isakmp_signature_desc :: struct_desc where
  "isakmp_signature_desc = \<lparr>sd_name = ''ISAKMP Signature Payload'', sd_fields = isag_fields, sd_size = 4\<rparr>"

definition isakmp_nonce_desc :: struct_desc where
  "isakmp_nonce_desc = \<lparr>sd_name = ''ISAKMP Nonce Payload'', sd_fields = isag_fields, sd_size = 4\<rparr>"

definition isan_fields :: "field_desc list" where
  "isan_fields = [
    Field ft_enum 1 (Some ''next payload type'') (Enum_desc ikev1_payload_names),
    Field ft_zig 1 None No_desc,
    Field ft_len 2 (Some ''length'') No_desc,
    Field ft_enum 4 (Some ''DOI'') (Enum_desc doi_names),
    Field ft_nat 1 (Some ''protocol ID'') No_desc,
    Field ft_nat 1 (Some ''SPI size'') No_desc,
    Field ft_enum 2 (Some ''Notify Message Type'') (Enum_desc ikev1_notify_names),
    Field ft_end 0 None No_desc]"

definition isakmp_notification_desc :: struct_desc where
  "isakmp_notification_desc = \<lparr>sd_name = ''ISAKMP Notification Payload'', sd_fields = isan_fields, sd_size = 12\<rparr>"

definition isad_fields :: "field_desc list" where
  "isad_fields = [
    Field ft_enum 1 (Some ''next payload type'') (Enum_desc ikev1_payload_names),
    Field ft_zig 1 None No_desc,
    Field ft_len 2 (Some ''length'') No_desc,
    Field ft_enum 4 (Some ''DOI'') (Enum_desc doi_names),
    Field ft_nat 1 (Some ''protocol ID'') No_desc,
    Field ft_nat 1 (Some ''SPI size'') No_desc,
    Field ft_nat 2 (Some ''number of SPIs'') No_desc,
    Field ft_end 0 None No_desc]"

definition isakmp_delete_desc :: struct_desc where
  "isakmp_delete_desc = \<lparr>sd_name = ''ISAKMP Delete Payload'', sd_fields = isad_fields, sd_size = 12\<rparr>"

definition isakmp_vendor_id_desc :: struct_desc where
  "isakmp_vendor_id_desc = \<lparr>sd_name = ''ISAKMP Vendor ID Payload'', sd_fields = isag_fields, sd_size = 4\<rparr>"

definition isaattr_fields :: "field_desc list" where
  "isaattr_fields = [
    Field ft_enum 1 (Some ''next payload type'') (Enum_desc ikev1_payload_names),
    Field ft_zig 1 None No_desc,
    Field ft_len 2 (Some ''length'') No_desc,
    Field ft_enum 1 (Some ''Attr Msg Type'') (Enum_desc attr_msg_type_names),
    Field ft_zig 1 None No_desc,
    Field ft_nat 2 (Some ''Identifier'') No_desc,
    Field ft_end 0 None No_desc]"

definition isakmp_attr_desc :: struct_desc where
  "isakmp_attr_desc = \<lparr>sd_name = ''ISAKMP Mode Attribute'', sd_fields = isaattr_fields, sd_size = 8\<rparr>"

definition isakmp_nat_d :: struct_desc where
  "isakmp_nat_d = \<lparr>sd_name = ''ISAKMP NAT-D Payload'', sd_fields = isag_fields, sd_size = 4\<rparr>"

definition isanat_oa_fields :: "field_desc list" where
  "isanat_oa_fields = [
    Field ft_enum 1 (Some ''next payload type'') (Enum_desc ikev1_payload_names),
    Field ft_zig 1 None No_desc,
    Field ft_len 2 (Some ''length'') No_desc,
    Field ft_enum 1 (Some ''ID type'') (Enum_desc ike_idtype_names),
    Field ft_zig 1 None No_desc,
    Field ft_zig 2 None No_desc,
    Field ft_end 0 None No_desc]"

definition isakmp_nat_oa :: struct_desc where
  "isakmp_nat_oa = \<lparr>sd_name = ''ISAKMP NAT-OA Payload'', sd_fields = isanat_oa_fields, sd_size = 8\<rparr>"

definition isakmp_ignore_desc :: struct_desc where
  "isakmp_ignore_desc = \<lparr>sd_name = ''ignored ISAKMP Generic Payload'', sd_fields = isag_fields, sd_size = 4\<rparr>"

definition isafrag_fields :: "field_desc list" where
  "isafrag_fields = [
    Field ft_zig 1 (Some ''next payload type'') No_desc,
    Field ft_zig 1 (Some ''reserved'') No_desc,
    Field ft_len 2 (Some ''length'') No_desc,
    Field ft_nat 2 (Some ''fragment id'') No_desc,
    Field ft_nat 1 (Some ''fragment number'') No_desc,
    Field ft_nat 1 (Some ''flags'') No_desc,
    Field ft_end 0 None No_desc]"

definition isakmp_ikefrag_desc :: struct_desc where
  "isakmp_ikefrag_desc = \<lparr>sd_name = ''ISAKMP IKE Fragment Payload'', sd_fields = isafrag_fields, sd_size = 8\<rparr>"

definition ikev2generic_fields :: "field_desc list" where
  "ikev2generic_fields = [
    Field ft_enum 1 (Some ''next payload type'') (Enum_desc ikev2_payload_names),
    Field ft_set 1 (Some ''flags'') (Set_desc critical_names),
    Field ft_len 2 (Some ''length'') No_desc,
    Field ft_end 0 None No_desc]"

definition ikev2_generic_desc :: struct_desc where
  "ikev2_generic_desc = \<lparr>sd_name = ''IKEv2 Generic Payload'', sd_fields = ikev2generic_fields, sd_size = 4\<rparr>"

definition ikev2_sa_desc :: struct_desc where
  "ikev2_sa_desc = \<lparr>sd_name = ''IKEv2 Security Association Payload'', sd_fields = ikev2generic_fields, sd_size = 4\<rparr>"

definition ikev2prop_fields :: "field_desc list" where
  "ikev2prop_fields = [
    Field ft_enum 1 (Some ''last proposal'') (Enum_desc ikev2_last_proposal_desc),
    Field ft_zig 1 None No_desc,
    Field ft_len 2 (Some ''length'') No_desc,
    Field ft_nat 1 (Some ''prop #'') No_desc,
    Field ft_enum 1 (Some ''proto ID'') (Enum_desc ikev2_sec_proto_id_names),
    Field ft_nat 1 (Some ''spi size'') No_desc,
    Field ft_nat 1 (Some ''# transforms'') No_desc,
    Field ft_end 0 None No_desc]"

definition ikev2_prop_desc :: struct_desc where
  "ikev2_prop_desc = \<lparr>sd_name = ''IKEv2 Proposal Substructure Payload'', sd_fields = ikev2prop_fields, sd_size = 8\<rparr>"

definition ikev2trans_fields :: "field_desc list" where
  "ikev2trans_fields = [
    Field ft_enum 1 (Some ''last transform'') (Enum_desc ikev2_last_transform_desc),
    Field ft_zig 1 None No_desc,
    Field ft_len 2 (Some ''length'') No_desc,
    Field ft_enum 1 (Some ''IKEv2 transform type'') (Enum_desc ikev2_trans_type_names),
    Field ft_zig 1 None No_desc,
    Field ft_loose_enum_enum 2 (Some ''IKEv2 transform ID'') (Enum_enum_desc v2_transform_ID_enums),
    Field ft_end 0 None No_desc]"

definition ikev2_trans_desc :: struct_desc where
  "ikev2_trans_desc = \<lparr>sd_name = ''IKEv2 Transform Substructure Payload'', sd_fields = ikev2trans_fields, sd_size = 8\<rparr>"

definition ikev2_trans_attr_fields :: "field_desc list" where
  "ikev2_trans_attr_fields = [
    Field ft_af_enum 2 (Some ''af+type'') (Enum_desc ikev2_trans_attr_descs),
    Field ft_lv 2 (Some ''length/value'') No_desc,
    Field ft_end 0 None No_desc]"

definition ikev2_trans_attr_desc :: struct_desc where
  "ikev2_trans_attr_desc = \<lparr>sd_name = ''IKEv2 Attribute Substructure Payload'', sd_fields = ikev2_trans_attr_fields, sd_size = 4\<rparr>"

definition ikev2ke_fields :: "field_desc list" where
  "ikev2ke_fields = [
    Field ft_enum 1 (Some ''IKEv2 next payload type'') (Enum_desc ikev2_payload_names),
    Field ft_set 1 (Some ''flags'') (Set_desc critical_names),
    Field ft_len 2 (Some ''length'') No_desc,
    Field ft_enum 2 (Some ''DH group'') (Enum_desc oakley_group_names),
    Field ft_zig 2 None No_desc,
    Field ft_end 0 None No_desc]"

definition ikev2_ke_desc :: struct_desc where
  "ikev2_ke_desc = \<lparr>sd_name = ''IKEv2 Key Exchange Payload'', sd_fields = ikev2ke_fields, sd_size = 8\<rparr>"

definition ikev2id_fields :: "field_desc list" where
  "ikev2id_fields = [
    Field ft_enum 1 (Some ''next payload type'') (Enum_desc ikev2_payload_names),
    Field ft_set 1 (Some ''flags'') (Set_desc critical_names),
    Field ft_len 2 (Some ''length'') No_desc,
    Field ft_enum 1 (Some ''ID type'') (Enum_desc ikev2_idtype_names),
    Field ft_zig 1 None No_desc,
    Field ft_zig 2 None No_desc,
    Field ft_end 0 None No_desc]"

definition ikev2_id_desc :: struct_desc where
  "ikev2_id_desc = \<lparr>sd_name = ''IKEv2 Identification Payload'', sd_fields = ikev2id_fields, sd_size = 8\<rparr>"

definition ikev2cp_fields :: "field_desc list" where
  "ikev2cp_fields = [
    Field ft_enum 1 (Some ''next payload type'') (Enum_desc ikev2_payload_names),
    Field ft_set 1 (Some ''flags'') (Set_desc critical_names),
    Field ft_len 2 (Some ''length'') No_desc,
    Field ft_enum 1 (Some ''ikev2_cfg_type'') (Enum_desc ikev2_cp_type_names),
    Field ft_zig 1 None No_desc,
    Field ft_zig 2 None No_desc,
    Field ft_end 0 None No_desc]"

definition ikev2_cp_desc :: struct_desc where
  "ikev2_cp_desc = \<lparr>sd_name = ''IKEv2 Configuration Payload'', sd_fields = ikev2cp_fields, sd_size = 8\<rparr>"

definition ikev2_cp_attrbute_fields :: "field_desc list" where
  "ikev2_cp_attrbute_fields = [
    Field ft_enum 2 (Some ''Attribute Type'') (Enum_desc ikev2_cp_attribute_type_names),
    Field ft_lv 2 (Some ''length/value'') No_desc,
    Field ft_end 0 None No_desc]"

definition ikev2_cp_attribute_desc :: struct_desc where
  "ikev2_cp_attribute_desc = \<lparr>sd_name = ''IKEv2 Configuration Payload Attribute'', sd_fields = ikev2_cp_attrbute_fields, sd_size = 4\<rparr>"

definition ikev2_cert_fields :: "field_desc list" where
  "ikev2_cert_fields = [
    Field ft_enum 1 (Some ''next payload type'') (Enum_desc ikev2_payload_names),
    Field ft_set 1 (Some ''flags'') (Set_desc critical_names),
    Field ft_len 2 (Some ''length'') No_desc,
    Field ft_enum 1 (Some ''ikev2 cert encoding'') (Enum_desc ikev2_cert_type_names),
    Field ft_end 0 None No_desc]"

definition ikev2_certificate_desc :: struct_desc where
  "ikev2_certificate_desc = \<lparr>sd_name = ''IKEv2 Certificate Payload'', sd_fields = ikev2_cert_fields, sd_size = 5\<rparr>"

definition ikev2_cert_req_fields :: "field_desc list" where
  "ikev2_cert_req_fields = [
    Field ft_enum 1 (Some ''next payload type'') (Enum_desc ikev2_payload_names),
    Field ft_set 1 (Some ''flags'') (Set_desc critical_names),
    Field ft_len 2 (Some ''length'') No_desc,
    Field ft_enum 1 (Some ''ikev2 cert encoding'') (Enum_desc ikev2_cert_type_names),
    Field ft_end 0 None No_desc]"

definition ikev2_certificate_req_desc :: struct_desc where
  "ikev2_certificate_req_desc = \<lparr>sd_name = ''IKEv2 Certificate Request Payload'', sd_fields = ikev2_cert_req_fields, sd_size = 5\<rparr>"

definition ikev2a_fields :: "field_desc list" where
  "ikev2a_fields = [
    Field ft_enum 1 (Some ''next payload type'') (Enum_desc ikev2_payload_names),
    Field ft_set 1 (Some ''flags'') (Set_desc critical_names),
    Field ft_len 2 (Some ''length'') No_desc,
    Field ft_enum 1 (Some ''auth method'') (Enum_desc ikev2_auth_names),
    Field ft_zig 1 None No_desc,
    Field ft_zig 2 None No_desc,
    Field ft_end 0 None No_desc]"

definition ikev2_a_desc :: struct_desc where
  "ikev2_a_desc = \<lparr>sd_name = ''IKEv2 Authentication Payload'', sd_fields = ikev2a_fields, sd_size = 8\<rparr>"

definition ikev2_nonce_desc :: struct_desc where
  "ikev2_nonce_desc = \<lparr>sd_name = ''IKEv2 Nonce Payload'', sd_fields = ikev2generic_fields, sd_size = 4\<rparr>"

definition ikev2_notify_fields :: "field_desc list" where
  "ikev2_notify_fields = [
    Field ft_enum 1 (Some ''next payload type'') (Enum_desc ikev2_payload_names),
    Field ft_set 1 (Some ''flags'') (Set_desc critical_names),
    Field ft_len 2 (Some ''length'') No_desc,
    Field ft_enum 1 (Some ''Protocol ID'') (Enum_desc ikev2_protocol_names),
    Field ft_nat 1 (Some ''SPI size'') No_desc,
    Field ft_loose_enum 2 (Some ''Notify Message Type'') (Enum_desc ikev2_notify_names),
    Field ft_end 0 None No_desc]"

definition ikev2_delete_fields :: "field_desc list" where
  "ikev2_delete_fields = [
    Field ft_enum 1 (Some ''next payload type'') (Enum_desc ikev2_payload_names),
    Field ft_set 1 (Some ''flags'') (Set_desc critical_names),
    Field ft_len 2 (Some ''length'') No_desc,
    Field ft_enum 1 (Some ''protocol ID'') (Enum_desc ikev2_del_protocol_names),
    Field ft_nat 1 (Some ''SPI size'') No_desc,
    Field ft_nat 2 (Some ''number of SPIs'') No_desc,
    Field ft_end 0 None No_desc]"

definition ikev2_delete_desc :: struct_desc where
  "ikev2_delete_desc = \<lparr>sd_name = ''IKEv2 Delete Payload'', sd_fields = ikev2_delete_fields, sd_size = 8\<rparr>"

definition ikev2_notify_desc :: struct_desc where
  "ikev2_notify_desc = \<lparr>sd_name = ''IKEv2 Notify Payload'', sd_fields = ikev2_notify_fields, sd_size = 8\<rparr>"

definition ikev2_vendor_id_desc :: struct_desc where
  "ikev2_vendor_id_desc = \<lparr>sd_name = ''IKEv2 Vendor ID Payload'', sd_fields = ikev2generic_fields, sd_size = 4\<rparr>"

definition ikev2ts_fields :: "field_desc list" where
  "ikev2ts_fields = [
    Field ft_enum 1 (Some ''next payload type'') (Enum_desc ikev2_payload_names),
    Field ft_set 1 (Some ''flags'') (Set_desc critical_names),
    Field ft_len 2 (Some ''length'') No_desc,
    Field ft_nat 1 (Some ''number of TS'') No_desc,
    Field ft_zig 1 None No_desc,
    Field ft_zig 2 None No_desc,
    Field ft_end 0 None No_desc]"

definition ikev2_ts_desc :: struct_desc where
  "ikev2_ts_desc = \<lparr>sd_name = ''IKEv2 Traffic Selector Payload'', sd_fields = ikev2ts_fields, sd_size = 8\<rparr>"

definition ikev2ts1_fields :: "field_desc list" where
  "ikev2ts1_fields = [
    Field ft_enum 1 (Some ''TS type'') (Enum_desc ikev2_ts_type_names),
    Field ft_nat 1 (Some ''IP Protocol ID'') No_desc,
    Field ft_len 2 (Some ''length'') No_desc,
    Field ft_nat 2 (Some ''start port'') No_desc,
    Field ft_nat 2 (Some ''end port'') No_desc,
    Field ft_end 0 None No_desc]"

definition ikev2_ts1_desc :: struct_desc where
  "ikev2_ts1_desc = \<lparr>sd_name = ''IKEv2 Traffic Selector'', sd_fields = ikev2ts1_fields, sd_size = 8\<rparr>"

definition ikev2_sk_desc :: struct_desc where
  "ikev2_sk_desc = \<lparr>sd_name = ''IKEv2 Encryption Payload'', sd_fields = ikev2generic_fields, sd_size = 4\<rparr>"

definition ikev2skf_fields :: "field_desc list" where
  "ikev2skf_fields = [
    Field ft_enum 1 (Some ''next payload type'') (Enum_desc ikev2_payload_names),
    Field ft_set 1 (Some ''flags'') (Set_desc critical_names),
    Field ft_len 2 (Some ''length'') No_desc,
    Field ft_nat 2 (Some ''fragment number'') No_desc,
    Field ft_nat 2 (Some ''total fragments'') No_desc,
    Field ft_end 0 None No_desc]"

definition ikev2_skf_desc :: struct_desc where
  "ikev2_skf_desc = \<lparr>sd_name = ''IKEv2 Encrypted Fragment'', sd_fields = ikev2skf_fields, sd_size = 8\<rparr>"

definition suggested_group_fields :: "field_desc list" where
  "suggested_group_fields = [
    Field ft_enum 2 (Some ''suggested DH Group'') (Enum_desc oakley_group_names),
    Field ft_end 0 None No_desc]"

definition suggested_group_desc :: struct_desc where
  "suggested_group_desc = \<lparr>sd_name = ''Suggested Group'', sd_fields = suggested_group_fields, sd_size = 2\<rparr>"

definition v1_payload_descs :: "struct_desc option list" where
  "v1_payload_descs = [
    None, Some isakmp_sa_desc, None, None, Some isakmp_keyex_desc, None,
    Some isakmp_ipsec_certificate_desc, Some isakmp_ipsec_cert_req_desc, Some isakmp_hash_desc,
    Some isakmp_signature_desc, Some isakmp_nonce_desc, Some isakmp_notification_desc,
    Some isakmp_delete_desc, Some isakmp_vendor_id_desc, Some isakmp_attr_desc, None, None,
    None, None, None, Some isakmp_nat_d, Some isakmp_nat_oa]"

definition v2_payload_descs :: "struct_desc option list" where
  "v2_payload_descs = [
    Some ikev2_sa_desc, Some ikev2_ke_desc, Some ikev2_id_desc, Some ikev2_id_desc,
    Some ikev2_certificate_desc, Some ikev2_certificate_req_desc, Some ikev2_a_desc,
    Some ikev2_nonce_desc, Some ikev2_notify_desc, Some ikev2_delete_desc,
    Some ikev2_vendor_id_desc, Some ikev2_ts_desc, Some ikev2_ts_desc, Some ikev2_sk_desc,
    Some ikev2_cp_desc, None, None, None, None, None, Some ikev2_skf_desc]"

lemmas field_array_defs =
   isa_fields_def isag_fields_def isaat_fields_oakley_def isaat_fields_ipsec_def
   isaat_fields_xauth_def isasa_fields_def ipsec_sit_field_def isap_fields_def
   isat_fields_isakmp_def isat_fields_ah_def isat_fields_esp_def isat_fields_ipcomp_def
   isaid_fields_def isaiid_fields_def isacert_fields_def isacr_fields_def isan_fields_def
   isad_fields_def isaattr_fields_def isanat_oa_fields_def isafrag_fields_def
   ikev2generic_fields_def ikev2prop_fields_def ikev2trans_fields_def
   ikev2_trans_attr_fields_def ikev2ke_fields_def ikev2id_fields_def ikev2cp_fields_def
   ikev2_cp_attrbute_fields_def ikev2_cert_fields_def ikev2_cert_req_fields_def
   ikev2a_fields_def ikev2_notify_fields_def ikev2_delete_fields_def ikev2ts_fields_def
   ikev2ts1_fields_def ikev2skf_fields_def suggested_group_fields_def

lemmas struct_desc_defs =
   isakmp_hdr_desc_def isakmp_oakley_attribute_desc_def isakmp_ipsec_attribute_desc_def
   isakmp_xauth_attribute_desc_def isakmp_sa_desc_def ipsec_sit_desc_def
   isakmp_proposal_desc_def isakmp_isakmp_transform_desc_def isakmp_ah_transform_desc_def
   isakmp_esp_transform_desc_def isakmp_ipcomp_transform_desc_def isakmp_keyex_desc_def
   isakmp_identification_desc_def isakmp_ipsec_identification_desc_def
   isakmp_ipsec_certificate_desc_def isakmp_ipsec_cert_req_desc_def isakmp_hash_desc_def
   isakmp_signature_desc_def isakmp_nonce_desc_def isakmp_notification_desc_def
   isakmp_delete_desc_def isakmp_vendor_id_desc_def isakmp_attr_desc_def isakmp_nat_d_def
   isakmp_nat_oa_def isakmp_ignore_desc_def isakmp_ikefrag_desc_def ikev2_generic_desc_def
   ikev2_sa_desc_def ikev2_prop_desc_def ikev2_trans_desc_def ikev2_trans_attr_desc_def
   ikev2_ke_desc_def ikev2_id_desc_def ikev2_cp_desc_def ikev2_cp_attribute_desc_def
   ikev2_certificate_desc_def ikev2_certificate_req_desc_def ikev2_a_desc_def
   ikev2_nonce_desc_def ikev2_delete_desc_def ikev2_notify_desc_def ikev2_vendor_id_desc_def
   ikev2_ts_desc_def ikev2_ts1_desc_def ikev2_sk_desc_def ikev2_skf_desc_def
   suggested_group_desc_def

definition packet_descs :: "struct_desc list" where
  "packet_descs = [
    isakmp_hdr_desc, isakmp_oakley_attribute_desc, isakmp_ipsec_attribute_desc,
    isakmp_xauth_attribute_desc, isakmp_sa_desc, ipsec_sit_desc, isakmp_proposal_desc,
    isakmp_isakmp_transform_desc, isakmp_ah_transform_desc, isakmp_esp_transform_desc,
    isakmp_ipcomp_transform_desc, isakmp_keyex_desc, isakmp_identification_desc,
    isakmp_ipsec_identification_desc, isakmp_ipsec_certificate_desc, isakmp_ipsec_cert_req_desc,
    isakmp_hash_desc, isakmp_signature_desc, isakmp_nonce_desc, isakmp_notification_desc,
    isakmp_delete_desc, isakmp_vendor_id_desc, isakmp_attr_desc, isakmp_nat_d, isakmp_nat_oa,
    isakmp_ignore_desc, isakmp_ikefrag_desc, ikev2_generic_desc, ikev2_sa_desc, ikev2_prop_desc,
    ikev2_trans_desc, ikev2_trans_attr_desc, ikev2_ke_desc, ikev2_id_desc, ikev2_cp_desc,
    ikev2_cp_attribute_desc, ikev2_certificate_desc, ikev2_certificate_req_desc, ikev2_a_desc,
    ikev2_nonce_desc, ikev2_delete_desc, ikev2_notify_desc, ikev2_vendor_id_desc, ikev2_ts_desc,
    ikev2_ts1_desc, ikev2_sk_desc, ikev2_skf_desc, suggested_group_desc]"

section \<open>Payload descriptors\<close>

text \<open>\<^verbatim>\<open>unsigned\<close> is 32 bits; \<^verbatim>\<open>ISAKMP_v2PAYLOAD_TYPE_BASE\<close> is 33.\<close>

definition v1_payload_desc :: "u32 \<Rightarrow> struct_desc option" where
  "v1_payload_desc p =
     (if unat p < length v1_payload_descs then v1_payload_descs ! unat p else None)"

definition v2_payload_desc :: "u32 \<Rightarrow> struct_desc option" where
  "v2_payload_desc p =
     (if p < 33 then None
      else let q = p - 33 in
        if \<not> unat q < length v2_payload_descs then None else v2_payload_descs ! unat q)"

section \<open>Well-formed descriptors\<close>

text \<open>
  What \<^verbatim>\<open>in_struct\<close> and \<^verbatim>\<open>out_struct\<close> assert or take for granted of a descriptor: numbers
  have 1, 2 or 4 bytes; a field has the table its type demands, and looking any value of
  its width up in it stays inside the table; the sizes of the fields add up to the size of
  the structure; there is at most one length; an attribute (\<^verbatim>\<open>ft_lv\<close>) has the size of
  \<^verbatim>\<open>struct isakmp_attribute\<close>; a structure with an ordinary length has no attribute format.
\<close>

definition wf_set :: "name_array \<Rightarrow> nat \<Rightarrow> bool" where
  "wf_set table bits \<longleftrightarrow> None \<in> set table \<or> bits \<le> length table"

definition wf_een :: "enum_enum_names \<Rightarrow> bool" where
  "wf_een een \<longleftrightarrow>
     een_last een - een_first een + 1 = of_nat (een_checklen een) \<and>
     (een_first een \<le> een_last een \<longrightarrow>
        unat (een_last een - een_first een) < length (een_enum_name een))"

definition wf_field :: "field_desc \<Rightarrow> bool" where
  "wf_field fp \<longleftrightarrow>
     (case field_type fp of
        ft_mbz \<Rightarrow> False | ft_end \<Rightarrow> False | ft_zig \<Rightarrow> True | ft_raw \<Rightarrow> True
      | _ \<Rightarrow> fd_size fp = 1 \<or> fd_size fp = 2 \<or> fd_size fp = 4) \<and>
     (case field_type fp of
        ft_enum \<Rightarrow> (case fd_desc fp of Enum_desc ed \<Rightarrow> wf_enum ed | _ \<Rightarrow> False)
      | ft_af_enum \<Rightarrow> (case fd_desc fp of Enum_desc ed \<Rightarrow> wf_enum ed | _ \<Rightarrow> False)
      | ft_loose_enum_enum \<Rightarrow> (case fd_desc fp of Enum_enum_desc een \<Rightarrow> wf_een een | _ \<Rightarrow> False)
      | ft_set \<Rightarrow> (case fd_desc fp of Set_desc t \<Rightarrow> wf_set t (8 * fd_size fp) | _ \<Rightarrow> False)
      | _ \<Rightarrow> True)"

definition is_length :: "field_desc \<Rightarrow> bool" where
  "is_length fp \<longleftrightarrow> field_type fp = ft_len \<or> field_type fp = ft_lv"

definition is_af :: "field_desc \<Rightarrow> bool" where
  "is_af fp \<longleftrightarrow> field_type fp = ft_af_enum \<or> field_type fp = ft_af_loose_enum"

definition wf_desc :: "struct_desc \<Rightarrow> bool" where
  "wf_desc sd \<longleftrightarrow>
     sd_fields sd \<noteq> [] \<and> last (sd_fields sd) = Field ft_end 0 None No_desc \<and>
     (let fps = butlast (sd_fields sd) in
      list_all wf_field fps \<and> sum_list (map fd_size fps) = sd_size sd \<and>
      length (filter is_length fps) \<le> 1 \<and>
      (list_ex (\<lambda>fp. field_type fp = ft_lv) fps \<longrightarrow> sd_size sd = 4) \<and>
      (list_ex (\<lambda>fp. field_type fp = ft_len) fps \<longrightarrow> \<not> list_ex is_af fps)) \<and>
     0 < sd_size sd \<and> sd_size sd < 2 ^ 16"

lemma enum_enum_table_total:
  assumes "wf_een een"
  shows "\<exists>r. enum_enum_table een x = Inr r"
proof -
  have "unat (x - een_first een) < length (een_enum_name een)"
    if "een_first een \<le> x" "x \<le> een_last een"
  proof -
    have "unat (x - een_first een) \<le> unat (een_last een - een_first een)"
      using that by (simp add: unat_sub word_le_nat_alt)
    also have "\<dots> < length (een_enum_name een)"
      using that assms by (auto simp: wf_een_def)
    finally show ?thesis .
  qed
  with assms show ?thesis by (simp add: enum_enum_table_def wf_een_def)
qed

lemma bit_name_lengths [simp]:
  "wf_set isakmp_flag_names 8" "wf_set sit_bit_names 32" "wf_set critical_names 8"
  by (simp_all add: wf_set_def isakmp_flag_names_def sit_bit_names_def critical_names_def)

lemma v2_transform_ID_enums_wf [simp]: "wf_een v2_transform_ID_enums"
  by (simp add: wf_een_def v2_transform_ID_enums_def ikev2_transid_val_descs_def)

lemma desc_tables_wf [simp]:
  "wf_enum payload_names_ikev1orv2"
  "wf_enum exchange_names_ikev1orv2"
  "wf_enum oakley_attr_names"
  "wf_enum ipsec_attr_names"
  "wf_enum doi_names"
  "wf_enum ikev1_payload_names"
  "wf_enum ikev1_protocol_names"
  "wf_enum isakmp_transformid_names"
  "wf_enum ah_transformid_names"
  "wf_enum esp_transformid_names"
  "wf_enum ipcomp_transformid_names"
  "wf_enum ike_idtype_names"
  "wf_enum ike_cert_type_names"
  "wf_enum ikev1_notify_names"
  "wf_enum attr_msg_type_names"
  "wf_enum ikev2_payload_names"
  "wf_enum ikev2_last_proposal_desc"
  "wf_enum ikev2_sec_proto_id_names"
  "wf_enum ikev2_last_transform_desc"
  "wf_enum ikev2_trans_type_names"
  "wf_enum ikev2_trans_attr_descs"
  "wf_enum oakley_group_names"
  "wf_enum ikev2_idtype_names"
  "wf_enum ikev2_cp_type_names"
  "wf_enum ikev2_cp_attribute_type_names"
  "wf_enum ikev2_cert_type_names"
  "wf_enum ikev2_auth_names"
  "wf_enum ikev2_protocol_names"
  "wf_enum ikev2_del_protocol_names"
  "wf_enum ikev2_ts_type_names"
  by (simp_all add: enum_table_defs)

lemma packet_descs_wf: "list_all wf_desc packet_descs"
  by (simp add: packet_descs_def struct_desc_defs field_array_defs wf_desc_def wf_field_def
      is_length_def is_af_def)

end
