(* ===== verification/Packet.thy ===== *)
theory Packet
  imports PacketDesc
begin

text \<open>
  Packet byte streams and the functions of \<^verbatim>\<open>programs/pluto/packet.c\<close> that read and write
  structures through their descriptors. A stream is a window on a buffer (\<open>memory\<close>); its
  pointers are offsets into it. A host structure is the list of its members, one per field
  of the descriptor. The functions that write take the buffer and return it; the container
  that \<^verbatim>\<open>close_output_pbs\<close> updates is passed and returned. Log and debug output is left
  out. When \<^verbatim>\<open>out_struct\<close> fails the bytes after the cursor are indeterminate and the
  model returns only the diagnostic.
\<close>

section \<open>Streams\<close>

record pb_stream =
  pbs_desc :: "struct_desc option"
  pbs_name :: string
  pbs_start :: nat
  pbs_cur :: nat
  pbs_roof :: nat
  pbs_lenfld :: "(nat \<times> field_desc) option"

text \<open>\<^verbatim>\<open>size_t\<close> differences of pointers wrap at 64 bits when the pointers are out of order.\<close>

definition size_diff :: "nat \<Rightarrow> nat \<Rightarrow> nat" where
  "size_diff a b = (if b \<le> a then a - b else 2 ^ 64 - (b - a))"

definition pbs_offset :: "pb_stream \<Rightarrow> nat" where
  "pbs_offset pbs = size_diff (pbs_cur pbs) (pbs_start pbs)"

definition pbs_room :: "pb_stream \<Rightarrow> nat" where
  "pbs_room pbs = size_diff (pbs_roof pbs) (pbs_start pbs)"

definition pbs_left :: "pb_stream \<Rightarrow> nat" where
  "pbs_left pbs = size_diff (pbs_roof pbs) (pbs_cur pbs)"

definition init_pbs :: "nat \<Rightarrow> nat \<Rightarrow> string \<Rightarrow> pb_stream" where
  "init_pbs start len name =
     \<lparr>pbs_desc = None, pbs_name = name, pbs_start = start, pbs_cur = start,
      pbs_roof = start + len, pbs_lenfld = None\<rparr>"

definition init_out_pbs ::
    "memory \<Rightarrow> nat \<Rightarrow> nat \<Rightarrow> string \<Rightarrow> fault + memory \<times> pb_stream" where
  "init_out_pbs mem start len name =
     (case write_block mem start (replicate len 0xFA) of
        Inl x \<Rightarrow> Inl x | Inr mem' \<Rightarrow> Inr (mem', init_pbs start len name))"

section \<open>Host structures and diagnostics\<close>

datatype hval = HNum u32 | HRaw "byte list"

datatype diag =
    No_room string
  | Length_too_small "string option" string
  | Length_too_large "string option" string
  | Unknown_value "string option" string u32
  | Unknown_type "string option" string u32
  | Unknown_members "string option" string u32

section \<open>Checks of one field\<close>

text \<open>
  The look-ups through \<^verbatim>\<open>fp->desc\<close>; a descriptor without the table its type demands is an
  access through a wrong pointer.
\<close>

definition desc_enum_name :: "field_desc \<Rightarrow> u32 \<Rightarrow> fault + string option" where
  "desc_enum_name fp n =
     (case fd_desc fp of Enum_desc ed \<Rightarrow> enum_name ed (ucast n) | _ \<Rightarrow> Inl Out_of_bounds)"

definition desc_testset :: "field_desc \<Rightarrow> u32 \<Rightarrow> fault + bool" where
  "desc_testset fp n =
     (case fd_desc fp of Set_desc table \<Rightarrow> testset table (ucast n) | _ \<Rightarrow> Inl Out_of_bounds)"

definition enum_enum_checker :: "string \<Rightarrow> field_desc \<Rightarrow> u32 \<Rightarrow> (diag, unit) outcome" where
  "enum_enum_checker struct_name fp last_enum =
     (case fd_desc fp of
        Enum_enum_desc een \<Rightarrow>
          lift_fault (enum_enum_table een (ucast last_enum)) (\<lambda>ed.
            case ed of None \<Rightarrow> Err (Unknown_type (fd_name fp) struct_name last_enum)
            | Some _ \<Rightarrow> Ok ())
      | _ \<Rightarrow> Abort Out_of_bounds)"

text \<open>\<^verbatim>\<open>(n & ISAKMP_ATTR_AF_MASK) == ISAKMP_ATTR_AF_TV\<close>\<close>

definition af_tv :: "u32 \<Rightarrow> bool" where
  "af_tv n \<longleftrightarrow> n AND 0x8000 = 0x8000"

text \<open>
  The inner switch that \<^verbatim>\<open>in_struct\<close> and \<^verbatim>\<open>out_struct\<close> share (all cases but the lengths):
  the new \<^verbatim>\<open>immediate\<close> and \<^verbatim>\<open>last_enum\<close>, or a diagnostic.
\<close>

definition unknown_enum :: "string \<Rightarrow> field_desc \<Rightarrow> u32 \<Rightarrow> (diag, unit) outcome" where
  "unknown_enum struct_name fp n =
     lift_fault (desc_enum_name fp n) (\<lambda>name. case name of
       None \<Rightarrow> Err (Unknown_value (fd_name fp) struct_name n) | Some _ \<Rightarrow> Ok ())"

definition check_field ::
    "string \<Rightarrow> field_desc \<Rightarrow> u32 \<Rightarrow> bool \<Rightarrow> u32 \<Rightarrow> (diag, bool \<times> u32) outcome" where
  "check_field struct_name fp n immediate last_enum =
     (case field_type fp of
        ft_af_loose_enum \<Rightarrow> Ok (immediate \<or> af_tv n, last_enum)
      | ft_af_enum \<Rightarrow>
          bind_outcome (unknown_enum struct_name fp n) (\<lambda>_. Ok (immediate \<or> af_tv n, n))
      | ft_enum \<Rightarrow> bind_outcome (unknown_enum struct_name fp n) (\<lambda>_. Ok (immediate, n))
      | ft_loose_enum \<Rightarrow> Ok (immediate, n)
      | ft_loose_enum_enum \<Rightarrow>
          bind_outcome (enum_enum_checker struct_name fp last_enum)
            (\<lambda>_. Ok (immediate, last_enum))
      | ft_set \<Rightarrow>
          lift_fault (desc_testset fp n) (\<lambda>known.
            if known then Ok (immediate, last_enum)
            else Err (Unknown_members (fd_name fp) struct_name n))
      | _ \<Rightarrow> Ok (immediate, last_enum))"

section \<open>Parsing\<close>

text \<open>
  Locals of \<^verbatim>\<open>in_struct\<close>. \<open>is_host\<close> is what has been deposited at \<^verbatim>\<open>struct_ptr\<close> and
  \<open>is_outp\<close> the offset of \<^verbatim>\<open>outp\<close> from it.
\<close>

record in_state =
  is_cur :: nat
  is_roof :: nat
  is_outp :: nat
  is_host :: "hval list"
  is_immediate :: bool
  is_last_enum :: u32

definition in_length ::
    "struct_desc \<Rightarrow> pb_stream \<Rightarrow> field_desc \<Rightarrow> u32 \<Rightarrow> bool \<Rightarrow> (diag, nat) outcome" where
  "in_length sd ins fp n immediate =
     (let len :: u32 =
        (if field_type fp = ft_len then n
         else if immediate then of_nat (sd_size sd) else n + of_nat (sd_size sd)) in
      if unat len < sd_size sd then Err (Length_too_small (fd_name fp) (sd_name sd))
      else if pbs_left ins < unat len then Err (Length_too_large (fd_name fp) (sd_name sd))
      else Ok (pbs_cur ins + unat len))"

definition deposit :: "in_state \<Rightarrow> nat \<Rightarrow> hval \<Rightarrow> in_state" where
  "deposit st i v =
     st\<lparr>is_cur := is_cur st + i, is_outp := is_outp st + i, is_host := is_host st @ [v]\<rparr>"

definition in_number ::
    "struct_desc \<Rightarrow> pb_stream \<Rightarrow> field_desc \<Rightarrow> u32 \<Rightarrow> in_state \<Rightarrow> (diag, in_state) outcome" where
  "in_number sd ins fp n st =
     (case
       (if field_type fp \<in> {ft_len, ft_lv}
        then bind_outcome (in_length sd ins fp n (is_immediate st)) (\<lambda>roof.
          Ok (st\<lparr>is_roof := roof\<rparr>))
        else bind_outcome
          (check_field (sd_name sd) fp n (is_immediate st) (is_last_enum st)) (\<lambda>(imm, le).
          Ok (st\<lparr>is_immediate := imm, is_last_enum := le\<rparr>)))
      of Abort x \<Rightarrow> Abort x
       | r \<Rightarrow>
           if fd_size fp \<in> {1, 2, 4}
           then bind_outcome r (\<lambda>st'. Ok (deposit st' (fd_size fp) (HNum n)))
           else Abort Bad_case)"

definition in_field ::
    "memory \<Rightarrow> struct_desc \<Rightarrow> pb_stream \<Rightarrow> field_desc \<Rightarrow> in_state \<Rightarrow> (diag, in_state) outcome" where
  "in_field mem sd ins fp st =
     (if field_type fp \<in> {ft_mbz, ft_end} then Abort Bad_case
      else lift_fault (read_block mem (is_cur st) (fd_size fp)) (\<lambda>bs.
        if field_type fp = ft_zig
        then Ok (deposit st (fd_size fp) (HRaw (replicate (fd_size fp) 0)))
        else if field_type fp = ft_raw then Ok (deposit st (fd_size fp) (HRaw bs))
        else in_number sd ins fp (be_value bs) st))"

text \<open>The loop over the fields; a field array without \<^verbatim>\<open>ft_end\<close> is read past its end.\<close>

fun in_fields ::
    "memory \<Rightarrow> struct_desc \<Rightarrow> pb_stream \<Rightarrow> field_desc list \<Rightarrow> in_state \<Rightarrow> (diag, in_state) outcome"
  where
  "in_fields mem sd ins [] st = Abort Out_of_bounds"
| "in_fields mem sd ins (fp # fps) st =
     passert (int (pbs_roof ins) - int (is_cur st) \<ge> int (fd_size fp))
    (passert (int (is_cur st) - int (pbs_cur ins) \<le> int (sd_size sd) - int (fd_size fp))
    (passert (int (is_outp st) - (int (is_cur st) - int (pbs_cur ins)) = 0)
      (if field_type fp = ft_end
       then passert (is_cur st = pbs_cur ins + sd_size sd) (Ok st)
       else bind_outcome (in_field mem sd ins fp st) (in_fields mem sd ins fps))))"

text \<open>
  \<^verbatim>\<open>in_struct\<close> returns the structure, the advanced input stream and the stream for the
  variable part (a caller that passes a NULL \<^verbatim>\<open>obj_pbs\<close> drops it).
\<close>

definition in_struct ::
    "memory \<Rightarrow> struct_desc \<Rightarrow> pb_stream \<Rightarrow> (diag, hval list \<times> pb_stream \<times> pb_stream) outcome"
  where
  "in_struct mem sd ins =
     (if int (pbs_roof ins) - int (pbs_cur ins) < int (sd_size sd)
      then Err (No_room (sd_name sd))
      else bind_outcome
        (in_fields mem sd ins (sd_fields sd)
          \<lparr>is_cur = pbs_cur ins, is_roof = pbs_cur ins + sd_size sd, is_outp = 0,
           is_host = [], is_immediate = False, is_last_enum = 0\<rparr>)
        (\<lambda>st. Ok (is_host st, ins\<lparr>pbs_cur := is_roof st\<rparr>,
           (init_pbs (pbs_cur ins) (is_roof st - pbs_cur ins) (sd_name sd))
             \<lparr>pbs_desc := Some sd, pbs_cur := is_cur st\<rparr>)))"

definition in_raw :: "memory \<Rightarrow> nat \<Rightarrow> pb_stream \<Rightarrow> (diag, byte list \<times> pb_stream) outcome" where
  "in_raw mem len ins =
     (if pbs_left ins < len then Err (No_room (pbs_name ins))
      else lift_fault (read_block mem (pbs_cur ins) len) (\<lambda>bs.
        Ok (bs, ins\<lparr>pbs_cur := pbs_cur ins + len\<rparr>)))"

section \<open>Emitting\<close>

text \<open>
  \<^verbatim>\<open>close_output_pbs\<close> patches the length field of a stream and passes the space used up
  to its container (\<open>None\<close> is a NULL container).
\<close>

definition close_output_pbs ::
    "memory \<Rightarrow> pb_stream \<Rightarrow> pb_stream option \<Rightarrow> fault + memory \<times> pb_stream option" where
  "close_output_pbs mem pbs container =
     (let container' = map_option (\<lambda>c. c\<lparr>pbs_cur := pbs_cur pbs\<rparr>) container in
      case pbs_lenfld pbs of
        None \<Rightarrow> Inr (mem, container')
      | Some (lenfld, fp) \<Rightarrow>
          let len :: u32 = of_nat (pbs_offset pbs);
              len' = (if field_type fp = ft_lv then len - 4 else len)
          in case write_block mem lenfld (be_bytes (fd_size fp) len') of
               Inl x \<Rightarrow> Inl x | Inr mem' \<Rightarrow> Inr (mem', container'))"

text \<open>Locals of \<^verbatim>\<open>out_struct\<close>; \<open>os_inp\<close> is the offset of \<^verbatim>\<open>inp\<close> in the host structure.\<close>

record out_state =
  os_mem :: memory
  os_cur :: nat
  os_inp :: nat
  os_lenfld :: "(nat \<times> field_desc) option"
  os_immediate :: bool
  os_last_enum :: u32

definition emit :: "out_state \<Rightarrow> byte list \<Rightarrow> (diag, out_state) outcome" where
  "emit st bs = lift_fault (write_block (os_mem st) (os_cur st) bs) (\<lambda>mem'.
     Ok (st\<lparr>os_mem := mem', os_cur := os_cur st + length bs, os_inp := os_inp st + length bs\<rparr>))"

text \<open>A number is read from the host structure at the width of its field.\<close>

definition out_number ::
    "struct_desc \<Rightarrow> field_desc \<Rightarrow> hval \<Rightarrow> out_state \<Rightarrow> (diag, out_state) outcome" where
  "out_number sd fp v st =
     (if fd_size fp \<notin> {1, 2, 4} then Abort Bad_case
      else case v of
        HRaw _ \<Rightarrow> Abort Out_of_bounds
      | HNum w \<Rightarrow>
          let n = take_bit (8 * fd_size fp) w in
          bind_outcome
            (if field_type fp = ft_lv \<or> field_type fp = ft_len
             then Ok (os_immediate st, os_last_enum st)
             else check_field (sd_name sd) fp n (os_immediate st) (os_last_enum st))
            (\<lambda>(imm, le). emit (st\<lparr>os_immediate := imm, os_last_enum := le\<rparr>)
               (be_bytes (fd_size fp) n)))"

definition out_field ::
    "struct_desc \<Rightarrow> field_desc \<Rightarrow> hval \<Rightarrow> out_state \<Rightarrow> (diag, out_state) outcome" where
  "out_field sd fp v st =
     (case field_type fp of
        ft_zig \<Rightarrow> emit st (replicate (fd_size fp) 0)
      | ft_raw \<Rightarrow>
          (case v of
             HRaw bs \<Rightarrow> if length bs = fd_size fp then emit st bs else Abort Out_of_bounds
           | HNum _ \<Rightarrow> Abort Out_of_bounds)
      | ft_mbz \<Rightarrow> Abort Bad_case
      | ft_end \<Rightarrow> Abort Bad_case
      | _ \<Rightarrow>
          if field_type fp \<in> {ft_len, ft_lv} \<and> \<not> os_immediate st
          then passert (os_lenfld st = None)
            (emit (st\<lparr>os_lenfld := Some (os_cur st, fp)\<rparr>) (replicate (fd_size fp) 0xFA))
          else out_number sd fp v st)"

fun out_fields ::
    "struct_desc \<Rightarrow> pb_stream \<Rightarrow> field_desc list \<Rightarrow> hval list \<Rightarrow> out_state \<Rightarrow>
     (diag, out_state) outcome" where
  "out_fields sd outs [] hs st = Abort Out_of_bounds"
| "out_fields sd outs (fp # fps) hs st =
     passert (int (pbs_roof outs) - int (os_cur st) \<ge> int (fd_size fp))
    (passert (int (os_cur st) - int (pbs_cur outs) \<le> int (sd_size sd) - int (fd_size fp))
    (passert (int (os_inp st) - (int (os_cur st) - int (pbs_cur outs)) = 0)
      (if field_type fp = ft_end
       then passert (os_cur st = pbs_cur outs + sd_size sd) (Ok st)
       else (case hs of
          [] \<Rightarrow> Abort Out_of_bounds
        | h # hs' \<Rightarrow>
            bind_outcome (out_field sd fp h st) (out_fields sd outs fps hs')))))"

text \<open>
  \<open>keep\<close> says whether the caller passes an \<^verbatim>\<open>obj_pbs\<close>. If it does, the object's stream is
  returned open and the cursor of \<^verbatim>\<open>outs\<close> is put at its roof until the object is closed;
  if not, \<^verbatim>\<open>out_struct\<close> closes the object.
\<close>

definition out_struct ::
    "memory \<Rightarrow> hval list \<Rightarrow> struct_desc \<Rightarrow> pb_stream \<Rightarrow> bool \<Rightarrow>
     (diag, memory \<times> pb_stream \<times> pb_stream option) outcome" where
  "out_struct mem hs sd outs keep =
     (if int (pbs_roof outs) - int (pbs_cur outs) < int (sd_size sd)
      then Err (No_room (sd_name sd))
      else bind_outcome
        (out_fields sd outs (sd_fields sd) hs
          \<lparr>os_mem = mem, os_cur = pbs_cur outs, os_inp = 0, os_lenfld = None,
           os_immediate = False, os_last_enum = 0\<rparr>)
        (\<lambda>st. let obj = \<lparr>pbs_desc = Some sd, pbs_name = sd_name sd, pbs_start = pbs_cur outs,
                 pbs_cur = os_cur st, pbs_roof = pbs_roof outs, pbs_lenfld = os_lenfld st\<rparr> in
           if keep then Ok (os_mem st, outs\<lparr>pbs_cur := pbs_roof outs\<rparr>, Some obj)
           else lift_fault (close_output_pbs (os_mem st) obj (Some outs)) (\<lambda>(mem', c).
             Ok (mem', the c, None))))"

definition out_raw :: "memory \<Rightarrow> byte list \<Rightarrow> pb_stream \<Rightarrow> (diag, memory \<times> pb_stream) outcome" where
  "out_raw mem bytes outs =
     (if pbs_left outs < length bytes then Err (No_room (pbs_name outs))
      else lift_fault (write_block mem (pbs_cur outs) bytes) (\<lambda>mem'.
        Ok (mem', outs\<lparr>pbs_cur := pbs_cur outs + length bytes\<rparr>)))"

definition out_zero :: "memory \<Rightarrow> nat \<Rightarrow> pb_stream \<Rightarrow> (diag, memory \<times> pb_stream) outcome" where
  "out_zero mem len outs =
     (if pbs_left outs < len then Err (No_room (pbs_name outs))
      else lift_fault (write_block mem (pbs_cur outs) (replicate len 0)) (\<lambda>mem'.
        Ok (mem', outs\<lparr>pbs_cur := pbs_cur outs + len\<rparr>)))"

section \<open>Generic payloads\<close>

text \<open>
  \<^verbatim>\<open>struct ikev2_generic gen\<close> and \<^verbatim>\<open>struct isakmp_generic gen\<close> are automatic variables of
  which only \<^verbatim>\<open>isag_np\<close> is assigned. Their other members are indeterminate: they are the
  parameters \<open>flags\<close>, \<open>reserved\<close> and \<open>len\<close>.
\<close>

definition ikev2_out_generic ::
    "byte \<Rightarrow> u16 \<Rightarrow> memory \<Rightarrow> byte \<Rightarrow> struct_desc \<Rightarrow> pb_stream \<Rightarrow> bool \<Rightarrow>
     (diag, memory \<times> pb_stream \<times> pb_stream option) outcome" where
  "ikev2_out_generic flags len mem np sd outs keep =
     passert (sd_fields sd = ikev2generic_fields)
       (out_struct mem [HNum (ucast np), HNum (ucast flags), HNum (ucast len)] sd outs keep)"

definition ikev1_out_generic ::
    "byte \<Rightarrow> u16 \<Rightarrow> memory \<Rightarrow> byte \<Rightarrow> struct_desc \<Rightarrow> pb_stream \<Rightarrow> bool \<Rightarrow>
     (diag, memory \<times> pb_stream \<times> pb_stream option) outcome" where
  "ikev1_out_generic reserved len mem np sd outs keep =
     passert (sd_fields sd = isag_fields)
       (out_struct mem [HNum (ucast np), HRaw [reserved], HNum (ucast len)] sd outs keep)"

text \<open>What both \<^verbatim>\<open>_raw\<close> variants do with the stream of the header: the bytes, then the length.\<close>

definition finish_raw ::
    "byte list \<Rightarrow> memory \<times> pb_stream \<times> pb_stream option \<Rightarrow> (diag, memory \<times> pb_stream) outcome" where
  "finish_raw bytes = (\<lambda>(mem, outs, pbs).
     bind_outcome (out_raw mem bytes (the pbs)) (\<lambda>(mem', pbs').
       lift_fault (close_output_pbs mem' pbs' (Some outs)) (\<lambda>(mem'', c). Ok (mem'', the c))))"

definition ikev2_out_generic_raw ::
    "byte \<Rightarrow> u16 \<Rightarrow> memory \<Rightarrow> byte \<Rightarrow> struct_desc \<Rightarrow> pb_stream \<Rightarrow> byte list \<Rightarrow>
     (diag, memory \<times> pb_stream) outcome" where
  "ikev2_out_generic_raw flags len mem np sd outs bytes =
     bind_outcome (ikev2_out_generic flags len mem np sd outs True) (finish_raw bytes)"

definition ikev1_out_generic_raw ::
    "byte \<Rightarrow> u16 \<Rightarrow> memory \<Rightarrow> byte \<Rightarrow> struct_desc \<Rightarrow> pb_stream \<Rightarrow> byte list \<Rightarrow>
     (diag, memory \<times> pb_stream) outcome" where
  "ikev1_out_generic_raw reserved len mem np sd outs bytes =
     bind_outcome (ikev1_out_generic reserved len mem np sd outs True) (finish_raw bytes)"

section \<open>Changing the next-payload octet of the last payload\<close>

text \<open>
  The loop of \<^verbatim>\<open>out_modify_previous_np\<close> steps from payload to payload by the lengths it
  finds. Nothing bounds it: \<open>None\<close> stands for a run that does not return. The header has
  28 octets, its next-payload octet is at 16; the generic header has 4 octets, with its
  next-payload octet at 0 and its length at 2.
\<close>

partial_function (option) modify_np_loop ::
    "memory \<Rightarrow> byte \<Rightarrow> nat \<Rightarrow> nat \<Rightarrow> (fault + memory) option" where
  "modify_np_loop mem np pl left =
     (if \<not> left \<ge> 4 then Some (Inl Passert)
      else case read_block mem (pl + 2) 2 of
        Inl x \<Rightarrow> Some (Inl x)
      | Inr bs \<Rightarrow>
          if \<not> left \<ge> unat (be_value bs) then Some (Inl Passert)
          else if left = unat (be_value bs) then Some (write_block mem pl [np])
          else modify_np_loop mem np (pl + unat (be_value bs)) (left - unat (be_value bs)))"

definition out_modify_previous_np ::
    "memory \<Rightarrow> byte \<Rightarrow> pb_stream \<Rightarrow> (fault + memory) option" where
  "out_modify_previous_np mem np outs =
     (let pl = pbs_start outs; left = pbs_offset outs in
      if \<not> left \<ge> 28 then Some (Inl Passert)
      else if left = 28 then
        (case read_block mem (pl + 16) 1 of
           Inl x \<Rightarrow> Some (Inl x)
         | Inr bs \<Rightarrow>
             if bs = [0] \<or> bs = [8] \<or> bs = [9] then Some (write_block mem (pl + 16) [np])
             else Some (Inl Passert))
      else modify_np_loop mem np (pl + 28) (left - 28))"

section \<open>Checks never fault on a well-formed descriptor\<close>

lemma field_width: "wf_field fp \<Longrightarrow> field_type fp \<notin> {ft_zig, ft_raw} \<Longrightarrow> fd_size fp \<in> {1, 2, 4}"
  by (auto simp: wf_field_def split: field_type.splits)

lemma wf_field_type: "wf_field fp \<Longrightarrow> field_type fp \<noteq> ft_mbz \<and> field_type fp \<noteq> ft_end"
  by (auto simp: wf_field_def)

lemma unknown_enum_safe:
  assumes "wf_field fp" "field_type fp = ft_enum \<or> field_type fp = ft_af_enum"
  shows "yields (unknown_enum nm fp n) (\<lambda>_. True)"
proof -
  obtain ed where ed: "fd_desc fp = Enum_desc ed" "wf_enum ed"
    using assms by (auto simp: wf_field_def split: field_names.splits)
  with enum_name_total [OF ed(2), of "ucast n"] show ?thesis
    by (auto simp: unknown_enum_def desc_enum_name_def split: option.splits)
qed

lemma enum_enum_checker_safe:
  assumes "wf_field fp" "field_type fp = ft_loose_enum_enum"
  shows "yields (enum_enum_checker nm fp n) (\<lambda>_. True)"
proof -
  obtain een where een: "fd_desc fp = Enum_enum_desc een" "wf_een een"
    using assms by (auto simp: wf_field_def split: field_names.splits)
  with enum_enum_table_total [OF een(2), of "ucast n"] show ?thesis
    by (auto simp: enum_enum_checker_def split: option.splits)
qed

lemma desc_testset_total:
  assumes "wf_field fp" "field_type fp = ft_set" "take_bit (8 * fd_size fp) n = n"
  shows "\<exists>r. desc_testset fp n = Inr r"
proof -
  obtain t where t: "fd_desc fp = Set_desc t" "wf_set t (8 * fd_size fp)"
    using assms by (auto simp: wf_field_def split: field_names.splits)
  have bits: "b < 8 * fd_size fp" if "bit n b" for b
    using that assms(3) by (metis bit_take_bit_iff)
  show ?thesis
  proof (cases "None \<in> set t")
    case True
    with t testset_from_terminated show ?thesis by (simp add: desc_testset_def testset_def)
  next
    case False
    then have "\<forall>b. bit (ucast n :: u64) b \<longrightarrow> b < length t"
      using bits t(2) by (auto simp: bit_simps wf_set_def dest: less_le_trans)
    then show ?thesis using t(1) testset_spec [of "ucast n" t] by (simp add: desc_testset_def)
  qed
qed

lemma check_field_safe:
  assumes "wf_field fp" "take_bit (8 * fd_size fp) n = n"
  shows "yields (check_field nm fp n imm le) (\<lambda>_. True)"
  using assms desc_testset_total [OF assms(1) _ assms(2)]
    unknown_enum_safe [OF assms(1), of nm n] enum_enum_checker_safe [OF assms(1), of nm le]
  by (cases "field_type fp") (auto simp: check_field_def intro: yields_bind)


section \<open>Parsing\<close>

definition host_ok :: "field_desc \<Rightarrow> hval \<Rightarrow> bool" where
  "host_ok fp h \<longleftrightarrow> (case h of
     HNum w \<Rightarrow> field_type fp \<notin> {ft_zig, ft_raw} \<and> take_bit (8 * fd_size fp) w = w
   | HRaw bs \<Rightarrow> field_type fp \<in> {ft_zig, ft_raw} \<and> length bs = fd_size fp)"

definition wf_pbs :: "memory \<Rightarrow> pb_stream \<Rightarrow> bool" where
  "wf_pbs mem pbs \<longleftrightarrow>
     pbs_start pbs \<le> pbs_cur pbs \<and> pbs_cur pbs \<le> pbs_roof pbs \<and> pbs_roof pbs \<le> length mem"

lemma pbs_left_wf: "wf_pbs mem pbs \<Longrightarrow> pbs_left pbs = pbs_roof pbs - pbs_cur pbs"
  by (simp add: wf_pbs_def pbs_left_def size_diff_def)

definition roof_ok :: "struct_desc \<Rightarrow> pb_stream \<Rightarrow> nat \<Rightarrow> bool" where
  "roof_ok sd ins r \<longleftrightarrow> pbs_cur ins + sd_size sd \<le> r \<and> r \<le> pbs_roof ins"

lemma in_length_roof:
  assumes "wf_pbs mem ins"
  shows "yields (in_length sd ins fp n imm) (roof_ok sd ins)"
  using assms pbs_left_wf [OF assms]
  by (auto simp: in_length_def roof_ok_def Let_def wf_pbs_def)

lemma in_number_ok:
  assumes "wf_pbs mem ins" "wf_field fp" "field_type fp \<notin> {ft_zig, ft_raw}"
    and "take_bit (8 * fd_size fp) n = n" "roof_ok sd ins (is_roof st)"
  shows "yields (in_number sd ins fp n st) (\<lambda>st'.
    is_cur st' = is_cur st + fd_size fp \<and> is_outp st' = is_outp st + fd_size fp \<and>
    is_host st' = is_host st @ [HNum n] \<and> roof_ok sd ins (is_roof st'))"
  using field_width [OF assms(2,3)] assms(5)
    in_length_roof [OF assms(1), of sd fp n "is_immediate st"]
    check_field_safe [OF assms(2,4), of "sd_name sd" "is_immediate st" "is_last_enum st"]
  by (cases "in_length sd ins fp n (is_immediate st)";
      cases "check_field (sd_name sd) fp n (is_immediate st) (is_last_enum st)")
    (auto simp: in_number_def deposit_def)

lemma in_field_ok:
  assumes "wf_pbs mem ins" "wf_field fp" "is_cur st + fd_size fp \<le> length mem"
    and "roof_ok sd ins (is_roof st)"
  shows "yields (in_field mem sd ins fp st) (\<lambda>st'.
    is_cur st' = is_cur st + fd_size fp \<and> is_outp st' = is_outp st + fd_size fp \<and>
    (\<exists>h. host_ok fp h \<and> is_host st' = is_host st @ [h]) \<and> roof_ok sd ins (is_roof st'))"
proof -
  let ?bs = "take (fd_size fp) (drop (is_cur st) mem)"
  have len: "length ?bs = fd_size fp" using assms(3) by simp
  then have n: "take_bit (8 * fd_size fp) (be_value ?bs) = be_value ?bs"
    using be_value_bound [of ?bs] by simp
  show ?thesis
  proof (cases "field_type fp \<in> {ft_zig, ft_raw}")
    case True
    with assms(3,4) len show ?thesis
      by (auto simp: in_field_def read_block_def deposit_def host_ok_def)
  next
    case False
    with assms(3) wf_field_type [OF assms(2)]
    have "in_field mem sd ins fp st = in_number sd ins fp (be_value ?bs) st"
      by (auto simp: in_field_def read_block_def)
    moreover have "host_ok fp (HNum (be_value ?bs))"
      using False n by (simp add: host_ok_def)
    ultimately show ?thesis
      using in_number_ok [OF assms(1,2) False n assms(4)] by (auto elim!: yields_mono)
  qed
qed

lemma in_fields_ok:
  assumes "wf_pbs mem ins" "list_all wf_field fps" "field_type e = ft_end" "fd_size e = 0"
    and "is_cur st = pbs_cur ins + is_outp st"
    and "is_outp st + sum_list (map fd_size fps) = sd_size sd"
    and "roof_ok sd ins (is_roof st)"
  shows "yields (in_fields mem sd ins (fps @ [e]) st) (\<lambda>st'.
    is_cur st' = pbs_cur ins + sd_size sd \<and> roof_ok sd ins (is_roof st') \<and>
    (\<exists>hs. list_all2 host_ok fps hs \<and> is_host st' = is_host st @ hs))"
  using assms
proof (induction fps arbitrary: st)
  case Nil
  then show ?case by (auto simp: roof_ok_def)
next
  case (Cons fp fps)
  have fp: "wf_field fp" using Cons.prems(2) by simp
  have room: "is_cur st + fd_size fp \<le> pbs_roof ins"
    using Cons.prems(5-7) by (simp add: roof_ok_def)
  have fit: "is_cur st + fd_size fp \<le> length mem"
    using room Cons.prems(1) by (simp add: wf_pbs_def)
  have "yields (bind_outcome (in_field mem sd ins fp st) (in_fields mem sd ins (fps @ [e])))
    (\<lambda>st'. is_cur st' = pbs_cur ins + sd_size sd \<and> roof_ok sd ins (is_roof st') \<and>
      (\<exists>hs. list_all2 host_ok (fp # fps) hs \<and> is_host st' = is_host st @ hs))"
  proof (rule yields_bind [OF in_field_ok [OF Cons.prems(1) fp fit Cons.prems(7)]])
    fix a :: in_state assume a: "is_cur a = is_cur st + fd_size fp \<and> is_outp a = is_outp st + fd_size fp \<and>
      (\<exists>h. host_ok fp h \<and> is_host a = is_host st @ [h]) \<and> roof_ok sd ins (is_roof a)"
    have "yields (in_fields mem sd ins (fps @ [e]) a) (\<lambda>st'.
      is_cur st' = pbs_cur ins + sd_size sd \<and> roof_ok sd ins (is_roof st') \<and>
      (\<exists>hs. list_all2 host_ok fps hs \<and> is_host st' = is_host a @ hs))"
      using Cons.prems a by (intro Cons.IH) auto
    then show "yields (in_fields mem sd ins (fps @ [e]) a) (\<lambda>st'.
      is_cur st' = pbs_cur ins + sd_size sd \<and> roof_ok sd ins (is_roof st') \<and>
      (\<exists>hs. list_all2 host_ok (fp # fps) hs \<and> is_host st' = is_host st @ hs))"
      using a by (elim yields_mono) fastforce
  qed
  then show ?case
    using room Cons.prems(5,6) wf_field_type [OF fp] by simp
qed

lemma wf_desc_fields:
  assumes "wf_desc sd"
  obtains fps where "sd_fields sd = fps @ [Field ft_end 0 None No_desc]" "list_all wf_field fps"
    "sum_list (map fd_size fps) = sd_size sd" "length (filter is_length fps) \<le> 1"
    "list_ex (\<lambda>fp. field_type fp = ft_lv) fps \<longrightarrow> sd_size sd = 4"
proof (rule that [of "butlast (sd_fields sd)"])
  show "sd_fields sd = butlast (sd_fields sd) @ [Field ft_end 0 None No_desc]"
    using assms append_butlast_last_id [of "sd_fields sd"] by (simp add: wf_desc_def)
qed (use assms in \<open>auto simp: wf_desc_def Let_def\<close>)

lemma in_struct_ok:
  assumes "wf_desc sd" "wf_pbs mem ins"
  shows "yields (in_struct mem sd ins) (\<lambda>(hs, ins', obj).
    list_all2 host_ok (butlast (sd_fields sd)) hs \<and>
    ins' = ins\<lparr>pbs_cur := pbs_roof obj\<rparr> \<and> wf_pbs mem ins' \<and> wf_pbs mem obj \<and>
    pbs_start obj = pbs_cur ins \<and> pbs_cur obj = pbs_cur ins + sd_size sd \<and>
    pbs_roof obj \<le> pbs_roof ins)"
proof (cases "int (pbs_roof ins) - int (pbs_cur ins) < int (sd_size sd)")
  case True
  then show ?thesis by (simp add: in_struct_def)
next
  case False
  obtain fps where fps: "sd_fields sd = fps @ [Field ft_end 0 None No_desc]" "list_all wf_field fps"
    "sum_list (map fd_size fps) = sd_size sd"
    using wf_desc_fields [OF assms(1)] by metis
  let ?st = "\<lparr>is_cur = pbs_cur ins, is_roof = pbs_cur ins + sd_size sd, is_outp = 0,
     is_host = [], is_immediate = False, is_last_enum = 0\<rparr>"
  have r: "roof_ok sd ins (is_roof ?st)" using False by (simp add: roof_ok_def)
  have "yields (in_fields mem sd ins (sd_fields sd) ?st) (\<lambda>st'.
    is_cur st' = pbs_cur ins + sd_size sd \<and> roof_ok sd ins (is_roof st') \<and>
    (\<exists>hs. list_all2 host_ok fps hs \<and> is_host st' = is_host ?st @ hs))"
    unfolding fps(1) by (rule in_fields_ok [OF assms(2) fps(2)]) (use fps(3) r in auto)
  then show ?thesis
    using False assms(2) unfolding in_struct_def
    by (auto simp: fps(1) roof_ok_def wf_pbs_def init_pbs_def elim!: yields_bind)
qed

end
