(* ===== verification/PacketCodec.thy ===== *)
theory PacketCodec
  imports Packet
begin

text \<open>
  What the emitting and parsing functions of \<^verbatim>\<open>packet.c\<close> write and read, against a reference
  encoder: \<open>net_fields\<close> is the network image of a structure. \<^verbatim>\<open>out_struct\<close>, \<^verbatim>\<open>out_raw\<close>
  and \<^verbatim>\<open>close_output_pbs\<close> together write exactly the image and the payload, and
  \<^verbatim>\<open>in_struct\<close> followed by \<^verbatim>\<open>in_raw\<close> reads both back.
\<close>

section \<open>The network image of a structure\<close>

text \<open>
  A reference encoder. \<open>len\<close> is the length to put in the length field, \<open>None\<close> the filler
  that stands there until the stream is closed; \<open>imm\<close> says that an attribute is immediate.
\<close>

definition next_imm :: "bool \<Rightarrow> field_desc \<Rightarrow> hval \<Rightarrow> bool" where
  "next_imm imm fp h \<longleftrightarrow>
     imm \<or> is_af fp \<and> (case h of HNum w \<Rightarrow> af_tv (take_bit (8 * fd_size fp) w) | HRaw _ \<Rightarrow> False)"

definition net_length :: "field_desc \<Rightarrow> u32 \<Rightarrow> u32" where
  "net_length fp len = (if field_type fp = ft_lv then len - 4 else len)"

definition net_field :: "u32 option \<Rightarrow> bool \<Rightarrow> field_desc \<Rightarrow> hval \<Rightarrow> byte list" where
  "net_field len imm fp h =
     (if field_type fp = ft_zig then replicate (fd_size fp) 0
      else if is_length fp \<and> \<not> imm
      then (case len of None \<Rightarrow> replicate (fd_size fp) 0xFA
            | Some l \<Rightarrow> be_bytes (fd_size fp) (net_length fp l))
      else (case h of HNum w \<Rightarrow> be_bytes (fd_size fp) (take_bit (8 * fd_size fp) w) | HRaw bs \<Rightarrow> bs))"

fun net_fields :: "u32 option \<Rightarrow> bool \<Rightarrow> field_desc list \<Rightarrow> hval list \<Rightarrow> byte list" where
  "net_fields len imm (fp # fps) (h # hs) =
     net_field len imm fp h @ net_fields len (next_imm imm fp h) fps hs"
| "net_fields len imm _ _ = []"

text \<open>Where the length field that is to be filled in lies, counted from \<open>off\<close>.\<close>

fun lenfld_at :: "bool \<Rightarrow> nat \<Rightarrow> field_desc list \<Rightarrow> hval list \<Rightarrow> (nat \<times> field_desc) option" where
  "lenfld_at imm off (fp # fps) (h # hs) =
     (if is_length fp \<and> \<not> imm then Some (off, fp)
      else lenfld_at (next_imm imm fp h) (off + fd_size fp) fps hs)"
| "lenfld_at imm off _ _ = None"

lemma length_net_field: "host_ok fp h \<Longrightarrow> length (net_field len imm fp h) = fd_size fp"
  by (auto simp: net_field_def host_ok_def split: hval.splits option.splits)

lemma length_net_fields:
  "list_all2 host_ok fps hs \<Longrightarrow> length (net_fields len imm fps hs) = sum_list (map fd_size fps)"
  by (induction fps hs arbitrary: imm rule: list_all2_induct) (simp_all add: length_net_field)

lemma lenfld_at_None: "list_all (\<lambda>fp. \<not> is_length fp) fps \<Longrightarrow> lenfld_at imm off fps hs = None"
  by (induction imm off fps hs rule: lenfld_at.induct) auto

section \<open>Emitting a structure\<close>

lemma emit_ok:
  "os_cur st + length bs \<le> length (os_mem st) \<Longrightarrow>
   \<exists>m. write_block (os_mem st) (os_cur st) bs = Inr m \<and>
     emit st bs = Ok (st\<lparr>os_mem := m, os_cur := os_cur st + length bs, os_inp := os_inp st + length bs\<rparr>)"
  by (auto simp: emit_def dest: write_block_total)

definition emitted :: "out_state \<Rightarrow> field_desc \<Rightarrow> hval \<Rightarrow> out_state \<Rightarrow> bool" where
  "emitted st fp h st' \<longleftrightarrow>
     write_block (os_mem st) (os_cur st) (net_field None (os_immediate st) fp h) = Inr (os_mem st') \<and>
     os_cur st' = os_cur st + fd_size fp \<and> os_inp st' = os_inp st + fd_size fp \<and>
     os_immediate st' = next_imm (os_immediate st) fp h \<and>
     os_lenfld st' = (if is_length fp \<and> \<not> os_immediate st then Some (os_cur st, fp) else os_lenfld st)"

lemma check_field_ok:
  assumes "wf_field fp" "take_bit (8 * fd_size fp) n = n"
  shows "yields (check_field nm fp n imm le) (\<lambda>(imm', le'). imm' = (imm \<or> is_af fp \<and> af_tv n))"
proof (cases "check_field nm fp n imm le")
  case (Ok r)
  then show ?thesis
    by (auto simp: check_field_def is_af_def bind_outcome_Ok_iff lift_fault_Ok_iff
      split: field_type.splits if_splits)
qed (use check_field_safe [OF assms, of nm imm le] in auto)

text \<open>The branch for numbers, an immediate attribute value included.\<close>

lemma out_field_num:
  assumes "wf_field fp" "field_type fp \<notin> {ft_zig, ft_raw}" "is_length fp \<longrightarrow> os_immediate st"
    and "take_bit (8 * fd_size fp) w = w"
  shows "out_field sd fp (HNum w) st = bind_outcome
      (if is_length fp then Ok (os_immediate st, os_last_enum st)
       else check_field (sd_name sd) fp w (os_immediate st) (os_last_enum st))
      (\<lambda>(imm, le). emit (st\<lparr>os_immediate := imm, os_last_enum := le\<rparr>) (be_bytes (fd_size fp) w))"
  using assms wf_field_type [OF assms(1)] field_width [OF assms(1)]
  by (cases "field_type fp") (auto simp: out_field_def out_number_def is_length_def Let_def)

lemma out_field_ok:
  assumes "wf_field fp" "host_ok fp h" "os_cur st + fd_size fp \<le> length (os_mem st)"
    and "is_length fp \<longrightarrow> os_lenfld st = None"
  shows "yields (out_field sd fp h st) (emitted st fp h)"
proof -
  let ?bs = "net_field None (os_immediate st) fp h"
  have len: "length ?bs = fd_size fp" using assms(2) by (rule length_net_field)
  consider (raw) "field_type fp \<in> {ft_zig, ft_raw}"
    | (len) "is_length fp" "\<not> os_immediate st"
    | (num) "field_type fp \<notin> {ft_zig, ft_raw}" "is_length fp \<longrightarrow> os_immediate st"
    by auto
  then show ?thesis
  proof cases
    case raw
    then have "out_field sd fp h st = emit st ?bs" "\<not> is_length fp" "\<not> is_af fp"
      using assms(2) by (auto simp: out_field_def net_field_def host_ok_def is_length_def is_af_def
          split: hval.splits)
    then show ?thesis
      using emit_ok [of st ?bs] assms(3) len by (auto simp: emitted_def next_imm_def)
  next
    case len
    then have "out_field sd fp h st = emit (st\<lparr>os_lenfld := Some (os_cur st, fp)\<rparr>) ?bs" "\<not> is_af fp"
      using assms(4) by (auto simp: out_field_def net_field_def is_length_def is_af_def)
    then show ?thesis
      using emit_ok [of "st\<lparr>os_lenfld := Some (os_cur st, fp)\<rparr>" ?bs] assms(3) \<open>length ?bs = _\<close> len
      by (auto simp: emitted_def next_imm_def)
  next
    case num
    then obtain w where w: "h = HNum w" "take_bit (8 * fd_size fp) w = w"
      using assms(2) by (auto simp: host_ok_def split: hval.splits)
    have bs: "?bs = be_bytes (fd_size fp) w" and imm: "next_imm (os_immediate st) fp h = (os_immediate st \<or> is_af fp \<and> af_tv w)"
      using num w by (auto simp: net_field_def next_imm_def)
    let ?chk = "if is_length fp then Ok (os_immediate st, os_last_enum st)
      else check_field (sd_name sd) fp w (os_immediate st) (os_last_enum st)"
    have o: "out_field sd fp h st = bind_outcome ?chk
        (\<lambda>(imm, le). emit (st\<lparr>os_immediate := imm, os_last_enum := le\<rparr>) ?bs)"
      unfolding bs unfolding w(1) by (rule out_field_num [OF assms(1) num w(2)])
    have c: "yields ?chk (\<lambda>(imm, le). imm = next_imm (os_immediate st) fp h)"
      using check_field_ok [OF assms(1) w(2), of "sd_name sd" "os_immediate st" "os_last_enum st"]
        num(2) by (auto simp: imm is_length_def is_af_def)
    have e: "yields (emit (st\<lparr>os_immediate := next_imm (os_immediate st) fp h, os_last_enum := le\<rparr>) ?bs)
        (emitted st fp h)" for le
      using emit_ok [of "st\<lparr>os_immediate := next_imm (os_immediate st) fp h, os_last_enum := le\<rparr>" ?bs]
        assms(3) len num(2) by (auto simp: emitted_def)
    show ?thesis
      unfolding o by (rule yields_bind [OF c]) (use e in \<open>auto split: prod.splits\<close>)
  qed
qed


lemma out_fields_ok:
  assumes "list_all wf_field fps" "list_all2 host_ok fps hs" "field_type e = ft_end" "fd_size e = 0"
    and "os_cur st = pbs_cur outs + os_inp st"
    and "os_inp st + sum_list (map fd_size fps) = sd_size sd"
    and "pbs_cur outs + sd_size sd \<le> pbs_roof outs" "pbs_roof outs \<le> length (os_mem st)"
    and "length (filter is_length fps) \<le> (if os_lenfld st = None then 1 else 0)"
  shows "yields (out_fields sd outs (fps @ [e]) hs st) (\<lambda>st'.
    write_block (os_mem st) (os_cur st) (net_fields None (os_immediate st) fps hs) = Inr (os_mem st') \<and>
    os_cur st' = pbs_cur outs + sd_size sd \<and>
    os_lenfld st' = (case os_lenfld st of
      None \<Rightarrow> lenfld_at (os_immediate st) (os_cur st) fps hs | Some x \<Rightarrow> Some x))"
  using assms
proof (induction fps arbitrary: hs st)
  case Nil
  then show ?case by (auto simp: write_block_def split: option.splits)
next
  case (Cons fp fps)
  then obtain h hs' where hs: "hs = h # hs'" "host_ok fp h" "list_all2 host_ok fps hs'"
    by (auto simp: list_all2_Cons1)
  have fp: "wf_field fp" using Cons.prems(1) by simp
  have room: "os_cur st + fd_size fp \<le> pbs_roof outs"
    using Cons.prems(5-7) by simp
  have fit: "os_cur st + fd_size fp \<le> length (os_mem st)"
    using room Cons.prems(8) by simp
  have one: "is_length fp \<longrightarrow> os_lenfld st = None"
    using Cons.prems(9) by (auto split: if_splits)
  have "yields (bind_outcome (out_field sd fp h st) (out_fields sd outs (fps @ [e]) hs'))
    (\<lambda>st'. write_block (os_mem st) (os_cur st) (net_fields None (os_immediate st) (fp # fps) hs) = Inr (os_mem st') \<and>
    os_cur st' = pbs_cur outs + sd_size sd \<and>
    os_lenfld st' = (case os_lenfld st of
      None \<Rightarrow> lenfld_at (os_immediate st) (os_cur st) (fp # fps) hs | Some x \<Rightarrow> Some x))"
  proof (rule yields_bind [OF out_field_ok [OF fp hs(2) fit one]])
    fix a :: out_state assume a: "emitted st fp h a"
    have len: "length (os_mem a) = length (os_mem st)"
      using a write_block_length by (auto simp: emitted_def)
    have l0: "list_all (\<lambda>fp. \<not> is_length fp) fps" if "is_length fp"
      using that Cons.prems(9) by (auto simp: filter_empty_conv list_all_iff split: if_splits)
    have "yields (out_fields sd outs (fps @ [e]) hs' a) (\<lambda>st'.
      write_block (os_mem a) (os_cur a) (net_fields None (os_immediate a) fps hs') = Inr (os_mem st') \<and>
      os_cur st' = pbs_cur outs + sd_size sd \<and>
      os_lenfld st' = (case os_lenfld a of
        None \<Rightarrow> lenfld_at (os_immediate a) (os_cur a) fps hs' | Some x \<Rightarrow> Some x))"
      using Cons.prems hs a len by (intro Cons.IH) (auto simp: emitted_def split: if_splits)
    then show "yields (out_fields sd outs (fps @ [e]) hs' a)
    (\<lambda>st'. write_block (os_mem st) (os_cur st) (net_fields None (os_immediate st) (fp # fps) hs) = Inr (os_mem st') \<and>
    os_cur st' = pbs_cur outs + sd_size sd \<and>
    os_lenfld st' = (case os_lenfld st of
      None \<Rightarrow> lenfld_at (os_immediate st) (os_cur st) (fp # fps) hs | Some x \<Rightarrow> Some x))"
    proof (rule yields_mono, intro conjI, goal_cases)
      case (1 st')
      with a show ?case
        using write_block_append [of "os_mem st" "os_cur st" "net_field None (os_immediate st) fp h" "os_mem a"]
          length_net_field [OF hs(2)] hs(1) by (simp add: emitted_def)
    next
      case (3 st')
      with a one l0 show ?case
        by (cases "is_length fp \<and> \<not> os_immediate st"; cases "os_lenfld st")
          (auto simp: emitted_def hs(1))
    qed simp
  qed
  then show ?case
    using room Cons.prems(5,6) wf_field_type [OF fp] hs(1) by simp
qed


definition out_start :: "memory \<Rightarrow> pb_stream \<Rightarrow> out_state" where
  "out_start mem outs = \<lparr>os_mem = mem, os_cur = pbs_cur outs, os_inp = 0, os_lenfld = None,
           os_immediate = False, os_last_enum = 0\<rparr>"

lemma out_fields_start:
  assumes "wf_desc sd" "wf_pbs mem outs" "list_all2 host_ok (butlast (sd_fields sd)) hs"
    and "pbs_cur outs + sd_size sd \<le> pbs_roof outs"
  shows "yields (out_fields sd outs (sd_fields sd) hs (out_start mem outs)) (\<lambda>st'.
    write_block mem (pbs_cur outs) (net_fields None False (butlast (sd_fields sd)) hs) = Inr (os_mem st') \<and>
    os_cur st' = pbs_cur outs + sd_size sd \<and>
    os_lenfld st' = lenfld_at False (pbs_cur outs) (butlast (sd_fields sd)) hs)"
proof -
  obtain fps where fps: "sd_fields sd = fps @ [Field ft_end 0 None No_desc]" "list_all wf_field fps"
    "sum_list (map fd_size fps) = sd_size sd" "length (filter is_length fps) \<le> 1"
    using wf_desc_fields [OF assms(1)] by metis
  with assms(2-4) out_fields_ok [OF fps(2), of hs "Field ft_end 0 None No_desc" "out_start mem outs" outs sd]
  show ?thesis by (simp add: out_start_def wf_pbs_def)
qed

lemma out_struct_keep_ok:
  assumes "wf_desc sd" "wf_pbs mem outs" "list_all2 host_ok (butlast (sd_fields sd)) hs"
  shows "yields (out_struct mem hs sd outs True) (\<lambda>(mem', outs', obj).
    write_block mem (pbs_cur outs) (net_fields None False (butlast (sd_fields sd)) hs) = Inr mem' \<and>
    outs' = outs\<lparr>pbs_cur := pbs_roof outs\<rparr> \<and>
    obj = Some \<lparr>pbs_desc = Some sd, pbs_name = sd_name sd, pbs_start = pbs_cur outs,
      pbs_cur = pbs_cur outs + sd_size sd, pbs_roof = pbs_roof outs,
      pbs_lenfld = lenfld_at False (pbs_cur outs) (butlast (sd_fields sd)) hs\<rparr> \<and>
    pbs_cur outs + sd_size sd \<le> pbs_roof outs)"
proof (cases "int (pbs_roof outs) - int (pbs_cur outs) < int (sd_size sd)")
  case False
  then have room: "pbs_cur outs + sd_size sd \<le> pbs_roof outs" by simp
  from False out_fields_start [OF assms room] room show ?thesis
    unfolding out_struct_def out_start_def by (auto elim!: yields_bind)
qed (simp add: out_struct_def)

lemma net_field_no_len: "\<not> (is_length fp \<and> \<not> imm) \<Longrightarrow> net_field l imm fp h = net_field l' imm fp h"
  by (auto simp: net_field_def)

lemma net_fields_no_len:
  "lenfld_at imm off fps hs = None \<Longrightarrow> net_fields l imm fps hs = net_fields l' imm fps hs"
proof (induction imm off fps hs rule: lenfld_at.induct)
  case (1 imm off fp fps h hs)
  then show ?case
    using net_field_no_len [of fp imm l h l'] by (auto split: if_splits)
qed auto

lemma net_fields_patch:
  assumes "list_all2 host_ok fps hs" "length (filter is_length fps) \<le> 1"
    and "list_all wf_field fps" "lenfld_at imm off fps hs = Some (p, fp)"
  shows "\<exists>pre post. net_fields None imm fps hs = pre @ replicate (fd_size fp) 0xFA @ post \<and>
    net_fields (Some l) imm fps hs = pre @ be_bytes (fd_size fp) (net_length fp l) @ post \<and>
    p = off + length pre"
  using assms
proof (induction fps hs arbitrary: imm off rule: list_all2_induct)
  case (Cons f fps h hs)
  show ?case
  proof (cases "is_length f \<and> \<not> imm")
    case True
    then have "list_all (\<lambda>fp. \<not> is_length fp) fps"
      using Cons.prems(1) by (auto simp: filter_empty_conv list_all_iff)
    then have "net_fields None (next_imm imm f h) fps hs = net_fields (Some l) (next_imm imm f h) fps hs"
      by (intro net_fields_no_len [of _ 0] lenfld_at_None)
    moreover have "f = fp" "p = off" "field_type f \<noteq> ft_zig" using True Cons.prems(3)
      by (auto simp: is_length_def)
    ultimately show ?thesis
      using True by (intro exI [of _ "[]"] exI [of _ "net_fields None (next_imm imm f h) fps hs"])
        (auto simp: net_field_def)
  next
    case False
    then have "lenfld_at (next_imm imm f h) (off + fd_size f) fps hs = Some (p, fp)"
      using Cons.prems(3) by auto
    moreover have "length (filter is_length fps) \<le> 1" "list_all wf_field fps"
      using Cons.prems by (auto split: if_splits)
    ultimately obtain pre post where
      "net_fields None (next_imm imm f h) fps hs = pre @ replicate (fd_size fp) 0xFA @ post"
      "net_fields (Some l) (next_imm imm f h) fps hs = pre @ be_bytes (fd_size fp) (net_length fp l) @ post"
      "p = off + fd_size f + length pre"
      using Cons.IH by metis
    with net_field_no_len [OF False, of None h "Some l"] length_net_field [OF Cons.hyps(1)]
    show ?thesis
      by (intro exI [of _ "net_field None imm f h @ pre"] exI [of _ post]) simp
  qed
qed simp

text \<open>
  Closing the stream of a structure turns the filler of its length field into the length.
\<close>

lemma close_struct:
  assumes "wf_desc sd" "list_all2 host_ok (butlast (sd_fields sd)) hs"
    and w: "write_block mem a (net_fields None False (butlast (sd_fields sd)) hs @ bs) = Inr m1"
    and obj: "pbs_start obj = a" "pbs_cur obj = a + sd_size sd + length bs"
      "pbs_lenfld obj = lenfld_at False a (butlast (sd_fields sd)) hs"
  shows "\<exists>m2. close_output_pbs m1 obj c = Inr (m2, map_option (\<lambda>c. c\<lparr>pbs_cur := pbs_cur obj\<rparr>) c) \<and>
    write_block mem a (net_fields (Some (of_nat (sd_size sd + length bs))) False
      (butlast (sd_fields sd)) hs @ bs) = Inr m2"
proof (cases "lenfld_at False a (butlast (sd_fields sd)) hs")
  case None
  with net_fields_no_len [OF None, of None "Some (of_nat (sd_size sd + length bs))"] w obj
  show ?thesis by (simp add: close_output_pbs_def)
next
  case (Some pf)
  obtain p fp where pf: "pf = (p, fp)" by force
  have wf: "length (filter is_length (butlast (sd_fields sd))) \<le> 1"
    "list_all wf_field (butlast (sd_fields sd))"
    using assms(1) by (auto simp: wf_desc_def Let_def)
  let ?l = "of_nat (sd_size sd + length bs) :: u32"
  let ?q = "be_bytes (fd_size fp) (net_length fp ?l)"
  obtain pre post where pp:
    "net_fields None False (butlast (sd_fields sd)) hs = pre @ replicate (fd_size fp) 0xFA @ post"
    "net_fields (Some ?l) False (butlast (sd_fields sd)) hs = pre @ ?q @ post"
    "p = a + length pre"
    using net_fields_patch [OF assms(2) wf] Some pf by metis
  have "a + length pre + fd_size fp \<le> length m1"
    using w write_block_length [OF w] by (auto simp: pp write_block_def split: if_splits)
  then obtain m2 where m2: "write_block m1 (a + length pre) ?q = Inr m2"
    using write_block_total [of "a + length pre" ?q m1] by auto
  have "write_block mem a (pre @ ?q @ post @ bs) = Inr m2"
    using write_block_patch [OF _ m2, of mem "replicate (fd_size fp) 0xFA" "post @ bs"] w
    by (simp add: pp)
  moreover have "pbs_offset obj = sd_size sd + length bs"
    using obj by (simp add: pbs_offset_def size_diff_def)
  ultimately show ?thesis
    using m2 obj Some pf pp by (auto simp: close_output_pbs_def Let_def net_length_def)
qed

text \<open>
  A structure with its variable part: the three calls of every emitter of the daemon.
\<close>

lemma emit_struct_image:
  assumes "wf_desc sd" "wf_pbs mem outs" "list_all2 host_ok (butlast (sd_fields sd)) hs"
    and o: "out_struct mem hs sd outs True = Ok (m1, outs1, Some obj)"
    and r: "out_raw m1 bs obj = Ok (m2, obj2)"
  shows "\<exists>m3. close_output_pbs m2 obj2 (Some outs1) =
        Inr (m3, Some (outs\<lparr>pbs_cur := pbs_cur outs + sd_size sd + length bs\<rparr>)) \<and>
      write_block mem (pbs_cur outs) (net_fields (Some (of_nat (sd_size sd + length bs))) False
        (butlast (sd_fields sd)) hs @ bs) = Inr m3 \<and>
      pbs_cur outs + sd_size sd + length bs \<le> pbs_roof outs"
proof -
  let ?a = "pbs_cur outs" and ?fs = "butlast (sd_fields sd)"
  note k = yields_Ok [OF out_struct_keep_ok [OF assms(1-3)] o, simplified]
  have len: "length (net_fields None False ?fs hs) = sd_size sd"
    using length_net_fields [OF assms(3)] assms(1) by (simp add: wf_desc_def Let_def)
  have "write_block m1 (?a + sd_size sd) bs = Inr m2"
    and o2: "obj2 = obj\<lparr>pbs_cur := ?a + sd_size sd + length bs\<rparr>"
    and le: "?a + sd_size sd + length bs \<le> pbs_roof outs"
    using r k by (auto simp: out_raw_def lift_fault_Ok_iff pbs_left_def size_diff_def
        split: if_splits)
  then have "write_block mem ?a (net_fields None False ?fs hs @ bs) = Inr m2"
    using write_block_append k len by metis
  from close_struct [OF assms(1,3) this, of obj2 "Some outs1"] o2 k le show ?thesis by auto
qed

section \<open>Parsing what was emitted\<close>

text \<open>The structure a parse returns: the emitted one with reserved bytes and length filled in.\<close>

definition canon_field :: "u32 \<Rightarrow> bool \<Rightarrow> field_desc \<Rightarrow> hval \<Rightarrow> hval" where
  "canon_field len imm fp h =
     (if field_type fp = ft_zig then HRaw (replicate (fd_size fp) 0)
      else if is_length fp \<and> \<not> imm then HNum (net_length fp len) else h)"

fun canon_fields :: "u32 \<Rightarrow> bool \<Rightarrow> field_desc list \<Rightarrow> hval list \<Rightarrow> hval list" where
  "canon_fields len imm (fp # fps) (h # hs) =
     canon_field len imm fp h # canon_fields len (next_imm imm fp h) fps hs"
| "canon_fields len imm _ _ = []"

text \<open>The length fits its field and the input stream.\<close>

definition length_fits :: "struct_desc \<Rightarrow> pb_stream \<Rightarrow> u32 \<Rightarrow> bool" where
  "length_fits sd ins len \<longleftrightarrow>
     sd_size sd \<le> unat len \<and> pbs_cur ins + unat len \<le> pbs_roof ins \<and>
     list_all (\<lambda>fp. is_length fp \<longrightarrow>
       take_bit (8 * fd_size fp) (net_length fp len) = net_length fp len) (butlast (sd_fields sd))"

definition synced :: "in_state \<Rightarrow> out_state \<Rightarrow> bool" where
  "synced si so \<longleftrightarrow> is_immediate si = os_immediate so \<and> is_last_enum si = os_last_enum so"

lemma in_field_net:
  assumes sd: "sd_size sd < 2 ^ 16" "field_type fp = ft_lv \<longrightarrow> sd_size sd = 4"
      "field_type fp = ft_len \<longrightarrow> \<not> os_immediate so"
    and fp: "wf_field fp" "host_ok fp h" "out_field sd fp h so = Ok so'" "synced si so"
    and mem: "read_block m (is_cur si) (fd_size fp) = Inr (net_field (Some l) (os_immediate so) fp h)"
    and l: "sd_size sd \<le> unat l" "unat l \<le> pbs_left ins"
      "is_length fp \<longrightarrow> take_bit (8 * fd_size fp) (net_length fp l) = net_length fp l"
  shows "\<exists>si'. in_field m sd ins fp si = Ok si' \<and> synced si' so' \<and>
    is_cur si' = is_cur si + fd_size fp \<and> is_outp si' = is_outp si + fd_size fp \<and>
    is_host si' = is_host si @ [canon_field l (os_immediate so) fp h] \<and>
    is_roof si' = (if is_length fp
      then pbs_cur ins + (if os_immediate so then sd_size sd else unat l) else is_roof si)"
proof -
  note types = wf_field_type [OF fp(1)]
  have size: "unat (of_nat (sd_size sd) :: u32) = sd_size sd"
    using sd(1) by (simp add: unat_of_nat take_bit_nat_eq_self)
  consider (raw) "field_type fp \<in> {ft_zig, ft_raw}"
    | (len) "is_length fp" "\<not> os_immediate so" "field_type fp \<notin> {ft_zig, ft_raw}"
    | (num) "field_type fp \<notin> {ft_zig, ft_raw}" "is_length fp \<longrightarrow> os_immediate so"
    by auto
  then show ?thesis
  proof cases
    case raw
    with fp show ?thesis
      by (auto simp: in_field_def mem deposit_def canon_field_def net_field_def is_length_def
          synced_def out_field_def emit_def host_ok_def lift_fault_Ok_iff split: hval.splits if_splits)
  next
    case len
    then have "in_field m sd ins fp si = in_number sd ins fp (net_length fp l) si"
      using types l(3) by (auto simp: in_field_def mem net_field_def)
    moreover have "in_length sd ins fp (net_length fp l) False = Ok (pbs_cur ins + unat l)"
      using len l sd by (auto simp: in_length_def net_length_def is_length_def Let_def)
    moreover have "synced si so'"
      using len fp(3,4)
      by (auto simp: out_field_def is_length_def synced_def emit_def lift_fault_Ok_iff split: if_splits)
    ultimately show ?thesis
      using len fp(4) field_width [OF fp(1) len(3)]
      by (auto simp: in_number_def deposit_def canon_field_def synced_def is_length_def)
  next
    case num
    then obtain w where w: "h = HNum w" "take_bit (8 * fd_size fp) w = w"
      using fp(2) by (auto simp: host_ok_def split: hval.splits)
    have in_eq: "in_field m sd ins fp si = in_number sd ins fp w si"
      using num types w by (auto simp: in_field_def mem net_field_def)
    have out: "bind_outcome
      (if is_length fp then Ok (os_immediate so, os_last_enum so)
       else check_field (sd_name sd) fp w (os_immediate so) (os_last_enum so))
      (\<lambda>(imm, le). emit (so\<lparr>os_immediate := imm, os_last_enum := le\<rparr>) (be_bytes (fd_size fp) w)) = Ok so'"
      using fp(3) out_field_num [OF fp(1) num w(2)] by (simp add: w(1))
    have canon: "canon_field l (os_immediate so) fp h = HNum w"
      using num w by (auto simp: canon_field_def)
    show ?thesis
    proof (cases "is_length fp")
      case True
      then have "in_length sd ins fp w True = Ok (pbs_cur ins + sd_size sd)"
        using num sd(2,3) l size by (auto simp: in_length_def is_length_def Let_def)
      then show ?thesis
        using True num fp(4) field_width [OF fp(1) num(1)] in_eq canon out
        by (auto simp: in_number_def deposit_def synced_def is_length_def emit_def lift_fault_Ok_iff)
    next
      case False
      with out obtain imm le where chk:
        "check_field (sd_name sd) fp w (os_immediate so) (os_last_enum so) = Ok (imm, le)"
        "os_immediate so' = imm" "os_last_enum so' = le"
        by (auto simp: bind_outcome_Ok_iff emit_def lift_fault_Ok_iff)
      with False show ?thesis
        using num fp(4) field_width [OF fp(1) num(1)] in_eq canon
        by (auto simp: in_number_def deposit_def synced_def is_length_def)
    qed
  qed
qed

lemma out_field_imm:
  assumes "wf_field fp" "host_ok fp h" "out_field sd fp h so = Ok so'"
  shows "os_immediate so' = next_imm (os_immediate so) fp h"
proof (cases "field_type fp \<in> {ft_zig, ft_raw} \<or> is_length fp \<and> \<not> os_immediate so")
  case True
  then have "\<not> is_af fp" by (auto simp: is_af_def is_length_def)
  with True assms(3) show ?thesis
    by (auto simp: out_field_def emit_def lift_fault_Ok_iff next_imm_def is_length_def
        split: hval.splits if_splits)
next
  case False
  then obtain w where w: "h = HNum w" "take_bit (8 * fd_size fp) w = w"
    using assms(2) by (auto simp: host_ok_def split: hval.splits)
  have num: "field_type fp \<notin> {ft_zig, ft_raw}" "is_length fp \<longrightarrow> os_immediate so"
    using False by auto
  have "\<not> (is_length fp \<and> is_af fp)" by (auto simp: is_af_def is_length_def)
  with assms(3) check_field_ok [OF assms(1) w(2), of "sd_name sd" "os_immediate so" "os_last_enum so"] num(2)
  show ?thesis
    unfolding w(1) out_field_num [OF assms(1) num w(2)]
    by (auto simp: bind_outcome_Ok_iff emit_def lift_fault_Ok_iff next_imm_def w split: if_splits)
qed

lemma in_fields_net:
  assumes "sd_size sd < 2 ^ 16" "field_type e = ft_end" "fd_size e = 0"
    and "sd_size sd \<le> unat l" "pbs_cur ins + unat l \<le> pbs_roof ins"
    and "list_all wf_field fps" "list_all2 host_ok fps hs"
    and "out_fields sd outs (fps @ [e]) hs so = Ok so'" "synced si so"
    and "is_cur si = pbs_cur ins + is_outp si"
    and "is_outp si + sum_list (map fd_size fps) = sd_size sd"
    and "read_block m (is_cur si) (sum_list (map fd_size fps)) = Inr (net_fields (Some l) (os_immediate so) fps hs)"
    and "list_all (\<lambda>fp. is_length fp \<longrightarrow>
       take_bit (8 * fd_size fp) (net_length fp l) = net_length fp l) fps"
    and "list_ex (\<lambda>fp. field_type fp = ft_lv) fps \<longrightarrow> sd_size sd = 4"
    and "list_ex (\<lambda>fp. field_type fp = ft_len) fps \<longrightarrow> \<not> os_immediate so \<and> \<not> list_ex is_af fps"
    and "length (filter is_length fps) \<le> 1"
  shows "\<exists>si'. in_fields m sd ins (fps @ [e]) si = Ok si' \<and>
    is_host si' = is_host si @ canon_fields l (os_immediate so) fps hs \<and>
    is_cur si' = pbs_cur ins + sd_size sd \<and>
    is_roof si' = (if lenfld_at (os_immediate so) off fps hs \<noteq> None then pbs_cur ins + unat l
       else if list_ex is_length fps then pbs_cur ins + sd_size sd else is_roof si)"
  using assms(6-)
proof (induction fps arbitrary: hs so si off)
  case Nil
  then show ?case using assms(2-5) by auto
next
  case (Cons fp fps)
  then obtain h hs' where hs: "hs = h # hs'" "host_ok fp h" "list_all2 host_ok fps hs'"
    by (auto simp: list_all2_Cons1)
  have fp: "wf_field fp" using Cons.prems(1) by simp
  obtain so1 where so1: "out_field sd fp h so = Ok so1" "out_fields sd outs (fps @ [e]) hs' so1 = Ok so'"
    using Cons.prems(3) wf_field_type [OF fp] by (auto simp: hs(1) bind_outcome_Ok_iff split: if_splits)
  have imm: "os_immediate so1 = next_imm (os_immediate so) fp h"
    by (rule out_field_imm [OF fp hs(2) so1(1)])
  have rd: "read_block m (is_cur si) (fd_size fp) = Inr (net_field (Some l) (os_immediate so) fp h)"
    "read_block m (is_cur si + fd_size fp) (sum_list (map fd_size fps)) =
       Inr (net_fields (Some l) (os_immediate so1) fps hs')"
    using Cons.prems(7) read_block_prefix [of m "is_cur si" "fd_size fp"]
      read_block_suffix [of m "is_cur si" "fd_size fp"] length_net_field [OF hs(2)]
    by (simp_all add: hs(1) imm)
  have left: "unat l \<le> pbs_left ins" using assms(5) by (simp add: pbs_left_def size_diff_def)
  obtain si1 where si1: "in_field m sd ins fp si = Ok si1" "synced si1 so1"
      "is_cur si1 = is_cur si + fd_size fp" "is_outp si1 = is_outp si + fd_size fp"
      "is_host si1 = is_host si @ [canon_field l (os_immediate so) fp h]"
      "is_roof si1 = (if is_length fp
        then pbs_cur ins + (if os_immediate so then sd_size sd else unat l) else is_roof si)"
    using in_field_net [OF assms(1) _ _ fp hs(2) so1(1) Cons.prems(4) rd(1) assms(4) left]
      Cons.prems(8-10) by auto
  have step: "in_fields m sd ins ((fp # fps) @ [e]) si = in_fields m sd ins (fps @ [e]) si1"
    using Cons.prems(5,6) assms(4,5) wf_field_type [OF fp] si1(1) by simp
  have "\<exists>si'. in_fields m sd ins (fps @ [e]) si1 = Ok si' \<and>
    is_host si' = is_host si1 @ canon_fields l (os_immediate so1) fps hs' \<and>
    is_cur si' = pbs_cur ins + sd_size sd \<and>
    is_roof si' = (if lenfld_at (os_immediate so1) (off + fd_size fp) fps hs' \<noteq> None then pbs_cur ins + unat l
       else if list_ex is_length fps then pbs_cur ins + sd_size sd else is_roof si1)"
    by (rule Cons.IH) (use Cons.prems hs so1 si1 rd(2) imm in
        \<open>auto simp: next_imm_def split: if_splits\<close>)
  moreover have "\<not> list_ex is_length fps" if "is_length fp"
    using Cons.prems(11) that by (auto simp: filter_empty_conv list_ex_iff)
  moreover have "lenfld_at i o1 fps hs' = None" if "is_length fp" for i o1
    using Cons.prems(11) that by (intro lenfld_at_None) (auto simp: filter_empty_conv list_all_iff)
  ultimately show ?case
    unfolding step using si1(5,6) imm by (auto simp: hs(1) split: if_splits)
qed

lemma lenfld_at_member: "lenfld_at imm off fps hs = Some (p, fp) \<Longrightarrow> fp \<in> set fps \<and> is_length fp"
  by (induction imm off fps hs rule: lenfld_at.induct) (auto split: if_splits)

lemma lenfld_at_ft_len:
  assumes "list_all2 host_ok fps hs" "lenfld_at imm off fps hs = None" "\<not> imm" "\<not> list_ex is_af fps"
  shows "list_all (\<lambda>fp. \<not> is_length fp) fps"
  using assms
  by (induction fps hs arbitrary: imm off rule: list_all2_induct)
    (auto simp: next_imm_def split: if_splits)

definition payload_fits :: "struct_desc \<Rightarrow> pb_stream \<Rightarrow> nat \<Rightarrow> bool" where
  "payload_fits sd obj n \<longleftrightarrow>
     (case pbs_lenfld obj of None \<Rightarrow> n = 0 | Some (_, fp) \<Rightarrow> sd_size sd + n < 2 ^ (8 * fd_size fp))"

lemma unique_length:
  assumes "length (filter is_length fps) \<le> 1" "fp \<in> set fps" "is_length fp" "f \<in> set fps" "is_length f"
  shows "f = fp"
proof -
  have "fp \<in> set (filter is_length fps)" "f \<in> set (filter is_length fps)" using assms by auto
  with assms(1) show ?thesis by (cases "filter is_length fps") auto
qed

lemma payload_fits_u32:
  assumes "wf_desc sd" "pbs_lenfld obj = lenfld_at False a (butlast (sd_fields sd)) hs"
    and "payload_fits sd obj n"
  shows "unat (of_nat (sd_size sd + n) :: u32) = sd_size sd + n"
proof -
  have d: "list_all wf_field (butlast (sd_fields sd))" "sd_size sd < 2 ^ 16"
    using assms(1) by (auto simp: wf_desc_def Let_def)
  have "sd_size sd + n < 2 ^ 32"
  proof (cases "pbs_lenfld obj")
    case None
    with assms(3) d(2) show ?thesis by (simp add: payload_fits_def)
  next
    case (Some x)
    obtain p fp where x: "x = (p, fp)" by force
    have "fp \<in> set (butlast (sd_fields sd)) \<and> is_length fp"
      using lenfld_at_member Some x assms(2) by metis
    then have "fd_size fp \<in> {1, 2, 4}"
      using d(1) by (intro field_width) (auto simp: list_all_iff is_length_def)
    with assms(3) Some x show ?thesis by (auto simp: payload_fits_def)
  qed
  then show ?thesis by (simp only: unat_of_nat) (simp add: take_bit_nat_eq_self)
qed

lemma length_field_fits:
  assumes "wf_desc sd" "list_all2 host_ok (butlast (sd_fields sd)) hs"
    and "pbs_lenfld obj = lenfld_at False a (butlast (sd_fields sd)) hs" "payload_fits sd obj n"
    and "f \<in> set (butlast (sd_fields sd))" "is_length f"
  shows "take_bit (8 * fd_size f) (net_length f (of_nat (sd_size sd + n))) = net_length f (of_nat (sd_size sd + n))"
proof -
  let ?fps = "butlast (sd_fields sd)"
  have d: "list_all wf_field ?fps" "length (filter is_length ?fps) \<le> 1"
      "list_ex (\<lambda>fp. field_type fp = ft_lv) ?fps \<longrightarrow> sd_size sd = 4"
      "list_ex (\<lambda>fp. field_type fp = ft_len) ?fps \<longrightarrow> \<not> list_ex is_af ?fps" "sd_size sd < 2 ^ 16"
    using assms(1) by (auto simp: wf_desc_def Let_def)
  have sz: "fd_size f \<in> {1, 2, 4}"
    using d(1) assms(5,6) by (intro field_width) (auto simp: list_all_iff is_length_def)
  have bound: "sd_size sd + n < 2 ^ (8 * fd_size f) \<or> sd_size sd = 4 \<and> n = 0 \<and> field_type f = ft_lv"
  proof (cases "lenfld_at False a ?fps hs")
    case None
    have "field_type f \<noteq> ft_len"
      using lenfld_at_ft_len [OF assms(2) None] d(4) assms(5,6) by (auto simp: list_ex_iff list_all_iff)
    with assms(3,4,5,6) None d(3) show ?thesis by (auto simp: payload_fits_def list_ex_iff is_length_def)
  next
    case (Some x)
    obtain p fp where x: "x = (p, fp)" by force
    have "f = fp"
      using unique_length [OF d(2)] lenfld_at_member [OF Some [unfolded x]] assms(5,6) by blast
    with Some x assms(3,4) show ?thesis by (simp add: payload_fits_def)
  qed
  note u = payload_fits_u32 [OF assms(1,3,4)]
  let ?l = "of_nat (sd_size sd + n) :: u32"
  have lv: "unat (net_length f ?l) \<le> n" if "field_type f = ft_lv"
  proof -
    have "sd_size sd = 4" using that d(3) assms(5) by (auto simp: list_ex_iff)
    then have "net_length f ?l = of_nat n" using that by (simp add: net_length_def)
    then show ?thesis by (simp add: unat_of_nat)
  qed
  have "unat (net_length f ?l) \<le> sd_size sd + n"
    using lv u by (cases "field_type f = ft_lv") (auto simp: net_length_def)
  then have "unat (net_length f ?l) < 2 ^ (8 * fd_size f)"
    using bound lv by (elim disjE) auto
  then show "take_bit (8 * fd_size f) (net_length f ?l) = net_length f ?l"
    by (simp only: word_unat_eq_iff unsigned_take_bit_eq take_bit_nat_eq_self)
qed

lemma struct_roundtrip:
  assumes sd: "wf_desc sd" and outs: "wf_pbs mem outs"
    and hs: "list_all2 host_ok (butlast (sd_fields sd)) hs"
    and out: "out_struct mem hs sd outs True = Ok (m1, outs1, Some obj)" "out_raw m1 bs obj = Ok (m2, obj2)"
      "close_output_pbs m2 obj2 (Some outs1) = Inr (m3, Some outs2)" "payload_fits sd obj (length bs)"
    and ins: "wf_pbs m3 ins" "pbs_cur ins = pbs_cur outs" "pbs_cur outs2 \<le> pbs_roof ins"
  shows "\<exists>obj'. in_struct m3 sd ins =
      Ok (canon_fields (of_nat (sd_size sd + length bs)) False (butlast (sd_fields sd)) hs,
          ins\<lparr>pbs_cur := pbs_cur outs2\<rparr>, obj') \<and>
    in_raw m3 (pbs_left obj') obj' = Ok (bs, obj'\<lparr>pbs_cur := pbs_roof obj'\<rparr>)"
proof -
  let ?fps = "butlast (sd_fields sd)" and ?a = "pbs_cur outs" and ?n = "sd_size sd + length bs"
  let ?l = "of_nat ?n :: u32" and ?e = "Field ft_end 0 None No_desc"
  have d1: "?fps @ [?e] = sd_fields sd"
    using sd append_butlast_last_id [of "sd_fields sd"] by (simp add: wf_desc_def)
  have d: "list_all wf_field ?fps" "sum_list (map fd_size ?fps) = sd_size sd"
      "length (filter is_length ?fps) \<le> 1" "list_ex (\<lambda>fp. field_type fp = ft_lv) ?fps \<longrightarrow> sd_size sd = 4"
      "list_ex (\<lambda>fp. field_type fp = ft_len) ?fps \<longrightarrow> \<not> list_ex is_af ?fps" "sd_size sd < 2 ^ 16"
    using sd by (simp_all add: wf_desc_def Let_def)
  note k = yields_Ok [OF out_struct_keep_ok [OF sd outs hs] out(1), simplified]
  have o2: "outs2 = outs\<lparr>pbs_cur := ?a + ?n\<rparr>"
    and w: "write_block mem ?a (net_fields (Some ?l) False ?fps hs @ bs) = Inr m3"
    using emit_struct_image [OF sd outs hs out(1,2)] out(3) by (auto simp: add.assoc)
  have len: "length (net_fields (Some ?l) False ?fps hs) = sd_size sd"
    using length_net_fields [OF hs] d(2) by simp
  have lf: "pbs_lenfld obj = lenfld_at False ?a ?fps hs" using k by simp
  note u = payload_fits_u32 [OF sd lf out(4)]
  obtain so' where so': "out_fields sd outs (?fps @ [?e]) hs (out_start mem outs) = Ok so'"
    using out(1) unfolding d1
    by (auto simp: out_struct_def out_start_def bind_outcome_Ok_iff split: if_splits)
  let ?si = "\<lparr>is_cur = pbs_cur ins, is_roof = pbs_cur ins + sd_size sd, is_outp = 0,
     is_host = [], is_immediate = False, is_last_enum = 0\<rparr>"
  have whole: "read_block m3 ?a ?n = Inr (net_fields (Some ?l) False ?fps hs @ bs)"
    using write_block_read [OF w] len by simp
  have rd: "read_block m3 ?a (sd_size sd) = Inr (net_fields (Some ?l) False ?fps hs)"
    and rdp: "read_block m3 (?a + sd_size sd) (length bs) = Inr bs"
    using read_block_prefix [OF whole] read_block_suffix [OF whole] len by simp_all
  have room: "?a + ?n \<le> pbs_roof ins" using ins o2 by simp
  have "\<exists>si'. in_fields m3 sd ins (?fps @ [?e]) ?si = Ok si' \<and>
    is_host si' = is_host ?si @ canon_fields ?l (os_immediate (out_start mem outs)) ?fps hs \<and>
    is_cur si' = pbs_cur ins + sd_size sd \<and>
    is_roof si' = (if lenfld_at (os_immediate (out_start mem outs)) ?a ?fps hs \<noteq> None then pbs_cur ins + unat ?l
       else if list_ex is_length ?fps then pbs_cur ins + sd_size sd else is_roof ?si)"
    by (rule in_fields_net [OF d(6) _ _ _ _ d(1) hs so'])
      (use d(2-5) rd ins room u length_field_fits [OF sd hs lf out(4)] in
        \<open>auto simp: synced_def out_start_def list_all_iff\<close>)
  then obtain si' where si': "in_fields m3 sd ins (?fps @ [?e]) ?si = Ok si'"
      "is_host si' = canon_fields ?l False ?fps hs" "is_cur si' = ?a + sd_size sd"
      "is_roof si' = (if lenfld_at False ?a ?fps hs \<noteq> None then ?a + ?n else ?a + sd_size sd)"
    using u ins(2) by (auto simp: out_start_def split: if_splits)
  have "is_roof si' = ?a + ?n"
    using si'(4) lf out(4) by (cases "lenfld_at False ?a ?fps hs") (auto simp: payload_fits_def)
  moreover have "in_fields m3 sd ins (sd_fields sd) ?si = Ok si'"
    using si'(1) unfolding d1 .
  ultimately show ?thesis
    using si'(2,3) room ins(2) o2 rdp
    by (simp add: in_struct_def init_pbs_def in_raw_def pbs_left_def size_diff_def)
qed

section \<open>When emitting succeeds\<close>

text \<open>
  What the members of a structure have to be, member by member: the value of an enumeration has a
  name; a value whose table is chosen by another member finds a table under the last enumeration
  before it; every member of a bit set has a name. Nothing is asked of other fields.
\<close>

definition field_allows :: "field_desc \<Rightarrow> u32 \<Rightarrow> u32 \<Rightarrow> bool" where
  "field_allows fp sel w \<longleftrightarrow>
     (field_type fp \<in> {ft_enum, ft_af_enum} \<longrightarrow>
        (\<exists>ed name. fd_desc fp = Enum_desc ed \<and> enum_name ed (ucast w) = Inr (Some name))) \<and>
     (field_type fp = ft_loose_enum_enum \<longrightarrow>
        (\<exists>een. fd_desc fp = Enum_enum_desc een \<and> een_first een \<le> ucast sel \<and> ucast sel \<le> een_last een \<and>
           een_enum_name een ! unat (ucast sel - een_first een) \<noteq> None)) \<and>
     (field_type fp = ft_set \<longrightarrow>
        (\<exists>table. fd_desc fp = Set_desc table \<and> (\<forall>b. bit w b \<longrightarrow> set_named table b)))"

definition selects :: "field_desc \<Rightarrow> bool" where
  "selects fp \<longleftrightarrow> field_type fp \<in> {ft_enum, ft_af_enum, ft_loose_enum}"

text \<open>The last enumeration before the member with number \<open>i\<close>, zero if there is none.\<close>

definition selector :: "u32 \<Rightarrow> field_desc list \<Rightarrow> hval list \<Rightarrow> nat \<Rightarrow> u32" where
  "selector start fps hs i = last (start # [w. (fp, HNum w) \<leftarrow> zip (take i fps) hs, selects fp])"

definition members_allowed :: "field_desc list \<Rightarrow> hval list \<Rightarrow> bool" where
  "members_allowed fps hs \<longleftrightarrow>
     (\<forall>i w. i < length hs \<and> hs ! i = HNum w \<longrightarrow> field_allows (fps ! i) (selector 0 fps hs i) w)"

text \<open>The checks of the code, one field after the other.\<close>

fun accepts :: "string \<Rightarrow> bool \<Rightarrow> u32 \<Rightarrow> field_desc list \<Rightarrow> hval list \<Rightarrow> bool" where
  "accepts nm imm le (fp # fps) (HNum w # hs) \<longleftrightarrow>
     (if is_length fp then accepts nm imm le fps hs
      else case check_field nm fp w imm le of
        Ok (imm', le') \<Rightarrow> accepts nm imm' le' fps hs | _ \<Rightarrow> False)"
| "accepts nm imm le (fp # fps) (HRaw bs # hs) \<longleftrightarrow> accepts nm imm le fps hs"
| "accepts nm imm le _ _ \<longleftrightarrow> True"

lemma out_field_accepts:
  assumes "wf_field fp" "host_ok fp h" "os_cur st + fd_size fp \<le> length (os_mem st)"
    and "is_length fp \<longrightarrow> os_lenfld st = None"
  shows "accepts (sd_name sd) (os_immediate st) (os_last_enum st) (fp # fps) (h # hs) \<longleftrightarrow>
    (\<exists>st'. out_field sd fp h st = Ok st' \<and> accepts (sd_name sd) (os_immediate st') (os_last_enum st') fps hs)"
proof (cases h)
  case (HRaw bs)
  then have "out_field sd fp h st = emit st (net_field None (os_immediate st) fp h)" "field_type fp \<in> {ft_zig, ft_raw}"
    using assms(2) by (auto simp: out_field_def net_field_def host_ok_def is_length_def)
  then show ?thesis
    using emit_ok [of st "net_field None (os_immediate st) fp h"] assms(3) length_net_field [OF assms(2)] HRaw
    by auto
next
  case (HNum w)
  then have num: "field_type fp \<notin> {ft_zig, ft_raw}" "take_bit (8 * fd_size fp) w = w"
    using assms(2) by (auto simp: host_ok_def)
  show ?thesis
  proof (cases "is_length fp \<and> \<not> os_immediate st")
    case True
    then have "out_field sd fp h st = emit (st\<lparr>os_lenfld := Some (os_cur st, fp)\<rparr>) (replicate (fd_size fp) 0xFA)"
      using assms(4) by (auto simp: out_field_def is_length_def)
    then show ?thesis
      using emit_ok [of "st\<lparr>os_lenfld := Some (os_cur st, fp)\<rparr>" "replicate (fd_size fp) 0xFA"] assms(3) True HNum
      by auto
  next
    case False
    have e: "\<exists>m. emit (st\<lparr>os_immediate := imm, os_last_enum := le\<rparr>) (be_bytes (fd_size fp) w) =
      Ok (st\<lparr>os_immediate := imm, os_last_enum := le, os_mem := m, os_cur := os_cur st + fd_size fp,
        os_inp := os_inp st + fd_size fp\<rparr>)" for imm le
      using emit_ok [of "st\<lparr>os_immediate := imm, os_last_enum := le\<rparr>" "be_bytes (fd_size fp) w"] assms(3) by auto
    from False have "is_length fp \<longrightarrow> os_immediate st" by simp
    note o = out_field_num [OF assms(1) num(1) this num(2), of sd]
    show ?thesis
    proof (cases "is_length fp")
      case True
      with o e [of "os_last_enum st" "os_immediate st"] show ?thesis by (auto simp: HNum)
    next
      case False
      show ?thesis
      proof (cases "check_field (sd_name sd) fp w (os_immediate st) (os_last_enum st)")
        case (Ok r)
        obtain imm le where "r = (imm, le)" by force
        with Ok False o e [of le imm] show ?thesis by (auto simp: HNum)
      qed (use False o in \<open>auto simp: HNum\<close>)
    qed
  qed
qed

lemma out_fields_accepts:
  assumes "list_all wf_field fps" "list_all2 host_ok fps hs" "field_type e = ft_end" "fd_size e = 0"
    and "os_cur st = pbs_cur outs + os_inp st"
    and "os_inp st + sum_list (map fd_size fps) = sd_size sd"
    and "pbs_cur outs + sd_size sd \<le> pbs_roof outs" "pbs_roof outs \<le> length (os_mem st)"
    and "length (filter is_length fps) \<le> (if os_lenfld st = None then 1 else 0)"
  shows "(\<exists>st'. out_fields sd outs (fps @ [e]) hs st = Ok st') \<longleftrightarrow>
    accepts (sd_name sd) (os_immediate st) (os_last_enum st) fps hs"
  using assms
proof (induction fps arbitrary: hs st)
  case Nil
  then show ?case by simp
next
  case (Cons fp fps)
  then obtain h hs' where hs: "hs = h # hs'" "host_ok fp h" "list_all2 host_ok fps hs'"
    by (auto simp: list_all2_Cons1)
  have fp: "wf_field fp" using Cons.prems(1) by simp
  have room: "os_cur st + fd_size fp \<le> pbs_roof outs" using Cons.prems(5-7) by simp
  have fit: "os_cur st + fd_size fp \<le> length (os_mem st)" using room Cons.prems(8) by simp
  have one: "is_length fp \<longrightarrow> os_lenfld st = None" using Cons.prems(9) by (auto split: if_splits)
  have step: "out_fields sd outs ((fp # fps) @ [e]) (h # hs') st =
      bind_outcome (out_field sd fp h st) (out_fields sd outs (fps @ [e]) hs')"
    using room Cons.prems(5,6) wf_field_type [OF fp] by simp
  have "(\<exists>st'. out_fields sd outs (fps @ [e]) hs' a = Ok st') \<longleftrightarrow>
      accepts (sd_name sd) (os_immediate a) (os_last_enum a) fps hs'" if "out_field sd fp h st = Ok a" for a
  proof -
    have a: "emitted st fp h a" using yields_Ok [OF out_field_ok [OF fp hs(2) fit one] that] .
    have "length (os_mem a) = length (os_mem st)"
      using a write_block_length by (auto simp: emitted_def)
    then show ?thesis
      using Cons.prems hs a by (intro Cons.IH) (auto simp: emitted_def split: if_splits)
  qed
  then show ?case
    unfolding hs(1) step out_field_accepts [OF fp hs(2) fit one, of sd fps hs']
    by (auto simp: bind_outcome_Ok_iff)
qed

lemma out_struct_Ok_iff:
  assumes "wf_desc sd" "wf_pbs mem outs" "list_all2 host_ok (butlast (sd_fields sd)) hs"
  shows "(\<exists>r. out_struct mem hs sd outs True = Ok r) \<longleftrightarrow>
    pbs_cur outs + sd_size sd \<le> pbs_roof outs \<and>
    accepts (sd_name sd) False 0 (butlast (sd_fields sd)) hs"
proof -
  obtain fps where fps: "sd_fields sd = fps @ [Field ft_end 0 None No_desc]" "list_all wf_field fps"
    "sum_list (map fd_size fps) = sd_size sd" "length (filter is_length fps) \<le> 1"
    using wf_desc_fields [OF assms(1)] by metis
  have "(\<exists>st'. out_fields sd outs (sd_fields sd) hs (out_start mem outs) = Ok st') \<longleftrightarrow>
    accepts (sd_name sd) False 0 fps hs" if "pbs_cur outs + sd_size sd \<le> pbs_roof outs"
    using that fps assms(2,3) out_fields_accepts [OF fps(2), of hs "Field ft_end 0 None No_desc" "out_start mem outs" outs sd]
    by (simp add: out_start_def wf_pbs_def)
  then show ?thesis
    by (auto simp: out_struct_def out_start_def fps(1) bind_outcome_Ok_iff Let_def)
qed

text \<open>The checks of the code demand just that.\<close>

lemma check_field_allows:
  assumes "wf_field fp" "\<not> is_length fp" "take_bit (8 * fd_size fp) w = w"
  shows "(\<exists>r. check_field nm fp w imm le = Ok r) \<longleftrightarrow> field_allows fp le w"
    and "check_field nm fp w imm le = Ok (imm', le') \<Longrightarrow> le' = (if selects fp then w else le)"
proof -
  note d = check_field_def field_allows_def
  show "(\<exists>r. check_field nm fp w imm le = Ok r) \<longleftrightarrow> field_allows fp le w"
  proof (cases "field_type fp \<in> {ft_enum, ft_af_enum}")
    case True
    then obtain ed where ed: "fd_desc fp = Enum_desc ed" "wf_enum ed"
      using assms(1) by (auto simp: wf_field_def split: field_names.splits)
    obtain r where r: "enum_name ed (ucast w) = Inr r" using enum_name_total [OF ed(2)] by blast
    show ?thesis using True ed(1) r by (cases r) (auto simp: d unknown_enum_def desc_enum_name_def)
  next
    case F: False
    show ?thesis
    proof (cases "field_type fp = ft_loose_enum_enum")
      case True
      then obtain een where een: "fd_desc fp = Enum_enum_desc een" "wf_een een"
        using assms(1) by (auto simp: wf_field_def split: field_names.splits)
      have "unat (ucast le - een_first een) \<le> unat (een_last een - een_first een)"
        if "een_first een \<le> ucast le" "ucast le \<le> een_last een"
        using that by (simp add: unat_sub word_le_nat_alt)
      then show ?thesis using True een
        by (auto simp: d enum_enum_checker_def enum_enum_table_def wf_een_def Let_def split: option.splits)
    next
      case G: False
      show ?thesis
      proof (cases "field_type fp = ft_set")
        case True
        obtain t where t: "fd_desc fp = Set_desc t"
          using assms(1) True by (auto simp: wf_field_def split: field_names.splits)
        obtain r where r: "testset t (ucast w) = Inr r"
          using desc_testset_total [OF assms(1) True assms(3)] t by (auto simp: desc_testset_def)
        have "bit (ucast w :: u64) b \<longleftrightarrow> bit w b" for b by (auto simp: bit_simps dest: bit_imp_le_length)
        then have "r \<longleftrightarrow> (\<forall>b. bit w b \<longrightarrow> set_named t b)" using testset_answer [OF r] by simp
        then show ?thesis using True t r by (cases r) (auto simp: d desc_testset_def)
      next
        case False
        then show ?thesis using F G assms(2) by (cases "field_type fp") (auto simp: d is_length_def)
      qed
    qed
  qed
  show "check_field nm fp w imm le = Ok (imm', le') \<Longrightarrow> le' = (if selects fp then w else le)"
    by (auto simp: check_field_def selects_def bind_outcome_Ok_iff lift_fault_Ok_iff split: field_type.splits if_splits)
qed

lemma selector_0 [simp]: "selector start fps hs 0 = start"
  by (simp add: selector_def)

lemma selector_Suc:
  "selector start (fp # fps) (h # hs) (Suc i) =
     selector (case h of HNum w \<Rightarrow> if selects fp then w else start | HRaw _ \<Rightarrow> start) fps hs i"
  by (cases h) (auto simp: selector_def)

lemma accepts_allowed:
  assumes "list_all wf_field fps" "list_all2 host_ok fps hs"
  shows "accepts nm imm le fps hs \<longleftrightarrow>
    (\<forall>i w. i < length hs \<and> hs ! i = HNum w \<longrightarrow> field_allows (fps ! i) (selector le fps hs i) w)"
  using assms
proof (induction fps arbitrary: hs imm le)
  case (Cons fp fps)
  then obtain h hs' where hs: "hs = h # hs'" "host_ok fp h" "list_all2 host_ok fps hs'" by (auto simp: list_all2_Cons1)
  let ?all = "\<lambda>le fps hs. \<forall>i w. i < length hs \<and> hs ! i = HNum w \<longrightarrow> field_allows (fps ! i) (selector le fps hs i) w"
  have IH: "accepts nm imm le fps hs' \<longleftrightarrow> ?all le fps hs'" for imm le using Cons.IH hs(3) Cons.prems(1) by simp
  let ?sel = "case h of HNum w \<Rightarrow> if selects fp then w else le | HRaw _ \<Rightarrow> le"
  let ?Q = "\<lambda>i. \<forall>w. (h # hs') ! i = HNum w \<longrightarrow> field_allows ((fp # fps) ! i) (selector le (fp # fps) (h # hs') i) w"
  have "?all le (fp # fps) (h # hs') \<longleftrightarrow> (\<forall>i < Suc (length hs'). ?Q i)" by auto
  also have "\<dots> \<longleftrightarrow> ?Q 0 \<and> (\<forall>i < length hs'. ?Q (Suc i))" by (rule All_less_Suc2)
  also have "\<dots> \<longleftrightarrow> (\<forall>w. h = HNum w \<longrightarrow> field_allows fp le w) \<and> ?all ?sel fps hs'"
    by (auto simp: selector_Suc)
  finally have split: "?all le (fp # fps) (h # hs') \<longleftrightarrow> (\<forall>w. h = HNum w \<longrightarrow> field_allows fp le w) \<and> ?all ?sel fps hs'" .
  show ?case
  proof (cases h)
    case (HNum w)
    show ?thesis
    proof (cases "is_length fp")
      case True
      then have "field_allows fp le w" "\<not> selects fp" by (auto simp: field_allows_def selects_def is_length_def)
      then show ?thesis unfolding hs(1) split using True IH by (simp add: HNum)
    next
      case False
      have fit: "wf_field fp" "take_bit (8 * fd_size fp) w = w" using Cons.prems(1) hs(2) HNum by (auto simp: host_ok_def)
      note ca = check_field_allows [OF fit(1) False fit(2), of nm imm le]
      show ?thesis unfolding hs(1) split using False IH ca
        by (cases "check_field nm fp w imm le") (auto simp: HNum split: prod.splits)
    qed
  qed (use hs(1) split IH in simp)
qed simp

section \<open>Properties of every descriptor\<close>

lemma packet_desc_wf: "sd \<in> set packet_descs \<Longrightarrow> wf_desc sd"
  using packet_descs_wf by (simp add: list_all_iff)

text \<open>
  C5: \<^verbatim>\<open>in_struct\<close> on any input, for every descriptor of \<^verbatim>\<open>packet.c\<close>. Whatever the bytes of
  the packet, no assertion fails, no \<^verbatim>\<open>bad_case\<close> is reached and nothing outside the stream is
  read. If it succeeds, every member of the structure has the form its field describes, the
  object's stream starts at the old cursor with its own cursor after the fixed part, it lies
  within the input stream, and the input stream advances to the object's end, past the old
  cursor.
\<close>

theorem in_struct_safe:
  assumes "sd \<in> set packet_descs" "wf_pbs mem ins"
  shows "yields (in_struct mem sd ins) (\<lambda>(hs, ins', obj).
    list_all2 host_ok (butlast (sd_fields sd)) hs \<and>
    pbs_start obj = pbs_cur ins \<and> pbs_cur obj = pbs_cur ins + sd_size sd \<and>
    wf_pbs mem obj \<and> pbs_roof obj \<le> pbs_roof ins \<and>
    ins' = ins\<lparr>pbs_cur := pbs_roof obj\<rparr> \<and> wf_pbs mem ins' \<and> pbs_cur ins < pbs_cur ins')"
  using packet_desc_wf [OF assms(1)]
  by (intro yields_mono [OF in_struct_ok [OF _ assms(2)]]) (auto simp: wf_pbs_def wf_desc_def)

lemma witness_desc: "isakmp_vendor_id_desc \<in> set packet_descs"
  by (simp add: packet_descs_def)

lemma witness_stream: "wf_pbs (replicate 16 0) (init_pbs 0 16 ''message'')"
  by (simp add: wf_pbs_def init_pbs_def)

theorem in_struct_safe_witness:
  "isakmp_vendor_id_desc \<in> set packet_descs \<and> wf_pbs (replicate 16 0) (init_pbs 0 16 ''message'') \<and>
   safe (in_struct (replicate 16 0) isakmp_vendor_id_desc (init_pbs 0 16 ''message''))"
  using in_struct_safe [OF witness_desc witness_stream] witness_desc witness_stream yields_safe by blast

lemma out_struct_closed_ok:
  assumes "wf_desc sd" "wf_pbs mem outs" "list_all2 host_ok (butlast (sd_fields sd)) hs"
  shows "yields (out_struct mem hs sd outs False) (\<lambda>(mem', outs', obj).
    write_block mem (pbs_cur outs) (net_fields (Some (of_nat (sd_size sd))) False
      (butlast (sd_fields sd)) hs) = Inr mem' \<and>
    outs' = outs\<lparr>pbs_cur := pbs_cur outs + sd_size sd\<rparr> \<and>
    pbs_cur outs + sd_size sd \<le> pbs_roof outs)"
proof (cases "int (pbs_roof outs) - int (pbs_cur outs) < int (sd_size sd)")
  case False
  then have room: "pbs_cur outs + sd_size sd \<le> pbs_roof outs" by simp
  show ?thesis
  proof (cases "out_fields sd outs (sd_fields sd) hs (out_start mem outs)")
    case (Ok st)
    let ?obj = "\<lparr>pbs_desc = Some sd, pbs_name = sd_name sd, pbs_start = pbs_cur outs,
      pbs_cur = os_cur st, pbs_roof = pbs_roof outs, pbs_lenfld = os_lenfld st\<rparr>"
    note st = yields_Ok [OF out_fields_start [OF assms room] Ok]
    obtain m2 where
      "close_output_pbs (os_mem st) ?obj (Some outs) = Inr (m2, Some (outs\<lparr>pbs_cur := os_cur st\<rparr>))"
      "write_block mem (pbs_cur outs) (net_fields (Some (of_nat (sd_size sd))) False
        (butlast (sd_fields sd)) hs) = Inr m2"
      using close_struct [OF assms(1,3), of mem "pbs_cur outs" "[]" "os_mem st" ?obj "Some outs"] st
      by auto
    with False room Ok st show ?thesis by (simp add: out_struct_def out_start_def)
  qed (use False out_fields_start [OF assms room] in \<open>auto simp: out_struct_def out_start_def\<close>)
qed (simp add: out_struct_def)

lemma image_frame:
  assumes "wf_desc sd" "list_all2 host_ok (butlast (sd_fields sd)) hs" "i < length mem"
    and "write_block mem a (net_fields l imm (butlast (sd_fields sd)) hs) = Inr mem'"
    and "i < a \<or> a + sd_size sd \<le> i"
  shows "mem' ! i = mem ! i"
proof -
  have "length (net_fields l imm (butlast (sd_fields sd)) hs) = sd_size sd"
    using length_net_fields [OF assms(2)] assms(1) by (simp add: wf_desc_def Let_def)
  with assms(5) write_block_nth [OF assms(4,3)] show ?thesis by auto
qed

text \<open>
  C12: \<^verbatim>\<open>out_struct\<close>, for every descriptor and every structure of its shape. No assertion
  fails (the one that allows a single length field included), and every byte outside the
  fixed part of the structure keeps its value, whether the object is left open or closed at
  once.
\<close>

theorem out_struct_safe:
  assumes "sd \<in> set packet_descs" "wf_pbs mem outs" "list_all2 host_ok (butlast (sd_fields sd)) hs"
  shows "yields (out_struct mem hs sd outs keep) (\<lambda>(mem', outs', obj).
    wf_pbs mem' outs' \<and> pbs_cur outs + sd_size sd \<le> pbs_roof outs \<and> length mem' = length mem \<and>
    (\<forall>i < length mem. i < pbs_cur outs \<or> pbs_cur outs + sd_size sd \<le> i \<longrightarrow> mem' ! i = mem ! i))"
proof -
  note wf = packet_desc_wf [OF assms(1)]
  let ?post = "\<lambda>(mem', outs', obj :: pb_stream option).
    wf_pbs mem' outs' \<and> pbs_cur outs + sd_size sd \<le> pbs_roof outs \<and> length mem' = length mem \<and>
    (\<forall>i < length mem. i < pbs_cur outs \<or> pbs_cur outs + sd_size sd \<le> i \<longrightarrow> mem' ! i = mem ! i)"
  have "yields (out_struct mem hs sd outs True) ?post"
    by (rule yields_mono [OF out_struct_keep_ok [OF wf assms(2,3)]])
      (use assms(2) image_frame [OF wf assms(3)] in \<open>auto simp: wf_pbs_def dest: write_block_length\<close>)
  moreover have "yields (out_struct mem hs sd outs False) ?post"
    by (rule yields_mono [OF out_struct_closed_ok [OF wf assms(2,3)]])
      (use assms(2) image_frame [OF wf assms(3)] in \<open>auto simp: wf_pbs_def dest: write_block_length\<close>)
  ultimately show ?thesis by (cases keep) simp_all
qed

text \<open>A vendor ID payload in a 16-octet buffer, for the witnesses.\<close>

definition sample_host :: "hval list" where
  "sample_host = [HNum 13, HRaw [0], HNum 0]"

lemma sample_host_ok: "list_all2 host_ok (butlast (sd_fields isakmp_vendor_id_desc)) sample_host"
  by (simp add: sample_host_def isakmp_vendor_id_desc_def isag_fields_def host_ok_def)

theorem out_struct_safe_witness:
  "isakmp_vendor_id_desc \<in> set packet_descs \<and> wf_pbs (replicate 16 0) (init_pbs 0 16 ''message'') \<and>
   list_all2 host_ok (butlast (sd_fields isakmp_vendor_id_desc)) sample_host \<and>
   safe (out_struct (replicate 16 0) sample_host isakmp_vendor_id_desc (init_pbs 0 16 ''message'') True)"
  using out_struct_safe [OF witness_desc witness_stream sample_host_ok] witness_desc witness_stream
    sample_host_ok yields_safe by blast

text \<open>
  C11: what the three calls of an emitter (\<^verbatim>\<open>out_struct\<close>, \<^verbatim>\<open>out_raw\<close>, \<^verbatim>\<open>close_output_pbs\<close>) leave
  in the buffer is the reference image of the structure, with the number of octets emitted in
  its length field, followed by the payload; closing never faults, and the container's cursor
  ends after the payload, within its roof.
\<close>

theorem emitted_image:
  assumes "sd \<in> set packet_descs" "wf_pbs mem outs" "list_all2 host_ok (butlast (sd_fields sd)) hs"
    and "out_struct mem hs sd outs True = Ok (m1, outs1, Some obj)"
    and "out_raw m1 bs obj = Ok (m2, obj2)"
  shows "\<exists>m3. close_output_pbs m2 obj2 (Some outs1) =
        Inr (m3, Some (outs\<lparr>pbs_cur := pbs_cur outs + sd_size sd + length bs\<rparr>)) \<and>
      write_block mem (pbs_cur outs) (net_fields (Some (of_nat (sd_size sd + length bs))) False
        (butlast (sd_fields sd)) hs @ bs) = Inr m3 \<and>
      pbs_cur outs + sd_size sd + length bs \<le> pbs_roof outs"
  using emit_struct_image [OF packet_desc_wf [OF assms(1)] assms(2-5)] .

definition sample_obj :: pb_stream where
  "sample_obj = \<lparr>pbs_desc = Some isakmp_vendor_id_desc, pbs_name = ''ISAKMP Vendor ID Payload'',
     pbs_start = 0, pbs_cur = 4, pbs_roof = 16,
     pbs_lenfld = Some (2, Field ft_len 2 (Some ''length'') No_desc)\<rparr>"

lemma sample_out_struct:
  "out_struct (replicate 16 0) sample_host isakmp_vendor_id_desc (init_pbs 0 16 ''message'') True =
   Ok ([13, 0, 0xFA, 0xFA] @ replicate 12 0, (init_pbs 0 16 ''message'')\<lparr>pbs_cur := 16\<rparr>, Some sample_obj)"
proof -
  have "payload_name_ikev1 ! 13 = Some ''ISAKMP_NEXT_VID''" by (simp add: payload_name_ikev1_def)
  moreover have "replicate 2 (0xFA :: byte) = [0xFA, 0xFA]" by (simp add: numeral_2_eq_2)
  ultimately show ?thesis
    by (simp add: out_struct_def isakmp_vendor_id_desc_def isag_fields_def init_pbs_def out_field_def
        emit_def out_number_def check_field_def unknown_enum_def desc_enum_name_def sample_host_def
        payload_names_ikev1orv2_def nth_name_def write_block_def sample_obj_def)
qed

lemma sample_out_raw:
  "out_raw ([13, 0, 0xFA, 0xFA] @ replicate 12 0) [1, 2, 3] sample_obj =
   Ok ([13, 0, 0xFA, 0xFA, 1, 2, 3] @ replicate 9 0, sample_obj\<lparr>pbs_cur := 7\<rparr>)"
  by (simp add: out_raw_def sample_obj_def pbs_left_def size_diff_def write_block_def)

lemma sample_close:
  "close_output_pbs ([13, 0, 0xFA, 0xFA, 1, 2, 3] @ replicate 9 0) (sample_obj\<lparr>pbs_cur := 7\<rparr>)
     (Some ((init_pbs 0 16 ''message'')\<lparr>pbs_cur := 16\<rparr>)) =
   Inr ([13, 0, 0, 7, 1, 2, 3] @ replicate 9 0, Some ((init_pbs 0 16 ''message'')\<lparr>pbs_cur := 7\<rparr>))"
  by (simp add: close_output_pbs_def sample_obj_def pbs_offset_def size_diff_def write_block_def
      init_pbs_def)

lemmas sample_facts = witness_desc witness_stream sample_host_ok sample_out_struct sample_out_raw

theorem emitted_image_witness:
  "isakmp_vendor_id_desc \<in> set packet_descs \<and> wf_pbs (replicate 16 0) (init_pbs 0 16 ''message'') \<and>
   list_all2 host_ok (butlast (sd_fields isakmp_vendor_id_desc)) sample_host \<and>
   out_struct (replicate 16 0) sample_host isakmp_vendor_id_desc (init_pbs 0 16 ''message'') True =
     Ok ([13, 0, 0xFA, 0xFA] @ replicate 12 0, (init_pbs 0 16 ''message'')\<lparr>pbs_cur := 16\<rparr>, Some sample_obj) \<and>
   out_raw ([13, 0, 0xFA, 0xFA] @ replicate 12 0) [1, 2, 3] sample_obj =
     Ok ([13, 0, 0xFA, 0xFA, 1, 2, 3] @ replicate 9 0, sample_obj\<lparr>pbs_cur := 7\<rparr>) \<and>
   (\<exists>m3. close_output_pbs ([13, 0, 0xFA, 0xFA, 1, 2, 3] @ replicate 9 0) (sample_obj\<lparr>pbs_cur := 7\<rparr>)
     (Some ((init_pbs 0 16 ''message'')\<lparr>pbs_cur := 16\<rparr>)) =
     Inr (m3, Some ((init_pbs 0 16 ''message'')\<lparr>pbs_cur :=
       pbs_cur (init_pbs 0 16 ''message'') + sd_size isakmp_vendor_id_desc + length [1 :: byte, 2, 3]\<rparr>)))"
proof -
  note ex = emitted_image [OF sample_facts]
  show ?thesis by (intro conjI sample_facts) (rule exE [OF ex], elim conjE, rule exI)
qed

text \<open>
  C13: \<^verbatim>\<open>out_struct\<close> succeeds exactly when the fixed part fits in the stream and the members are
  values their fields allow: a named value in an enumeration, a set of named members, and under a
  table that another member chooses, a choice that has a table. For every descriptor and every
  structure of its shape.
\<close>

theorem out_struct_succeeds_iff:
  assumes "sd \<in> set packet_descs" "wf_pbs mem outs" "list_all2 host_ok (butlast (sd_fields sd)) hs"
  shows "(\<exists>r. out_struct mem hs sd outs True = Ok r) \<longleftrightarrow>
    pbs_cur outs + sd_size sd \<le> pbs_roof outs \<and> members_allowed (butlast (sd_fields sd)) hs"
proof -
  have wf: "wf_desc sd" by (rule packet_desc_wf [OF assms(1)])
  then have "list_all wf_field (butlast (sd_fields sd))" by (simp add: wf_desc_def Let_def)
  from accepts_allowed [OF this assms(3)] out_struct_Ok_iff [OF wf assms(2,3)] show ?thesis
    unfolding members_allowed_def by simp
qed

theorem out_struct_succeeds_iff_witness:
  "isakmp_vendor_id_desc \<in> set packet_descs \<and> wf_pbs (replicate 16 0) (init_pbs 0 16 ''message'') \<and>
   list_all2 host_ok (butlast (sd_fields isakmp_vendor_id_desc)) sample_host \<and>
   members_allowed (butlast (sd_fields isakmp_vendor_id_desc)) sample_host"
  using out_struct_succeeds_iff [OF witness_desc witness_stream sample_host_ok] witness_desc
    witness_stream sample_host_ok sample_out_struct by metis

text \<open>
  C1: emitting and parsing are inverse, for every descriptor. After the three calls of an
  emitter, \<^verbatim>\<open>in_struct\<close> on a stream at the same place accepts the structure, returns its
  members with the reserved octets zero and the length filled in, and \<^verbatim>\<open>in_raw\<close> of what is
  left in the object returns the payload. The one condition is that the length fits its
  field (or that an immediate attribute has no payload): \<^verbatim>\<open>close_output_pbs\<close> does not check it.
\<close>

theorem struct_emit_parse:
  assumes "sd \<in> set packet_descs" "wf_pbs mem outs" "list_all2 host_ok (butlast (sd_fields sd)) hs"
    and "out_struct mem hs sd outs True = Ok (m1, outs1, Some obj)" "out_raw m1 bs obj = Ok (m2, obj2)"
    and "close_output_pbs m2 obj2 (Some outs1) = Inr (m3, Some outs2)" "payload_fits sd obj (length bs)"
    and "wf_pbs m3 ins" "pbs_cur ins = pbs_cur outs" "pbs_cur outs2 \<le> pbs_roof ins"
  shows "\<exists>obj'. in_struct m3 sd ins =
      Ok (canon_fields (of_nat (sd_size sd + length bs)) False (butlast (sd_fields sd)) hs,
          ins\<lparr>pbs_cur := pbs_cur outs2\<rparr>, obj') \<and>
    in_raw m3 (pbs_left obj') obj' = Ok (bs, obj'\<lparr>pbs_cur := pbs_roof obj'\<rparr>)"
  using struct_roundtrip [OF packet_desc_wf [OF assms(1)] assms(2-10)] .

lemma sample_fits:
  "payload_fits isakmp_vendor_id_desc sample_obj (length [1 :: byte, 2, 3])"
  "wf_pbs ([13, 0, 0, 7, 1, 2, 3] @ replicate 9 0) (init_pbs 0 16 ''input'')"
  "pbs_cur (init_pbs 0 16 ''input'') = pbs_cur (init_pbs 0 16 ''message'')"
  "pbs_cur ((init_pbs 0 16 ''message'')\<lparr>pbs_cur := 7\<rparr>) \<le> pbs_roof (init_pbs 0 16 ''input'')"
  by (simp_all add: payload_fits_def sample_obj_def isakmp_vendor_id_desc_def wf_pbs_def init_pbs_def)

theorem struct_emit_parse_witness:
  "payload_fits isakmp_vendor_id_desc sample_obj (length [1 :: byte, 2, 3]) \<and>
   (\<exists>obj'. in_struct ([13, 0, 0, 7, 1, 2, 3] @ replicate 9 0) isakmp_vendor_id_desc (init_pbs 0 16 ''input'') =
      Ok ([HNum 13, HRaw [0], HNum 7], (init_pbs 0 16 ''input'')\<lparr>pbs_cur := 7\<rparr>, obj') \<and>
    in_raw ([13, 0, 0, 7, 1, 2, 3] @ replicate 9 0) (pbs_left obj') obj' =
      Ok ([1, 2, 3], obj'\<lparr>pbs_cur := pbs_roof obj'\<rparr>))"
proof -
  have "canon_fields (of_nat (sd_size isakmp_vendor_id_desc + length [1 :: byte, 2, 3])) False
      (butlast (sd_fields isakmp_vendor_id_desc)) sample_host = [HNum 13, HRaw [0], HNum 7]"
    by (simp add: sample_host_def isakmp_vendor_id_desc_def isag_fields_def canon_field_def
        next_imm_def is_length_def is_af_def net_length_def)
  with struct_emit_parse [OF sample_facts sample_close sample_fits] sample_fits(1)
  show ?thesis by simp
qed

end
