(* ===== verification/PayloadChain.thy ===== *)
theory PayloadChain
  imports PacketCodec
begin

text \<open>
  Generic payloads and the chain they form in a message. The interface \<open>generic_emitter\<close>
  states what \<^verbatim>\<open>ikev1_out_generic_raw\<close> and \<^verbatim>\<open>ikev2_out_generic_raw\<close> promise; its client
  lemmas show that payloads emitted one after the other form a chain of well-formed
  payloads, on which \<^verbatim>\<open>out_modify_previous_np\<close> returns and changes one octet.
\<close>

section \<open>Chains of payloads\<close>

text \<open>A payload whose length field is its own length, and the octets of a message after its header.\<close>

definition wf_payload :: "byte list \<Rightarrow> bool" where
  "wf_payload p \<longleftrightarrow> 4 \<le> length p \<and> unat (be_value (take 2 (drop 2 p))) = length p"

definition payload_chain :: "memory \<Rightarrow> pb_stream \<Rightarrow> byte list list \<Rightarrow> bool" where
  "payload_chain mem outs ps \<longleftrightarrow>
     wf_pbs mem outs \<and> pbs_start outs + 28 + length (concat ps) = pbs_cur outs \<and>
     list_all wf_payload ps \<and>
     read_block mem (pbs_start outs + 28) (length (concat ps)) = Inr (concat ps)"

text \<open>A generic payload: next payload, the second octet, the length, the contents.\<close>

definition generic_payload :: "byte \<Rightarrow> byte \<Rightarrow> byte list \<Rightarrow> byte list" where
  "generic_payload np second bs = [np, second] @ be_bytes 2 (of_nat (4 + length bs)) @ bs"

lemma length_generic_payload [simp]: "length (generic_payload np second bs) = 4 + length bs"
  by (simp add: generic_payload_def)

lemma generic_payload_wf:
  assumes "4 + length bs < 2 ^ 16"
  shows "wf_payload (generic_payload np second bs)"
proof -
  have "take 2 (drop 2 (generic_payload np second bs)) = be_bytes 2 (of_nat (4 + length bs))"
    by (simp add: generic_payload_def)
  then have "be_value (take 2 (drop 2 (generic_payload np second bs))) = take_bit 16 (of_nat (4 + length bs))"
    by (simp only: be_value_be_bytes) simp
  moreover have "unat (take_bit 16 (of_nat (4 + length bs)) :: u32) = 4 + length bs"
    using assms by (simp only: unsigned_take_bit_eq unat_of_nat) (simp add: take_bit_nat_eq_self)
  ultimately show ?thesis by (simp add: wf_payload_def)
qed

section \<open>Changing the last next-payload octet\<close>

lemma modify_np_chain:
  assumes "ps \<noteq> []" "list_all wf_payload ps"
    and "read_block mem pl (length (concat ps)) = Inr (concat ps)"
  shows "modify_np_loop mem np pl (length (concat ps)) =
    Some (write_block mem (pl + length (concat (butlast ps))) [np])"
  using assms
proof (induction ps arbitrary: pl)
  case (Cons p ps)
  have p: "4 \<le> length p" "unat (be_value (take 2 (drop 2 p))) = length p"
    using Cons.prems(2) by (auto simp: wf_payload_def)
  have rd: "read_block mem pl (length p) = Inr p"
    "read_block mem (pl + length p) (length (concat ps)) = Inr (concat ps)"
    using read_block_prefix [of mem pl "length p" "length (concat ps)"]
      read_block_suffix [of mem pl "length p" "length (concat ps)"] Cons.prems(3) by simp_all
  have split: "2 + (2 + (length p - 4)) = length p" using p(1) by linarith
  have "read_block mem (pl + 2) (2 + (length p - 4)) = Inr (drop 2 p)"
    using read_block_suffix [of mem pl 2 "2 + (length p - 4)" p] rd(1) unfolding split by simp
  from read_block_prefix [OF this] have len: "read_block mem (pl + 2) 2 = Inr (take 2 (drop 2 p))" .
  show ?case
  proof (cases "ps = []")
    case True
    then show ?thesis using p len by (subst modify_np_loop.simps) simp
  next
    case False
    then have "0 < length (concat ps)"
      using Cons.prems(2) by (cases ps) (auto simp: wf_payload_def)
    moreover have "modify_np_loop mem np (pl + length p) (length (concat ps)) =
        Some (write_block mem (pl + length p + length (concat (butlast ps))) [np])"
      using Cons.IH [OF False _ rd(2)] Cons.prems(2) by simp
    ultimately show ?thesis
      using p len False by (subst modify_np_loop.simps) (auto simp: add.assoc)
  qed
qed simp

text \<open>A payload of length zero that is not the last keeps the loop where it is.\<close>

lemma modify_np_zero:
  assumes "modify_np_loop mem np pl left = Some r"
  shows "\<not> (4 \<le> left \<and> (\<exists>bs. read_block mem (pl + 2) 2 = Inr bs \<and> be_value bs = 0))"
  by (rule modify_np_loop.raw_induct [where P = "\<lambda>mem np pl left r. \<not> (4 \<le> left \<and>
        (\<exists>bs. read_block mem (pl + 2) 2 = Inr bs \<and> be_value bs = 0))", OF _ assms])
    (auto split: sum.splits if_splits)

section \<open>The interface of the emitters\<close>

locale generic_emitter =
  fixes emit_payload :: "memory \<Rightarrow> byte \<Rightarrow> struct_desc \<Rightarrow> pb_stream \<Rightarrow> byte list \<Rightarrow>
      (diag, memory \<times> pb_stream) outcome"
    and fields :: "field_desc list" and second :: byte
  assumes emit_image: "\<lbrakk>wf_desc sd; sd_fields sd = fields; wf_pbs mem outs;
      emit_payload mem np sd outs bs = Ok (mem', outs')\<rbrakk> \<Longrightarrow>
      write_block mem (pbs_cur outs) (generic_payload np second bs) = Inr mem' \<and>
      outs' = outs\<lparr>pbs_cur := pbs_cur outs + 4 + length bs\<rparr> \<and>
      pbs_cur outs + 4 + length bs \<le> pbs_roof outs"
begin

lemma chain_extend:
  assumes "wf_desc sd" "sd_fields sd = fields" "payload_chain mem outs ps"
    and e: "emit_payload mem np sd outs bs = Ok (mem', outs')" and "4 + length bs < 2 ^ 16"
  shows "payload_chain mem' outs' (ps @ [generic_payload np second bs])"
proof -
  have c: "wf_pbs mem outs" "pbs_start outs + 28 + length (concat ps) = pbs_cur outs" "list_all wf_payload ps"
    "read_block mem (pbs_start outs + 28) (length (concat ps)) = Inr (concat ps)"
    using assms(3) by (auto simp: payload_chain_def)
  have w: "write_block mem (pbs_cur outs) (generic_payload np second bs) = Inr mem'"
    and o: "outs' = outs\<lparr>pbs_cur := pbs_cur outs + 4 + length bs\<rparr>"
    and roof: "pbs_cur outs + 4 + length bs \<le> pbs_roof outs"
    using emit_image [OF assms(1,2) c(1) e] by auto
  have "read_block mem' (pbs_start outs + 28) (length (concat ps)) = Inr (concat ps)"
    using write_block_frame [OF w, of "pbs_start outs + 28" "length (concat ps)"] c(2,4) by simp
  moreover have "read_block mem' (pbs_cur outs) (4 + length bs) = Inr (generic_payload np second bs)"
    using write_block_read [OF w] by simp
  ultimately have "read_block mem' (pbs_start outs + 28) (length (concat ps) + (4 + length bs)) =
      Inr (concat ps @ generic_payload np second bs)"
    unfolding c(2) [symmetric] by (rule read_block_append)
  with c roof o generic_payload_wf [OF assms(5)] write_block_length [OF w]
  show ?thesis by (simp add: payload_chain_def wf_pbs_def)
qed

text \<open>Emit a payload after a chain, then change the octet that announces what follows it.\<close>

lemma emit_then_modify:
  assumes "wf_desc sd" "sd_fields sd = fields" "payload_chain mem outs ps"
    and "emit_payload mem np sd outs bs = Ok (mem', outs')" "4 + length bs < 2 ^ 16"
  shows "\<exists>mem''. out_modify_previous_np mem' np' outs' = Some (Inr mem'') \<and>
    write_block mem' (pbs_cur outs) [np'] = Inr mem'' \<and>
    write_block mem (pbs_cur outs) (generic_payload np' second bs) = Inr mem'' \<and>
    payload_chain mem'' outs' (ps @ [generic_payload np' second bs])"
proof -
  let ?q = "\<lambda>np. generic_payload np second bs"
  have c: "payload_chain mem' outs' (ps @ [?q np])"
    using chain_extend [OF assms] .
  then have d: "wf_pbs mem' outs'" "pbs_start outs' + 28 + length (concat (ps @ [?q np])) = pbs_cur outs'"
    "list_all wf_payload (ps @ [?q np])"
    "read_block mem' (pbs_start outs' + 28) (length (concat (ps @ [?q np]))) = Inr (concat (ps @ [?q np]))"
    by (auto simp: payload_chain_def)
  let ?pl = "pbs_start outs' + 28" and ?k = "length (concat ps)"
  have fit: "?pl + ?k + 4 + length bs \<le> length mem'" using d(1,2) by (simp add: wf_pbs_def)
  have "modify_np_loop mem' np' ?pl (length (concat (ps @ [?q np]))) =
      Some (write_block mem' (?pl + ?k) [np'])"
    using modify_np_chain [OF _ d(3,4)] by simp
  moreover have "pbs_offset outs' = 28 + length (concat (ps @ [?q np]))"
    using d(2) by (simp add: pbs_offset_def size_diff_def)
  ultimately have m: "out_modify_previous_np mem' np' outs' = Some (write_block mem' (?pl + ?k) [np'])"
    by (simp add: out_modify_previous_np_def Let_def add.left_commute)
  obtain mem'' where w: "write_block mem' (?pl + ?k) [np'] = Inr mem''"
    using write_block_total [of "?pl + ?k" "[np']" mem'] fit by auto
  have "write_block mem' ?pl (concat ps @ ?q np) = Inr mem'"
    using d(4) by (intro write_block_same) (simp add: add.commute)
  then have "write_block mem' ?pl (concat ps @ [np] @ tl (?q np)) = Inr mem'"
    by (simp add: generic_payload_def)
  from write_block_patch [OF this w] have w2: "write_block mem' ?pl (concat ps @ ?q np') = Inr mem''"
    by (simp add: generic_payload_def)
  have "read_block mem'' ?pl (length (concat (ps @ [?q np']))) = Inr (concat (ps @ [?q np']))"
    using write_block_read [OF w2] by simp
  then have "payload_chain mem'' outs' (ps @ [?q np'])"
    using d generic_payload_wf [OF assms(5)] write_block_length [OF w]
    by (simp add: payload_chain_def wf_pbs_def)
  moreover have c0: "wf_pbs mem outs" "pbs_start outs + 28 + ?k = pbs_cur outs" using assms(3) by (auto simp: payload_chain_def)
  note e = emit_image [OF assms(1,2) c0(1) assms(4)]
  have cur: "?pl + ?k = pbs_cur outs" using e c0(2) by simp
  have "write_block mem (pbs_cur outs) ([] @ [np] @ tl (?q np)) = Inr mem'" using e by (simp add: generic_payload_def)
  from write_block_patch [OF this, of "[np']" mem''] have "write_block mem (pbs_cur outs) (?q np') = Inr mem''"
    using w cur by (simp add: generic_payload_def)
  ultimately show ?thesis using m w cur by simp
qed

end

section \<open>The two emitters\<close>

lemma generic_raw_image:
  assumes "wf_desc sd" "wf_pbs mem outs" "list_all2 host_ok (butlast (sd_fields sd)) hs"
    and "bind_outcome (out_struct mem hs sd outs True) (finish_raw bs) = Ok (mem', outs')"
  shows "write_block mem (pbs_cur outs) (net_fields (Some (of_nat (sd_size sd + length bs))) False
        (butlast (sd_fields sd)) hs @ bs) = Inr mem' \<and>
      outs' = outs\<lparr>pbs_cur := pbs_cur outs + sd_size sd + length bs\<rparr> \<and>
      pbs_cur outs + sd_size sd + length bs \<le> pbs_roof outs"
proof -
  obtain m1 outs1 o1 where o: "out_struct mem hs sd outs True = Ok (m1, outs1, o1)"
    and f: "finish_raw bs (m1, outs1, o1) = Ok (mem', outs')"
    using assms(4) by (auto simp: bind_outcome_Ok_iff)
  obtain obj where obj: "o1 = Some obj"
    using yields_Ok [OF out_struct_keep_ok [OF assms(1-3)] o] by auto
  obtain m2 obj2 where r: "out_raw m1 bs obj = Ok (m2, obj2)"
    using f obj by (auto simp: finish_raw_def bind_outcome_Ok_iff)
  from emit_struct_image [OF assms(1-3) o [unfolded obj] r] f obj r show ?thesis
    by (auto simp: finish_raw_def)
qed

lemma generic_raw_succeeds:
  assumes "wf_desc sd" "wf_pbs mem outs" "list_all2 host_ok (butlast (sd_fields sd)) hs"
    and "accepts (sd_name sd) False 0 (butlast (sd_fields sd)) hs"
    and "pbs_cur outs + sd_size sd + length bs \<le> pbs_roof outs"
  shows "\<exists>r. bind_outcome (out_struct mem hs sd outs True) (finish_raw bs) = Ok r"
proof -
  obtain m1 outs1 o1 where o: "out_struct mem hs sd outs True = Ok (m1, outs1, o1)"
    using out_struct_Ok_iff [OF assms(1-3)] assms(4,5) by auto
  note k = yields_Ok [OF out_struct_keep_ok [OF assms(1-3)] o, simplified]
  obtain obj where obj: "o1 = Some obj" "pbs_cur obj = pbs_cur outs + sd_size sd" "pbs_roof obj = pbs_roof outs"
    using k by auto
  have "length m1 = length mem" using k write_block_length by auto
  then have "pbs_cur obj + length bs \<le> length m1"
    using assms(2,5) obj by (simp add: wf_pbs_def)
  then obtain m2 where w: "write_block m1 (pbs_cur obj) bs = Inr m2"
    using write_block_total by blast
  have "\<not> pbs_left obj < length bs"
    using assms(5) obj by (simp add: pbs_left_def size_diff_def)
  with w have r: "out_raw m1 bs obj = Ok (m2, obj\<lparr>pbs_cur := pbs_cur obj + length bs\<rparr>)"
    by (simp add: out_raw_def)
  from emit_struct_image [OF assms(1-3) o [unfolded obj(1)] r] o r obj show ?thesis
    by (auto simp: finish_raw_def)
qed

lemma ucast_byte_fits [simp]: "take_bit 8 (ucast (b :: byte) :: u32) = ucast b"
  by (rule bit_word_eqI) (auto simp: bit_simps dest: bit_imp_le_length)

lemma ucast_u16_fits [simp]: "take_bit 16 (ucast (b :: u16) :: u32) = ucast b"
  by (rule bit_word_eqI) (auto simp: bit_simps dest: bit_imp_le_length)

lemma ucast_byte_back [simp]: "(ucast (ucast (b :: byte) :: u32) :: byte) = b"
  by (rule bit_word_eqI) (auto simp: bit_simps dest: bit_imp_le_length)

lemma ucast_byte_u64 [simp]: "(ucast (ucast (b :: byte) :: u32) :: u64) = ucast b"
  by (rule bit_word_eqI) (auto simp: bit_simps dest: bit_imp_le_length)

lemma byte_below_256: "(ucast (b :: byte) :: u64) < 256"
proof -
  have "unat (ucast b :: u64) = unat b"
    by (simp add: unsigned_ucast_eq take_bit_nat_eq_self order_less_trans [OF unat_byte_bound])
  then show ?thesis using unat_bound [of b] by (simp add: word_less_nat_alt)
qed

definition ikev1_generic_host :: "byte \<Rightarrow> byte \<Rightarrow> u16 \<Rightarrow> hval list" where
  "ikev1_generic_host np reserved len = [HNum (ucast np), HRaw [reserved], HNum (ucast len)]"

definition ikev2_generic_host :: "byte \<Rightarrow> byte \<Rightarrow> u16 \<Rightarrow> hval list" where
  "ikev2_generic_host np flags len = [HNum (ucast np), HNum (ucast flags), HNum (ucast len)]"

lemma generic_size:
  assumes "wf_desc sd" "sd_fields sd = isag_fields \<or> sd_fields sd = ikev2generic_fields"
  shows "sd_size sd = 4"
  using assms by (auto simp: wf_desc_def Let_def isag_fields_def ikev2generic_fields_def)

lemma ikev1_generic_host_ok:
  "list_all2 host_ok (butlast isag_fields) (ikev1_generic_host np reserved len)"
  by (simp add: ikev1_generic_host_def isag_fields_def host_ok_def)

lemma ikev2_generic_host_ok:
  "list_all2 host_ok (butlast ikev2generic_fields) (ikev2_generic_host np flags len)"
  by (simp add: ikev2_generic_host_def ikev2generic_fields_def host_ok_def)

lemmas generic_image_defs = generic_payload_def net_field_def next_imm_def net_length_def
  is_length_def is_af_def

lemma ikev1_generic_net:
  "net_fields (Some (of_nat (4 + length bs))) False (butlast isag_fields)
     (ikev1_generic_host np reserved len) @ bs = generic_payload np 0 bs"
  by (simp add: ikev1_generic_host_def isag_fields_def generic_image_defs)

lemma ikev2_generic_net:
  "net_fields (Some (of_nat (4 + length bs))) False (butlast ikev2generic_fields)
     (ikev2_generic_host np flags len) @ bs = generic_payload np flags bs"
  by (simp add: ikev2_generic_host_def ikev2generic_fields_def generic_image_defs)

interpretation v1: generic_emitter "ikev1_out_generic_raw reserved len" isag_fields 0
proof
  fix sd mem outs np bs mem' outs'
  assume sd: "wf_desc sd" "sd_fields sd = isag_fields" "wf_pbs mem outs"
    and e: "ikev1_out_generic_raw reserved len mem np sd outs bs = Ok (mem', outs')"
  show "write_block mem (pbs_cur outs) (generic_payload np 0 bs) = Inr mem' \<and>
      outs' = outs\<lparr>pbs_cur := pbs_cur outs + 4 + length bs\<rparr> \<and>
      pbs_cur outs + 4 + length bs \<le> pbs_roof outs"
    using generic_raw_image [OF sd(1,3), of "ikev1_generic_host np reserved len" bs mem' outs'] e sd(2)
      ikev1_generic_host_ok generic_size [OF sd(1)] ikev1_generic_net [of bs np reserved len]
    by (auto simp: ikev1_out_generic_raw_def ikev1_out_generic_def ikev1_generic_host_def)
qed

interpretation v2: generic_emitter "ikev2_out_generic_raw flags len" ikev2generic_fields flags
proof
  fix sd mem outs np bs mem' outs'
  assume sd: "wf_desc sd" "sd_fields sd = ikev2generic_fields" "wf_pbs mem outs"
    and e: "ikev2_out_generic_raw flags len mem np sd outs bs = Ok (mem', outs')"
  show "write_block mem (pbs_cur outs) (generic_payload np flags bs) = Inr mem' \<and>
      outs' = outs\<lparr>pbs_cur := pbs_cur outs + 4 + length bs\<rparr> \<and>
      pbs_cur outs + 4 + length bs \<le> pbs_roof outs"
    using generic_raw_image [OF sd(1,3), of "ikev2_generic_host np flags len" bs mem' outs'] e sd(2)
      ikev2_generic_host_ok generic_size [OF sd(1)] ikev2_generic_net [of bs np flags len]
    by (auto simp: ikev2_out_generic_raw_def ikev2_out_generic_def ikev2_generic_host_def)
qed

lemma ikev1_generic_accepts:
  assumes "enum_name payload_names_ikev1orv2 (ucast np) = Inr (Some name)"
  shows "accepts nm False 0 (butlast isag_fields) (ikev1_generic_host np reserved len)"
  using assms
  by (simp add: isag_fields_def ikev1_generic_host_def is_length_def check_field_def
      unknown_enum_def desc_enum_name_def)

lemma ikev2_generic_accepts:
  assumes "enum_name ikev2_payload_names (ucast np) = Inr (Some name)"
  shows "accepts nm False 0 (butlast ikev2generic_fields) (ikev2_generic_host np flags len)"
  using assms byte_below_256 [of flags]
  by (simp add: ikev2generic_fields_def ikev2_generic_host_def is_length_def check_field_def
      unknown_enum_def desc_enum_name_def desc_testset_def testset_critical_names_eq)

lemma ikev1_out_generic_raw_succeeds:
  assumes "wf_desc sd" "sd_fields sd = isag_fields" "wf_pbs mem outs"
    and "enum_name payload_names_ikev1orv2 (ucast np) = Inr (Some name)"
    and "pbs_cur outs + 4 + length bs \<le> pbs_roof outs"
  shows "\<exists>mem' outs'. ikev1_out_generic_raw reserved len mem np sd outs bs = Ok (mem', outs')"
  using generic_raw_succeeds [OF assms(1,3), of "ikev1_generic_host np reserved len" bs]
    ikev1_generic_host_ok ikev1_generic_accepts [OF assms(4)] generic_size [OF assms(1)] assms(2,5)
  by (auto simp: ikev1_out_generic_raw_def ikev1_out_generic_def ikev1_generic_host_def)

lemma ikev2_out_generic_raw_succeeds:
  assumes "wf_desc sd" "sd_fields sd = ikev2generic_fields" "wf_pbs mem outs"
    and "enum_name ikev2_payload_names (ucast np) = Inr (Some name)"
    and "pbs_cur outs + 4 + length bs \<le> pbs_roof outs"
  shows "\<exists>mem' outs'. ikev2_out_generic_raw flags len mem np sd outs bs = Ok (mem', outs')"
  using generic_raw_succeeds [OF assms(1,3), of "ikev2_generic_host np flags len" bs]
    ikev2_generic_host_ok ikev2_generic_accepts [OF assms(4)] generic_size [OF assms(1)] assms(2,5)
  by (auto simp: ikev2_out_generic_raw_def ikev2_out_generic_def ikev2_generic_host_def)

section \<open>Properties\<close>

lemma vendor_id_descs:
  "isakmp_vendor_id_desc \<in> set packet_descs" "ikev2_vendor_id_desc \<in> set packet_descs"
  "sd_fields isakmp_vendor_id_desc = isag_fields" "sd_fields ikev2_vendor_id_desc = ikev2generic_fields"
  by (simp_all add: packet_descs_def isakmp_vendor_id_desc_def ikev2_vendor_id_desc_def)

text \<open>
  C14: the chain of a message under construction. If the octets after the header are a chain
  of well-formed payloads and \<^verbatim>\<open>ikev1_out_generic_raw\<close> adds one whose length fits 16 bits,
  then \<^verbatim>\<open>out_modify_previous_np\<close> returns and changes one octet, the next-payload octet of the
  added payload: the chain now ends in that payload with the new octet, and the memory is that from
  before the two calls with nothing but this payload written at the end of the chain, so the header,
  the other payloads and what lies beyond are as they were.
\<close>

theorem ikev1_emit_then_modify_np:
  assumes "sd \<in> set packet_descs" "sd_fields sd = isag_fields" "payload_chain mem outs ps"
    and "ikev1_out_generic_raw reserved len mem np sd outs bs = Ok (mem', outs')" "4 + length bs < 2 ^ 16"
  shows "\<exists>mem''. out_modify_previous_np mem' np' outs' = Some (Inr mem'') \<and>
    write_block mem' (pbs_cur outs) [np'] = Inr mem'' \<and>
    write_block mem (pbs_cur outs) (generic_payload np' 0 bs) = Inr mem'' \<and>
    payload_chain mem'' outs' (ps @ [generic_payload np' 0 bs])"
  by (rule v1.emit_then_modify [OF packet_desc_wf [OF assms(1)] assms(2-5)])

definition sample_message :: pb_stream where
  "sample_message = (init_pbs 0 64 ''reply packet'')\<lparr>pbs_cur := 28\<rparr>"

lemma sample_chain: "payload_chain (replicate 64 0) sample_message []"
  by (simp add: payload_chain_def sample_message_def init_pbs_def wf_pbs_def read_block_def)

lemma np_none_known:
  "enum_name payload_names_ikev1orv2 (ucast (0 :: byte)) = Inr (Some ''ISAKMP_NEXT_NONE'')"
  by (simp add: payload_names_ikev1orv2_def payload_name_ikev1_def nth_name_def)

theorem ikev1_emit_then_modify_np_witness:
  "\<exists>mem' outs' mem''.
     ikev1_out_generic_raw 0 0 (replicate 64 0) 0 isakmp_vendor_id_desc sample_message [1, 2] = Ok (mem', outs') \<and>
     payload_chain (replicate 64 0) sample_message [] \<and>
     out_modify_previous_np mem' 13 outs' = Some (Inr mem'') \<and>
     write_block mem' (pbs_cur sample_message) [13] = Inr mem'' \<and>
     write_block (replicate 64 0) (pbs_cur sample_message) (generic_payload 13 0 [1, 2]) = Inr mem'' \<and>
     payload_chain mem'' outs' ([] @ [generic_payload 13 0 [1, 2]])"
proof -
  obtain mem' outs' where e:
    "ikev1_out_generic_raw 0 0 (replicate 64 0) 0 isakmp_vendor_id_desc sample_message [1, 2] = Ok (mem', outs')"
    using ikev1_out_generic_raw_succeeds [OF packet_desc_wf [OF vendor_id_descs(1)] vendor_id_descs(3) _ np_none_known,
        of "replicate 64 0" sample_message "[1, 2]" 0 0]
    by (auto simp: sample_message_def init_pbs_def wf_pbs_def)
  have "4 + length [1 :: byte, 2] < 2 ^ 16" by simp
  from ikev1_emit_then_modify_np [OF vendor_id_descs(1,3) sample_chain e this, of 13] e sample_chain
  show ?thesis by blast
qed

text \<open>
  C38: \<^verbatim>\<open>out_modify_previous_np\<close> has no guard against a payload of length zero: on a message
  whose first payload says its length is zero the loop never returns.
\<close>

theorem modify_np_zero_length_diverges:
  assumes "32 \<le> pbs_offset outs" "read_block mem (pbs_start outs + 30) 2 = Inr [0, 0]"
  shows "out_modify_previous_np mem np outs = None"
proof (cases "modify_np_loop mem np (pbs_start outs + 28) (pbs_offset outs - 28)")
  case None
  with assms(1) show ?thesis by (simp add: out_modify_previous_np_def Let_def)
next
  case (Some r)
  have "be_value [0, 0] = 0" by (simp add: be_value_def)
  moreover have "read_block mem (pbs_start outs + 28 + 2) 2 = Inr [0, 0]"
    using assms(2) by (simp add: add.commute)
  ultimately show ?thesis using modify_np_zero [OF Some] assms(1) by auto
qed

theorem modify_np_zero_length_diverges_witness:
  "32 \<le> pbs_offset (sample_message\<lparr>pbs_cur := 40\<rparr>) \<and>
   read_block (replicate 64 0) (pbs_start (sample_message\<lparr>pbs_cur := 40\<rparr>) + 30) 2 = Inr [0, 0] \<and>
   out_modify_previous_np (replicate 64 0) 13 (sample_message\<lparr>pbs_cur := 40\<rparr>) = None"
proof -
  have r: "replicate 2 (0 :: byte) = [0, 0]" by (simp add: numeral_2_eq_2)
  have "32 \<le> pbs_offset (sample_message\<lparr>pbs_cur := 40\<rparr>)"
    "read_block (replicate 64 0) (pbs_start (sample_message\<lparr>pbs_cur := 40\<rparr>) + 30) 2 = Inr [0, 0]"
    by (simp_all add: sample_message_def init_pbs_def pbs_offset_def size_diff_def read_block_def r)
  with modify_np_zero_length_diverges [OF this] show ?thesis by simp
qed

text \<open>
  \<^verbatim>\<open>ikev2_out_generic\<close> leaves \<^verbatim>\<open>isag_critical\<close> unset. Whatever the indeterminate octet
  \<open>flags\<close> is, \<^verbatim>\<open>ikev2_out_generic_raw\<close> accepts it and puts it on the wire as the flags of
  the payload.
\<close>

theorem ikev2_generic_sends_indeterminate_flags:
  assumes "sd \<in> set packet_descs" "sd_fields sd = ikev2generic_fields" "wf_pbs mem outs"
    and "enum_name ikev2_payload_names (ucast np) = Inr (Some name)"
    and "pbs_cur outs + 4 + length bs \<le> pbs_roof outs"
  shows "\<exists>mem'. ikev2_out_generic_raw flags len mem np sd outs bs =
      Ok (mem', outs\<lparr>pbs_cur := pbs_cur outs + 4 + length bs\<rparr>) \<and>
    mem' ! (pbs_cur outs + 1) = flags"
proof -
  note sd = packet_desc_wf [OF assms(1)]
  obtain mem' outs' where e: "ikev2_out_generic_raw flags len mem np sd outs bs = Ok (mem', outs')"
    using ikev2_out_generic_raw_succeeds [OF sd assms(2-5)] by blast
  have "write_block mem (pbs_cur outs) (generic_payload np flags bs) = Inr mem'"
    and o: "outs' = outs\<lparr>pbs_cur := pbs_cur outs + 4 + length bs\<rparr>"
    using v2.emit_image [OF sd assms(2,3) e] by auto
  then have "mem' ! (pbs_cur outs + 1) = generic_payload np flags bs ! 1"
    using write_block_nth [of mem "pbs_cur outs" _ mem' "pbs_cur outs + 1"] assms(3,5)
    by (simp add: wf_pbs_def)
  with e o show ?thesis by (simp add: generic_payload_def)
qed

lemma v2_np_none_known:
  "enum_name ikev2_payload_names (ucast (0 :: byte)) = Inr (Some ''ISAKMP_NEXT_v2NONE'')"
  by (simp add: ikev2_payload_names_def payload_name_ikev2_def nth_name_def)

theorem ikev2_generic_sends_indeterminate_flags_witness:
  "\<exists>mem'. ikev2_out_generic_raw 0x5A 0 (replicate 64 0) 0 ikev2_vendor_id_desc sample_message [1, 2] =
     Ok (mem', sample_message\<lparr>pbs_cur := 34\<rparr>) \<and> mem' ! 29 = 0x5A"
  using ikev2_generic_sends_indeterminate_flags [OF vendor_id_descs(2,4) _ v2_np_none_known,
      of "replicate 64 0" sample_message "[1, 2]" "0x5A" 0]
  by (simp add: sample_message_def init_pbs_def wf_pbs_def)

end
