(* ===== verification/Addresses.thy ===== *)
theory Addresses
  imports Prelude
begin

text \<open>
  The address library: \<^verbatim>\<open>linux/net/ipsec/{initaddr,addrtypeof,anyaddr,goodmask,subnetof}.c\<close>
  and \<^verbatim>\<open>lib/libswan/{sameaddr,initsubnet,subnettypeof,rangetosubnet,iprange,portof}.c\<close>. An
  \<^verbatim>\<open>ip_address\<close> is its family, the octets of the address in network order and its port; an
  error (\<^verbatim>\<open>err_t\<close>) is the string the code returns. Prefix lengths that the
  code keeps (\<^verbatim>\<open>int maskbits\<close>) are natural numbers; the count that \<^verbatim>\<open>initsubnet\<close> is given and
  the result of \<^verbatim>\<open>masktocount\<close> are integers, because \<^verbatim>\<open>masktocount\<close> reports an error as -1 and
  two callers hand that straight to \<^verbatim>\<open>initsubnet\<close>.
\<close>

type_synonym 'a err = "string + 'a"

section \<open>Addresses\<close>

definition AF_UNSPEC :: nat where "AF_UNSPEC = 0"
definition AF_INET :: nat where "AF_INET = 2"
definition AF_INET6 :: nat where "AF_INET6 = 10"

lemmas af_defs = AF_UNSPEC_def AF_INET_def AF_INET6_def

record ip_address =
  sin_family :: nat
  sin_bytes :: "byte list"
  sin_port :: u16

record ip_subnet =
  sn_addr :: ip_address
  maskbits :: nat

record ip_range =
  r_start :: ip_address
  r_end :: ip_address

definition addrtypeof :: "ip_address \<Rightarrow> nat" where
  "addrtypeof src = sin_family src"

text \<open>\<open>addrbytesptr\<close> stands for the read and the write variant; \<open>[]\<close> is the error value 0.\<close>

definition addrbytesptr :: "ip_address \<Rightarrow> byte list" where
  "addrbytesptr src =
     (if sin_family src = AF_INET then take 4 (sin_bytes src)
      else if sin_family src = AF_INET6 then take 16 (sin_bytes src) else [])"

definition addrlenof :: "ip_address \<Rightarrow> nat" where
  "addrlenof src = length (addrbytesptr src)"

definition addrbytesof :: "ip_address \<Rightarrow> nat \<Rightarrow> byte list \<times> nat" where
  "addrbytesof src dstlen = (take dstlen (addrbytesptr src), length (addrbytesptr src))"

definition initaddr :: "byte list \<Rightarrow> nat \<Rightarrow> ip_address err" where
  "initaddr src af =
     (if af = AF_INET then
        (if length src \<noteq> 4 then Inl ''IPv4 address must be exactly 4 bytes''
         else Inr \<lparr>sin_family = af, sin_bytes = src, sin_port = 0\<rparr>)
      else if af = AF_INET6 then
        (if length src \<noteq> 16 then Inl ''IPv6 address must be exactly 16 bytes''
         else Inr \<lparr>sin_family = af, sin_bytes = src, sin_port = 0\<rparr>)
      else Inl ''unknown address family in initaddr'')"

definition add_port :: "nat \<Rightarrow> ip_address \<Rightarrow> u16 \<Rightarrow> ip_address err" where
  "add_port af addr port =
     (if af = AF_INET \<or> af = AF_INET6 then Inr (addr\<lparr>sin_port := port\<rparr>)
      else Inl ''unknown address family in add_port'')"

definition portof :: "ip_address \<Rightarrow> int" where
  "portof src = (if sin_family src = AF_INET \<or> sin_family src = AF_INET6
     then uint (sin_port src) else - 1)"

definition setportof :: "u16 \<Rightarrow> ip_address \<Rightarrow> ip_address" where
  "setportof port dst = (if sin_family dst = AF_INET \<or> sin_family dst = AF_INET6
     then dst\<lparr>sin_port := port\<rparr> else dst)"

definition sockaddrlenof :: "ip_address \<Rightarrow> nat" where
  "sockaddrlenof src =
     (if sin_family src = AF_INET then 16 else if sin_family src = AF_INET6 then 28 else 0)"

definition anyaddr :: "nat \<Rightarrow> ip_address err" where
  "anyaddr af =
     (if af = AF_INET then initaddr [0, 0, 0, 0] af
      else if af = AF_INET6 then initaddr (replicate 16 0) af
      else Inl ''unknown address family in anyaddr/unspecaddr'')"

definition unspecaddr :: "nat \<Rightarrow> ip_address err" where
  "unspecaddr af = anyaddr af"

definition loopbackaddr :: "nat \<Rightarrow> ip_address err" where
  "loopbackaddr af =
     (if af = AF_INET then initaddr [127, 0, 0, 1] af
      else if af = AF_INET6 then initaddr (replicate 15 0 @ [1]) af
      else Inl ''unknown address family in loopbackaddr'')"

definition isanyaddr :: "ip_address \<Rightarrow> bool" where
  "isanyaddr src =
     (if sin_family src = AF_INET then addrbytesptr src = [0, 0, 0, 0]
      else if sin_family src = AF_INET6 then addrbytesptr src = replicate 16 0
      else sin_family src = AF_UNSPEC)"

definition isunspecaddr :: "ip_address \<Rightarrow> bool" where
  "isunspecaddr src = isanyaddr src"

definition isloopbackaddr :: "ip_address \<Rightarrow> bool" where
  "isloopbackaddr src =
     (if sin_family src = AF_INET then addrbytesptr src = [127, 0, 0, 1]
      else if sin_family src = AF_INET6 then addrbytesptr src = replicate 15 0 @ [1]
      else False)"

section \<open>Comparisons\<close>

fun memcmp :: "byte list \<Rightarrow> byte list \<Rightarrow> int" where
  "memcmp (a # as) (b # bs) = (if a = b then memcmp as bs else if a < b then - 1 else 1)"
| "memcmp _ _ = 0"

definition addrcmp :: "ip_address \<Rightarrow> ip_address \<Rightarrow> int" where
  "addrcmp a b =
     (let at = addrtypeof a; bt = addrtypeof b in
      if at \<noteq> bt then (if at < bt then - 1 else 1)
      else
        let ap = addrbytesptr a; bp = addrbytesptr b;
            n = min (length ap) (length bp);
            c = memcmp (take n ap) (take n bp)
        in if c \<noteq> 0 then (if c < 0 then - 1 else 1)
           else if length ap \<noteq> length bp then (if length ap < length bp then - 1 else 1)
           else 0)"

definition sameaddr :: "ip_address \<Rightarrow> ip_address \<Rightarrow> bool" where
  "sameaddr a b \<longleftrightarrow> addrcmp a b = 0"

record ip_said =
  said_dst :: ip_address
  said_spi :: u32
  said_proto :: int

definition samesaid :: "ip_said \<Rightarrow> ip_said \<Rightarrow> bool" where
  "samesaid a b =
     (if said_spi a \<noteq> said_spi b then False
      else if \<not> sameaddr (said_dst a) (said_dst b) then False
      else if said_proto a \<noteq> said_proto b then False else True)"

definition sameaddrtype :: "ip_address \<Rightarrow> ip_address \<Rightarrow> bool" where
  "sameaddrtype a b \<longleftrightarrow> addrtypeof a = addrtypeof b"

definition subnettypeof :: "ip_subnet \<Rightarrow> nat" where
  "subnettypeof src = sin_family (sn_addr src)"

definition samesubnettype :: "ip_subnet \<Rightarrow> ip_subnet \<Rightarrow> bool" where
  "samesubnettype a b \<longleftrightarrow> subnettypeof a = subnettypeof b"

definition samesubnet :: "ip_subnet \<Rightarrow> ip_subnet \<Rightarrow> bool" where
  "samesubnet a b \<longleftrightarrow> sameaddr (sn_addr a) (sn_addr b) \<and> maskbits a = maskbits b"

definition subnetishost :: "ip_subnet \<Rightarrow> bool" where
  "subnetishost a \<longleftrightarrow> maskbits a = addrlenof (sn_addr a) * 8"

text \<open>
  The loop of \<^verbatim>\<open>samenbits\<close>: whole octets, then the high bits of one octet. The guard of
  \<^verbatim>\<open>samenbits\<close> keeps it from running off the octets.
\<close>

fun samenbits_loop :: "nat \<Rightarrow> byte list \<Rightarrow> byte list \<Rightarrow> bool" where
  "samenbits_loop nbits (a # as) (b # bs) =
     (if nbits \<ge> 8 then a = b \<and> samenbits_loop (nbits - 8) as bs
      else nbits > 0 \<longrightarrow> a AND NOT (drop_bit nbits 0xFF) = b AND NOT (drop_bit nbits 0xFF))"
| "samenbits_loop nbits _ _ = (nbits = 0)"

definition samenbits :: "ip_address \<Rightarrow> ip_address \<Rightarrow> nat \<Rightarrow> bool" where
  "samenbits a b nbits =
     (if addrtypeof a \<noteq> addrtypeof b then False
      else let ap = addrbytesptr a; n = length ap in
        if n = 0 then False
        else if nbits > n * 8 then False
        else samenbits_loop nbits ap (addrbytesptr b))"

definition addrinsubnet :: "ip_address \<Rightarrow> ip_subnet \<Rightarrow> bool" where
  "addrinsubnet a s =
     (if addrtypeof a \<noteq> subnettypeof s then False
      else if \<not> samenbits a (sn_addr s) (maskbits s) then False else True)"

definition subnetinsubnet :: "ip_subnet \<Rightarrow> ip_subnet \<Rightarrow> bool" where
  "subnetinsubnet a b =
     (if subnettypeof a \<noteq> subnettypeof b then False
      else if maskbits a < maskbits b then False
      else if \<not> samenbits (sn_addr a) (sn_addr b) (maskbits b) then False else True)"

section \<open>Subnets\<close>

datatype clash = Clash_zero | Clash_die | Clash_other

text \<open>
  The loop of \<^verbatim>\<open>initsubnet\<close> over the octets from the boundary on: clear the host bits (\<open>m\<close>
  of the first octet, all of the others) or report the first octet that has some.
\<close>

fun clear_host :: "bool \<Rightarrow> byte \<Rightarrow> byte list \<Rightarrow> byte list err" where
  "clear_host die m [] = Inr []"
| "clear_host die m (p # ps) =
     (if p AND m \<noteq> 0 \<and> die then Inl ''improper subnet, host-part bits on''
      else case clear_host die 0xFF ps of
        Inl e \<Rightarrow> Inl e
      | Inr ps' \<Rightarrow> Inr ((if p AND m \<noteq> 0 then p AND NOT m else p) # ps'))"

definition initsubnet_count :: "ip_address \<Rightarrow> nat \<Rightarrow> clash \<Rightarrow> ip_subnet err" where
  "initsubnet_count addr count clash =
     (let p = addrbytesptr addr; n = length p in
      if n = 0 then Inl ''unknown address family''
      else if clash = Clash_other then Inl ''unknown clash-control value in initsubnet''
      else let c = count div 8 in
        if c > n then Inl ''impossible mask count''
        else
          let m = (if n - c > 0 \<and> count mod 8 \<noteq> 0 then drop_bit (count mod 8) 0xFF else 0xFF)
          in case clear_host (clash = Clash_die) m (drop c p) of
               Inl e \<Rightarrow> Inl e
             | Inr tail \<Rightarrow> Inr \<lparr>sn_addr = addr\<lparr>sin_bytes := take c p @ tail\<rparr>, maskbits = count\<rparr>)"

text \<open>
  \<^verbatim>\<open>initsubnet\<close> itself. A count below -7 moves the octet pointer before the address, one
  between -7 and -1 leaves a negative remainder by which \<^verbatim>\<open>m\<close> is shifted.
\<close>

definition initsubnet :: "ip_address \<Rightarrow> int \<Rightarrow> clash \<Rightarrow> (string, ip_subnet) outcome" where
  "initsubnet addr count clash =
     (if length (addrbytesptr addr) = 0 then Err ''unknown address family''
      else if clash = Clash_other then Err ''unknown clash-control value in initsubnet''
      else if count \<le> - 8 then Abort Out_of_bounds
      else if count < 0 then Abort Bad_shift
      else outcome_of (initsubnet_count addr (nat count) clash))"

definition addrtosubnet :: "ip_address \<Rightarrow> ip_subnet err" where
  "addrtosubnet addr =
     (let n = addrlenof addr in
      if n = 0 then Inl ''unknown address family''
      else Inr \<lparr>sn_addr = addr, maskbits = n * 8\<rparr>)"

definition networkof :: "ip_subnet \<Rightarrow> ip_address" where
  "networkof src = sn_addr src"

text \<open>The mask octets that \<^verbatim>\<open>maskof\<close> builds; \<open>None\<close> when it leaves its result untouched.\<close>

fun mask_bytes :: "nat \<Rightarrow> nat \<Rightarrow> byte list" where
  "mask_bytes 0 b = []"
| "mask_bytes (Suc n) b =
     (if b \<ge> 8 then 0xFF # mask_bytes n (b - 8)
      else if b \<noteq> 0 then push_bit (8 - b) 0xFF # replicate n 0
      else 0 # replicate n 0)"

definition maskof :: "ip_subnet \<Rightarrow> ip_address err option" where
  "maskof src =
     (let n = addrlenof (sn_addr src) in
      if maskbits src > n * 8 \<or> n > 16 then None
      else Some (initaddr (mask_bytes n (maskbits src)) (addrtypeof (sn_addr src))))"

text \<open>
  \<^verbatim>\<open>masktocount\<close>: full octets, one octet with a boundary, zero octets. The shift loop is
  given eight rounds: after eight shifts nothing of the octet is left.
\<close>

fun lead_ones :: "nat \<Rightarrow> byte \<Rightarrow> nat \<times> byte" where
  "lead_ones 0 b = (0, b)"
| "lead_ones (Suc k) b =
     (if bit b 7 then (let (n, b') = lead_ones k (push_bit 1 b) in (Suc n, b')) else (0, b))"

fun count_mask :: "byte list \<Rightarrow> nat option" where
  "count_mask [] = Some 0"
| "count_mask (p # ps) =
     (if p = 0xFF then map_option (\<lambda>n. n + 8) (count_mask ps)
      else if p \<noteq> 0 then
        (let (n, b) = lead_ones 8 p in
         if b \<noteq> 0 then None else if list_all (\<lambda>q. q = 0) ps then Some n else None)
      else if list_all (\<lambda>q. q = 0) ps then Some 0 else None)"

definition masktocount :: "ip_address \<Rightarrow> int" where
  "masktocount src =
     (let p = addrbytesptr src in
      if length p = 0 then - 1 else case count_mask p of None \<Rightarrow> - 1 | Some n \<Rightarrow> int n)"

section \<open>Ranges\<close>

text \<open>
  \<^verbatim>\<open>rangetosubnet\<close>: the octets the bounds share, an octet with the boundary (its loop runs
  over the bit positions from the top and stops at the first difference), and the octets
  that must be 0 and 255.
\<close>

fun mid_octet :: "nat \<Rightarrow> byte \<Rightarrow> byte \<Rightarrow> nat \<times> byte \<times> byte" where
  "mid_octet 0 fb tb = (0, fb, tb)"
| "mid_octet (Suc k) fb tb =
     (let m = push_bit k 1 in
      if fb AND m = tb AND m
      then (let (n, r) = mid_octet k (fb AND NOT m) (tb OR m) in (Suc n, r))
      else (0, fb, tb))"

definition zero_full :: "byte list \<Rightarrow> byte list \<Rightarrow> bool" where
  "zero_full f t \<longleftrightarrow> list_all2 (\<lambda>a b. a = 0 \<and> b = 0xFF) f t"

fun range_prefix :: "byte list \<Rightarrow> byte list \<Rightarrow> nat err" where
  "range_prefix (f # fs) (t # ts) =
     (if f = t then (case range_prefix fs ts of Inl e \<Rightarrow> Inl e | Inr n \<Rightarrow> Inr (n + 8))
      else if \<not> (f = 0 \<and> t = 0xFF) then
        (let (n, fb, tb) = mid_octet 8 f t in
         if fb \<noteq> 0 \<or> tb \<noteq> 0xFF then Inl ''not a valid subnet''
         else if zero_full fs ts then Inr n else Inl ''invalid subnet'')
      else if zero_full fs ts then Inr 0 else Inl ''invalid subnet'')"
| "range_prefix _ _ = Inr 0"

definition rangetosubnet :: "ip_address \<Rightarrow> ip_address \<Rightarrow> (string, ip_subnet) outcome" where
  "rangetosubnet from to =
     (if addrtypeof from \<noteq> addrtypeof to then Err ''mismatched address types''
      else let fp = addrbytesptr from; tp = addrbytesptr to in
        if length fp = 0 then Err ''unknown address type''
        else if length fp \<noteq> length tp then Err ''internal size mismatch in rangetosubnet''
        else case range_prefix fp tp of
          Inl e \<Rightarrow> Err e | Inr nnet \<Rightarrow> initsubnet from (int nnet) Clash_die)"

text \<open>
  \<^verbatim>\<open>iprange_bits\<close>: the difference of two addresses octet by octet from the right, its
  complement when it is negative, and the position of its highest bit. The loops return the
  octets and the last carry.
\<close>

fun sub_octets :: "byte list \<Rightarrow> byte list \<Rightarrow> byte list \<times> int" where
  "sub_octets (h # hs) (l # ls) =
     (let (ds, carry) = sub_octets hs ls; val = uint h - uint l - carry in
      if val < 0 then (word_of_int (val + 0x100) # ds, 1) else (word_of_int val # ds, 0))"
| "sub_octets _ _ = ([], 0)"

fun complement_octets :: "byte list \<Rightarrow> byte list \<times> int" where
  "complement_octets [] = ([], 1)"
| "complement_octets (d # ds) =
     (let (ds', carry) = complement_octets ds; val = 0xFF - uint d + carry in
      if val \<ge> 0x100 then (word_of_int (val - 0x100) # ds', 1) else (word_of_int val # ds', 0))"

text \<open>The leftmost bit of an octet that is not zero: the mask runs from \<^verbatim>\<open>0x80\<close> down.\<close>

fun leading_zeros :: "nat \<Rightarrow> byte \<Rightarrow> nat" where
  "leading_zeros 0 d = 0"
| "leading_zeros (Suc k) d = (if bit d k then 0 else Suc (leading_zeros k d))"

definition high_bit :: "byte list \<Rightarrow> nat" where
  "high_bit ds =
     (case dropWhile (\<lambda>d. d = 0) ds of
        [] \<Rightarrow> 0
      | d # rest \<Rightarrow> (length rest + 1) * 8 - leading_zeros 8 d)"

definition iprange_bits :: "ip_address \<Rightarrow> ip_address \<Rightarrow> int" where
  "iprange_bits low high =
     (if addrtypeof high \<noteq> addrtypeof low then - 1
      else let hp = addrbytesptr high; lp = addrbytesptr low in
        if length hp = 0 then - 1
        else if length hp \<noteq> length lp then - 1
        else let (ds, carry) = sub_octets hp lp;
                 ds' = (if carry \<noteq> 0 then fst (complement_octets ds) else ds)
             in int (high_bit ds'))"

section \<open>Masks of 32 and 128 bits\<close>

text \<open>A \<^verbatim>\<open>struct in_addr\<close> is the 32-bit value \<^verbatim>\<open>ntohl\<close> gives; \<^verbatim>\<open>unsigned long\<close> has 64 bits.\<close>

definition crcs1b :: "u64 \<Rightarrow> u64" where
  "crcs1b x = ((x OR (x - 1)) + 1) AND x"

definition goodmask :: "u32 \<Rightarrow> bool" where
  "goodmask msk =
     (let x = ucast msk :: u64 in x = 0 \<or> (crcs1b x = 0 \<and> x AND push_bit 31 1 \<noteq> 0))"

definition masktobits_step :: "u64 \<Rightarrow> nat \<Rightarrow> u32 \<times> u64 \<Rightarrow> u32 \<times> u64" where
  "masktobits_step test k = (\<lambda>(masklen, m).
     if m AND test \<noteq> 0 then (masklen OR of_nat k, push_bit k m) else (masklen, m))"

definition masktobits :: "u32 \<Rightarrow> int" where
  "masktobits msk =
     (let m = ucast msk :: u64 in
      if \<not> goodmask msk then - 1
      else if m AND 1 \<noteq> 0 then 32
      else
        uint (fst (masktobits_step (push_bit 1 0x40000000) 1
          (masktobits_step (push_bit 1 0x30000000) 2
          (masktobits_step (push_bit 1 0x0f000000) 4
          (masktobits_step (push_bit 1 0x00ff0000) 8
          (masktobits_step (push_bit 1 0x0000ffff) 16 (0, m))))))))"

definition bitstomask :: "int \<Rightarrow> u32" where
  "bitstomask n =
     (if 0 < n \<and> n \<le> 32 then ucast (NOT (push_bit (nat (32 - n)) 1 - 1) :: u64) else 0)"

text \<open>A \<^verbatim>\<open>struct in6_addr\<close> as four 32-bit values.\<close>

fun mask6_words :: "u32 list \<Rightarrow> int \<Rightarrow> int" where
  "mask6_words [] bits = bits"
| "mask6_words (w # ws) bits =
     (if w = 0xFFFFFFFF then mask6_words ws (bits + 32)
      else if \<not> goodmask w then - 1 else bits + masktobits w)"

definition mask6tobits :: "u32 list \<Rightarrow> int" where
  "mask6tobits msk = mask6_words (take 4 msk) 0"

text \<open>
  \<^verbatim>\<open>bitstomask6\<close> fills an automatic variable; \<open>junk\<close> is its content before the
  assignments. The last branch assigns word 0 four times.
\<close>

definition bitstomask6 :: "u32 list \<Rightarrow> int \<Rightarrow> u32 list" where
  "bitstomask6 junk n =
     (if 0 < n \<and> n \<le> 32 then [ucast (NOT (push_bit (nat (32 - n)) 1 - 1) :: u64), 0, 0, 0]
      else if 32 < n \<and> n \<le> 64 then
        [0xFFFFFFFF, ucast (NOT (push_bit (nat (64 - n)) 1 - 1) :: u64), 0, 0]
      else if 64 < n \<and> n \<le> 96 then
        [0xFFFFFFFF, 0xFFFFFFFF, ucast (NOT (push_bit (nat (96 - n)) 1 - 1) :: u64), 0]
      else if 96 < n \<and> n \<le> 128 then
        [0xFFFFFFFF, 0xFFFFFFFF, 0xFFFFFFFF, ucast (NOT (push_bit (nat (128 - n)) 1 - 1) :: u64)]
      else junk[0 := 0, 0 := 0, 0 := 0, 0 := 0])"

definition subnetof :: "u32 \<Rightarrow> u32 \<Rightarrow> u32" where
  "subnetof addr msk = addr AND msk"

definition hostof :: "u32 \<Rightarrow> u32 \<Rightarrow> u32" where
  "hostof addr msk = addr AND NOT msk"

definition broadcastof :: "u32 \<Rightarrow> u32 \<Rightarrow> u32" where
  "broadcastof addr msk = addr OR NOT msk"

end
