(* ===== verification/AddressFacts.thy ===== *)
theory AddressFacts
  imports Addresses
begin

text \<open>
  What the address library computes. An address of a known family has a value (\<open>addr_val\<close>, the
  number its octets spell) below two to its width, and a well-formed subnet is an aligned block
  of such values. The comparisons, the membership tests, the conversions between ranges, subnets
  and masks and the size of a range are related to these values.
\<close>

section \<open>Values of octet strings\<close>

lemma div_low_part: "(r :: nat) < 2 ^ m \<Longrightarrow> k \<le> m \<Longrightarrow> (a * 2 ^ m + r) div 2 ^ k = a * 2 ^ (m - k) + r div 2 ^ k"
proof -
  assume "k \<le> m"
  then have "(2 :: nat) ^ m = 2 ^ (m - k) * 2 ^ k" by (simp flip: power_add)
  then show ?thesis by (simp add: mult.assoc [symmetric])
qed

lemma div_high_part: "(r :: nat) < 2 ^ m \<Longrightarrow> (a * 2 ^ m + r) div 2 ^ (m + j) = a div 2 ^ j"
  by (simp add: power_add div_mult2_eq)

lemma sgn_nat_diff:
  "(p :: nat) < q \<Longrightarrow> sgn (int p - int q) = - 1" "(q :: nat) < p \<Longrightarrow> sgn (int p - int q) = 1"
  by (simp_all add: sgn_if)

lemma bit_255 [simp]: "bit (255 :: int) i \<longleftrightarrow> i < 8"
proof -
  have eq: "(255 :: int) = mask 8" by (simp add: mask_eq_exp_minus_1)
  show ?thesis unfolding eq bit_mask_iff by simp
qed

lemma memcmp_value:
  "length xs = length ys \<Longrightarrow> memcmp xs ys = sgn (int (be_nat xs) - int (be_nat ys))"
proof (induction xs ys rule: list_induct2)
  case (Cons x xs y ys)
  let ?M = "2 ^ (8 * length ys) :: nat"
  have b: "be_nat xs < ?M" "be_nat ys < ?M"
    using be_nat_bound [of xs] be_nat_bound [of ys] Cons.hyps by simp_all
  consider "x = y" | "x < y" | "y < x" by (meson linorder_less_linear)
  then show ?case
  proof cases
    case 1
    then show ?thesis using Cons by simp
  next
    case 2
    then have "(unat x + 1) * ?M \<le> unat y * ?M"
      by (intro mult_right_mono) (auto simp: word_less_nat_alt)
    then have "be_nat (x # xs) < be_nat (y # ys)" using b Cons.hyps by simp
    moreover have "x \<noteq> y" using 2 by auto
    ultimately show ?thesis
      using sgn_nat_diff(1) 2 by (simp del: be_nat.simps of_nat_add of_nat_mult)
  next
    case 3
    then have "(unat y + 1) * ?M \<le> unat x * ?M"
      by (intro mult_right_mono) (auto simp: word_less_nat_alt)
    then have "be_nat (y # ys) < be_nat (x # xs)" using b Cons.hyps by simp
    moreover have "x \<noteq> y" "\<not> x < y" using 3 by auto
    ultimately show ?thesis
      using sgn_nat_diff(2) by (simp del: be_nat.simps of_nat_add of_nat_mult)
  qed
qed simp

lemma drop_bit_eq_bits:
  fixes a b :: byte
  shows "drop_bit k a = drop_bit k b \<longleftrightarrow> (\<forall>i. i < 8 \<longrightarrow> k \<le> i \<longrightarrow> bit a i = bit b i)"
proof
  assume eq: "drop_bit k a = drop_bit k b"
  have "bit a i = bit b i" if "k \<le> i" for i
  proof -
    have "bit (drop_bit k a) (i - k) = bit (drop_bit k b) (i - k)" by (simp add: eq)
    with that show ?thesis by (simp add: bit_drop_bit_eq)
  qed
  then show "\<forall>i. i < 8 \<longrightarrow> k \<le> i \<longrightarrow> bit a i = bit b i" by blast
next
  assume "\<forall>i. i < 8 \<longrightarrow> k \<le> i \<longrightarrow> bit a i = bit b i"
  moreover have "i < 8" if "bit c i" for c :: byte and i
    using bit_imp_le_length [OF that] by simp
  ultimately show "drop_bit k a = drop_bit k b"
    by (intro bit_word_eqI) (metis bit_drop_bit_eq comp_apply le_add1)
qed

lemma high_bits_eq:
  fixes a b :: byte
  assumes "n \<le> 8"
  shows "a AND NOT (drop_bit n 0xFF) = b AND NOT (drop_bit n 0xFF) \<longleftrightarrow>
    unat a div 2 ^ (8 - n) = unat b div 2 ^ (8 - n)"
proof -
  have "a AND NOT (drop_bit n 0xFF) = b AND NOT (drop_bit n 0xFF) \<longleftrightarrow>
      (\<forall>i. i < 8 \<longrightarrow> 8 - n \<le> i \<longrightarrow> bit a i = bit b i)"
    using assms by (auto simp: bit_eq_iff bit_simps)
  also have "\<dots> \<longleftrightarrow> drop_bit (8 - n) a = drop_bit (8 - n) b"
    by (rule drop_bit_eq_bits [symmetric])
  also have "\<dots> \<longleftrightarrow> unat (drop_bit (8 - n) a) = unat (drop_bit (8 - n) b)"
    by (simp add: word_unat_eq_iff)
  also have "\<dots> \<longleftrightarrow> unat a div 2 ^ (8 - n) = unat b div 2 ^ (8 - n)"
    unfolding unat_drop_bit_eq by (simp add: drop_bit_eq_div)
  finally show ?thesis .
qed

lemma samenbits_loop_value:
  "length xs = length ys \<Longrightarrow> n \<le> 8 * length xs \<Longrightarrow> samenbits_loop n xs ys \<longleftrightarrow>
     be_nat xs div 2 ^ (8 * length xs - n) = be_nat ys div 2 ^ (8 * length xs - n)"
proof (induction xs ys arbitrary: n rule: list_induct2)
  case (Cons x xs y ys)
  let ?L = "8 * length ys"
  have b: "be_nat xs < 2 ^ ?L" "be_nat ys < 2 ^ ?L"
    using be_nat_bound [of xs] be_nat_bound [of ys] Cons.hyps by simp_all
  show ?case
  proof (cases "8 \<le> n")
    case True
    define k where "k = ?L - (n - 8)"
    have k: "k \<le> ?L" "8 * length (x # xs) - n = k"
      using True Cons.hyps Cons.prems by (auto simp: k_def)
    have q: "be_nat xs div 2 ^ k < 2 ^ (?L - k)" "be_nat ys div 2 ^ k < 2 ^ (?L - k)"
      using b k(1) by (auto simp: less_mult_imp_div_less simp flip: power_add)
    have eq: "unat x * 2 ^ (?L - k) + be_nat xs div 2 ^ k = unat y * 2 ^ (?L - k) + be_nat ys div 2 ^ k \<longleftrightarrow>
        x = y \<and> be_nat xs div 2 ^ k = be_nat ys div 2 ^ k" (is "?l \<longleftrightarrow> ?r")
    proof
      assume ?l
      then have "(unat x * 2 ^ (?L - k) + be_nat xs div 2 ^ k) div 2 ^ (?L - k) =
          (unat y * 2 ^ (?L - k) + be_nat ys div 2 ^ k) div 2 ^ (?L - k)" by simp
      then have "unat x = unat y" using q by simp
      with \<open>?l\<close> show ?r by (simp add: word_unat_eq_iff)
    qed simp
    have "samenbits_loop n (x # xs) (y # ys) \<longleftrightarrow> x = y \<and> be_nat xs div 2 ^ k = be_nat ys div 2 ^ k"
      using True Cons by (simp add: k_def)
    then show ?thesis
      unfolding k(2) using b k(1) eq Cons.hyps by (simp add: div_low_part)
  next
    case False
    have k: "8 * length (x # xs) - n = ?L + (8 - n)" using False Cons.hyps by simp
    have "samenbits_loop n (x # xs) (y # ys) \<longleftrightarrow> unat x div 2 ^ (8 - n) = unat y div 2 ^ (8 - n)"
      using False high_bits_eq [of n x y] by (cases "n = 0") (auto simp: div_less)
    then show ?thesis
      unfolding k using b Cons.hyps by (simp add: div_high_part)
  qed
qed simp

section \<open>Well-formed addresses and their values\<close>

definition wf_addr :: "ip_address \<Rightarrow> bool" where
  "wf_addr a \<longleftrightarrow> sin_family a = AF_INET \<and> length (sin_bytes a) = 4 \<or>
     sin_family a = AF_INET6 \<and> length (sin_bytes a) = 16"

definition addr_width :: "ip_address \<Rightarrow> nat" where
  "addr_width a = (if sin_family a = AF_INET then 32 else 128)"

definition addr_val :: "ip_address \<Rightarrow> nat" where
  "addr_val a = be_nat (sin_bytes a)"

lemma wf_addr_bytes [simp]: "wf_addr a \<Longrightarrow> addrbytesptr a = sin_bytes a"
  by (auto simp: wf_addr_def addrbytesptr_def af_defs)

lemma wf_addr_length: "wf_addr a \<Longrightarrow> 8 * length (sin_bytes a) = addr_width a"
  by (auto simp: wf_addr_def addr_width_def af_defs)

lemma wf_addr_length_pos: "wf_addr a \<Longrightarrow> sin_bytes a \<noteq> []"
  by (auto simp: wf_addr_def)

lemma wf_addr_same_length:
  "wf_addr a \<Longrightarrow> wf_addr b \<Longrightarrow> sin_family a = sin_family b \<Longrightarrow> length (sin_bytes a) = length (sin_bytes b)"
  by (auto simp: wf_addr_def af_defs)

lemma addr_width_family: "sin_family a = sin_family b \<Longrightarrow> addr_width a = addr_width b"
  by (simp add: addr_width_def)

lemma addr_val_bound: "wf_addr a \<Longrightarrow> addr_val a < 2 ^ addr_width a"
  using be_nat_bound [of "sin_bytes a"] wf_addr_length [of a] by (simp add: addr_val_def)

lemma initaddr_wf: "initaddr bs af = Inr a \<Longrightarrow> wf_addr a \<and> sin_bytes a = bs \<and> sin_family a = af \<and> sin_port a = 0"
  by (auto simp: initaddr_def wf_addr_def split: if_splits)

lemma addrcmp_value:
  assumes "wf_addr a" "wf_addr b"
  shows "addrcmp a b = (if sin_family a = sin_family b
    then sgn (int (addr_val a) - int (addr_val b))
    else sgn (int (sin_family a) - int (sin_family b)))"
proof (cases "sin_family a = sin_family b")
  case True
  have l: "length (sin_bytes a) = length (sin_bytes b)"
    using wf_addr_same_length [OF assms True] .
  have "memcmp (sin_bytes a) (sin_bytes b) = sgn (int (addr_val a) - int (addr_val b))"
    using memcmp_value [OF l] by (simp add: addr_val_def)
  with True l assms show ?thesis
    by (simp add: addrcmp_def addrtypeof_def sgn_if)
next
  case False
  then show ?thesis by (simp add: addrcmp_def addrtypeof_def sgn_if)
qed

lemma sameaddr_iff:
  assumes "wf_addr a" "wf_addr b"
  shows "sameaddr a b \<longleftrightarrow> sin_family a = sin_family b \<and> sin_bytes a = sin_bytes b"
  using be_nat_inject [OF wf_addr_same_length [OF assms]]
  by (auto simp: sameaddr_def addrcmp_value [OF assms] sgn_if addr_val_def)

lemma samenbits_value:
  assumes "wf_addr a" "wf_addr b"
  shows "samenbits a b n \<longleftrightarrow> sin_family a = sin_family b \<and> n \<le> addr_width a \<and>
    addr_val a div 2 ^ (addr_width a - n) = addr_val b div 2 ^ (addr_width a - n)"
proof (cases "sin_family a = sin_family b \<and> n \<le> addr_width a")
  case True
  then have "samenbits_loop n (sin_bytes a) (sin_bytes b) \<longleftrightarrow>
    addr_val a div 2 ^ (addr_width a - n) = addr_val b div 2 ^ (addr_width a - n)"
    using samenbits_loop_value [OF wf_addr_same_length [OF assms], of n] wf_addr_length [OF assms(1)]
    by (simp add: addr_val_def)
  with True assms wf_addr_length [OF assms(1)] wf_addr_length_pos [OF assms(1)] show ?thesis
    by (auto simp: samenbits_def addrtypeof_def Let_def)
next
  case False
  with assms wf_addr_length [OF assms(1)] show ?thesis
    by (auto simp: samenbits_def addrtypeof_def Let_def)
qed

section \<open>Subnets as sets of addresses\<close>

definition wf_subnet :: "ip_subnet \<Rightarrow> bool" where
  "wf_subnet s \<longleftrightarrow> wf_addr (sn_addr s) \<and> maskbits s \<le> addr_width (sn_addr s) \<and>
     addr_val (sn_addr s) mod 2 ^ (addr_width (sn_addr s) - maskbits s) = 0"

definition subnet_size :: "ip_subnet \<Rightarrow> nat" where
  "subnet_size s = 2 ^ (addr_width (sn_addr s) - maskbits s)"

definition subnet_addrs :: "ip_subnet \<Rightarrow> nat set" where
  "subnet_addrs s = {addr_val (sn_addr s) ..< addr_val (sn_addr s) + subnet_size s}"

lemma same_block: "0 < (m :: nat) \<Longrightarrow> b mod m = 0 \<Longrightarrow> a div m = b div m \<longleftrightarrow> b \<le> a \<and> a < b + m"
proof
  assume m: "0 < m" "b mod m = 0" and e: "a div m = b div m"
  have "a = b div m * m + a mod m" using div_mult_mod_eq [of a m] e by simp
  moreover have "b = b div m * m" using div_mult_mod_eq [of b m] m(2) by simp
  ultimately have "a = b + a mod m" by simp
  moreover have "a mod m < m" using m(1) by simp
  ultimately show "b \<le> a \<and> a < b + m" by (metis add_less_cancel_left le_add1)
next
  assume m: "0 < m" "b mod m = 0" and "b \<le> a \<and> a < b + m"
  then obtain r where "a = b + r" "r < m" by (metis le_Suc_ex nat_add_left_cancel_less)
  then show "a div m = b div m" using m div_add1_eq [of b r m] by simp
qed

lemma addrinsubnet_iff:
  assumes "wf_addr a" "wf_subnet s"
  shows "addrinsubnet a s \<longleftrightarrow> sin_family a = subnettypeof s \<and> addr_val a \<in> subnet_addrs s"
proof -
  have s: "wf_addr (sn_addr s)" "maskbits s \<le> addr_width (sn_addr s)"
    "addr_val (sn_addr s) mod subnet_size s = 0"
    using assms(2) by (auto simp: wf_subnet_def subnet_size_def)
  have "0 < subnet_size s" by (simp add: subnet_size_def)
  from same_block [OF this s(3)] s samenbits_value [OF assms(1) s(1)] addr_width_family [of a "sn_addr s"]
  show ?thesis
    by (auto simp: addrinsubnet_def addrtypeof_def subnettypeof_def subnet_addrs_def subnet_size_def)
qed

lemma subnet_addrs_bound:
  assumes "wf_subnet s" "x \<in> subnet_addrs s"
  shows "x < 2 ^ addr_width (sn_addr s)"
proof -
  let ?w = "addr_width (sn_addr s)" and ?v = "addr_val (sn_addr s)" and ?m = "subnet_size s"
  have s: "wf_addr (sn_addr s)" "maskbits s \<le> ?w" "?v mod ?m = 0"
    using assms(1) by (auto simp: wf_subnet_def subnet_size_def)
  have w: "2 ^ ?w = 2 ^ maskbits s * ?m" using s(2) by (simp add: subnet_size_def flip: power_add)
  have "?v div ?m < 2 ^ maskbits s"
    using addr_val_bound [OF s(1)] w by (simp add: less_mult_imp_div_less)
  then have "(?v div ?m + 1) * ?m \<le> 2 ^ maskbits s * ?m" by (intro mult_right_mono) auto
  moreover have "(?v div ?m + 1) * ?m = ?v + ?m" using s(3) by (simp add: algebra_simps mod_eq_0_iff_dvd)
  ultimately show ?thesis using assms(2) w by (simp add: subnet_addrs_def)
qed

lemma subnetinsubnet_iff:
  assumes "wf_subnet a" "wf_subnet b"
  shows "subnetinsubnet a b \<longleftrightarrow> subnettypeof a = subnettypeof b \<and> subnet_addrs a \<subseteq> subnet_addrs b"
proof (cases "subnettypeof a = subnettypeof b")
  case True
  let ?w = "addr_width (sn_addr a)" and ?v = "addr_val (sn_addr a)" and ?u = "addr_val (sn_addr b)"
  have a: "wf_addr (sn_addr a)" "maskbits a \<le> ?w" "?v mod subnet_size a = 0"
    using assms(1) by (auto simp: wf_subnet_def subnet_size_def)
  have b: "wf_addr (sn_addr b)" "maskbits b \<le> ?w" "?u mod subnet_size b = 0" "subnet_size b = 2 ^ (?w - maskbits b)"
    using assms(2) True addr_width_family [of "sn_addr a" "sn_addr b"]
    by (auto simp: wf_subnet_def subnet_size_def subnettypeof_def)
  have pos: "0 < subnet_size a" "0 < subnet_size b" by (simp_all add: subnet_size_def)
  have iff: "subnetinsubnet a b \<longleftrightarrow> maskbits b \<le> maskbits a \<and> ?v \<in> subnet_addrs b"
    using True samenbits_value [OF a(1) b(1), of "maskbits b"] b same_block [OF pos(2) b(3), of ?v]
    by (auto simp: subnetinsubnet_def subnettypeof_def subnet_addrs_def)
  show ?thesis
  proof
    assume "subnetinsubnet a b"
    then have m: "maskbits b \<le> maskbits a" and v: "?v \<in> subnet_addrs b" using iff by auto
    define k where "k = 2 ^ (maskbits a - maskbits b) * (1::nat)"
    have kb: "subnet_size b = k * subnet_size a"
      unfolding b(4) using m a(2) by (simp add: k_def subnet_size_def [of a] flip: power_add)
    have "subnet_size a dvd ?v" "subnet_size a dvd ?u + subnet_size b"
      using a(3) b(3) kb by (auto simp: mod_eq_0_iff_dvd dest: dvd_mult_right)
    moreover have "?v < ?u + subnet_size b" using v by (simp add: subnet_addrs_def)
    ultimately have "?v + subnet_size a \<le> ?u + subnet_size b"
      using dvd_imp_le [OF dvd_diff_nat, of "subnet_size a" "?u + subnet_size b" ?v] by simp
    with True v show "subnettypeof a = subnettypeof b \<and> subnet_addrs a \<subseteq> subnet_addrs b"
      by (auto simp: subnet_addrs_def)
  next
    assume s: "subnettypeof a = subnettypeof b \<and> subnet_addrs a \<subseteq> subnet_addrs b"
    then have "{?v ..< ?v + subnet_size a} \<subseteq> {?u ..< ?u + subnet_size b}" by (simp add: subnet_addrs_def)
    then have "?u \<le> ?v" "?v + subnet_size a \<le> ?u + subnet_size b"
      using pos(1) by (auto simp: ivl_subset)
    then have "subnet_size a \<le> subnet_size b" by simp
    then have "maskbits b \<le> maskbits a" using a(2) b(2,4) by (simp add: subnet_size_def)
    with s pos(1) show "subnetinsubnet a b" by (auto simp: iff subnet_addrs_def)
  qed
next
  case False
  then show ?thesis by (simp add: subnetinsubnet_def)
qed

section \<open>Making a subnet\<close>

lemma unat_and_low:
  fixes p :: byte
  assumes "c \<le> 8"
  shows "unat (p AND drop_bit c 0xFF) = unat p mod 2 ^ (8 - c)"
proof -
  have "p AND drop_bit c 0xFF = take_bit (8 - c) p"
    using assms by (intro bit_word_eqI) (auto simp: bit_simps)
  then show ?thesis by (simp only: unsigned_take_bit_eq) (simp add: take_bit_eq_mod)
qed

lemma unat_and_high:
  fixes p :: byte
  assumes "c \<le> 8"
  shows "unat (p AND NOT (drop_bit c 0xFF)) = unat p - unat p mod 2 ^ (8 - c)"
proof -
  let ?m = "drop_bit c 0xFF :: byte"
  have "(p AND ?m) + (p AND NOT ?m) = (p AND ?m) OR (p AND NOT ?m)"
    by (subst disjunctive_add) (auto simp: bit_simps)
  also have "\<dots> = p" by (intro bit_word_eqI) (auto simp: bit_simps)
  finally have sum: "(p AND ?m) + (p AND NOT ?m) = p" .
  have "p AND NOT ?m = p - (p AND ?m)" using sum by (metis add_diff_cancel_left')
  moreover have "p AND ?m \<le> p" by (rule word_and_le2)
  ultimately show ?thesis using unat_and_low [OF assms, of p] by (simp add: unat_sub)
qed

lemma be_nat_0_iff: "be_nat ps = 0 \<longleftrightarrow> list_all (\<lambda>p. p = 0) ps"
  by (induction ps) (auto simp: unat_eq_zero)

lemma clear_host_ff:
  "clear_host die 0xFF ps = (if die \<and> be_nat ps \<noteq> 0 then Inl ''improper subnet, host-part bits on''
     else Inr (replicate (length ps) 0))"
proof (induction ps)
  case (Cons p ps)
  have "p AND 0xFF = p" by (intro bit_word_eqI) (auto simp: bit_simps)
  moreover have "p AND NOT 0xFF = 0" by (intro bit_word_eqI) (auto simp: bit_simps)
  ultimately show ?case using Cons by (auto simp: unat_eq_zero)
qed simp

lemma mod_low_part: "(r :: nat) < 2 ^ m \<Longrightarrow> (a * 2 ^ m + r) mod 2 ^ (m + j) = (a mod 2 ^ j) * 2 ^ m + r"
proof -
  assume r: "r < 2 ^ m"
  have "(a * 2 ^ m + r) mod 2 ^ (m + j) = (2 ^ m * (a mod 2 ^ j) + r)"
    using r mod_mult2_eq [of "a * 2 ^ m + r" "2 ^ m" "2 ^ j"] by (simp add: power_add)
  then show ?thesis by (simp add: mult.commute)
qed

lemma clear_host_value:
  assumes "c < 8"
  shows "clear_host die (drop_bit c 0xFF) (p # ps) =
    (if die \<and> be_nat (p # ps) mod 2 ^ (8 * length (p # ps) - c) \<noteq> 0
     then Inl ''improper subnet, host-part bits on''
     else Inr ((p AND NOT (drop_bit c 0xFF)) # replicate (length ps) 0))"
    and "be_nat ((p AND NOT (drop_bit c 0xFF)) # replicate (length ps) 0) =
      be_nat (p # ps) - be_nat (p # ps) mod 2 ^ (8 * length (p # ps) - c)"
proof -
  let ?m = "drop_bit c 0xFF :: byte"
  have e: "8 * length (p # ps) - c = 8 * length ps + (8 - c)" using assms by simp
  have md: "be_nat (p # ps) mod 2 ^ (8 * length (p # ps) - c) =
      (unat p mod 2 ^ (8 - c)) * 2 ^ (8 * length ps) + be_nat ps"
    unfolding e using mod_low_part [OF be_nat_bound [of ps], of "unat p"] by simp
  have z: "p AND ?m = 0 \<longleftrightarrow> unat p mod 2 ^ (8 - c) = 0"
    using unat_and_low [of c p] assms by (metis less_imp_le_nat unat_eq_zero)
  have keep: "p AND ?m = 0 \<Longrightarrow> p AND NOT ?m = p"
  proof -
    assume "p AND ?m = 0"
    then have "unat (p AND NOT ?m) = unat p" using unat_and_high [of c p] z assms by simp
    then show ?thesis by (simp add: word_unat_eq_iff)
  qed
  show "clear_host die ?m (p # ps) =
    (if die \<and> be_nat (p # ps) mod 2 ^ (8 * length (p # ps) - c) \<noteq> 0
     then Inl ''improper subnet, host-part bits on''
     else Inr ((p AND NOT ?m) # replicate (length ps) 0))"
    unfolding md using z keep clear_host_ff [of die ps] by auto
  have "unat p mod 2 ^ (8 - c) \<le> unat p" by simp
  then show "be_nat ((p AND NOT ?m) # replicate (length ps) 0) =
      be_nat (p # ps) - be_nat (p # ps) mod 2 ^ (8 * length (p # ps) - c)"
    unfolding md using unat_and_high [of c p] assms by (simp add: diff_mult_distrib)
qed

lemma initsubnet_value:
  assumes a: "wf_addr a" and k: "k \<le> addr_width a" and cl: "clash \<noteq> Clash_other"
  defines "h \<equiv> addr_val a mod 2 ^ (addr_width a - k)"
  shows "if clash = Clash_die \<and> h \<noteq> 0
    then initsubnet_count a k clash = Inl ''improper subnet, host-part bits on''
    else \<exists>bs. initsubnet_count a k clash = Inr \<lparr>sn_addr = a\<lparr>sin_bytes := bs\<rparr>, maskbits = k\<rparr> \<and>
      length bs = length (sin_bytes a) \<and> be_nat bs = addr_val a - h"
proof -
  let ?p = "sin_bytes a" and ?c = "k div 8" and ?r = "k mod 8"
  have w: "addr_width a = 8 * length ?p" using wf_addr_length [OF a] by simp
  have c: "?c \<le> length ?p" using k w by auto
  have split: "be_nat ?p = be_nat (take ?c ?p) * 2 ^ (8 * (length ?p - ?c)) + be_nat (drop ?c ?p)"
    using be_nat_append [of "take ?c ?p" "drop ?c ?p"] by simp
  show ?thesis
  proof (cases "drop ?c ?p")
    case Nil
    then have "?c = length ?p" using c by simp
    moreover from this have "?r = 0" using w k div_mult_mod_eq [of k 8] by linarith
    ultimately have "addr_width a - k = 0" "?r = 0" "\<not> length ?p - ?c > 0"
      using w k div_mult_mod_eq [of k 8] by auto
    note z = this
    have "initsubnet_count a k clash = Inr \<lparr>sn_addr = a\<lparr>sin_bytes := ?p\<rparr>, maskbits = k\<rparr>"
      using z Nil a c cl wf_addr_length_pos [OF a] by (simp add: initsubnet_count_def Let_def)
    moreover have "h = 0" using z(1) by (simp add: h_def)
    ultimately show ?thesis
      using exI [of "\<lambda>bs. a = a\<lparr>sin_bytes := bs\<rparr> \<and> length bs = length ?p \<and> be_nat bs = be_nat ?p" ?p]
      by (simp add: addr_val_def)
  next
    case (Cons q qs)
    then have lt: "?c < length ?p" using c by (metis drop_all leI list.distinct(1))
    have len: "length (q # qs) = length ?p - ?c" using Cons by (metis length_drop)
    have e: "8 * length (q # qs) - ?r = addr_width a - k"
    proof -
      have "8 * (length ?p - ?c) - ?r = 8 * length ?p - (8 * ?c + ?r)" by (simp add: diff_mult_distrib2)
      then show ?thesis unfolding len w by simp
    qed
    have m: "(if length ?p - ?c > 0 \<and> ?r \<noteq> 0 then drop_bit ?r 0xFF else 0xFF :: byte) = drop_bit ?r 0xFF"
      using lt by simp
    have hq: "h = be_nat (q # qs) mod 2 ^ (8 * length (q # qs) - ?r)"
    proof -
      have "8 * length (q # qs) - ?r \<le> 8 * (length ?p - ?c)" using len by simp
      then have "2 ^ (8 * length (q # qs) - ?r) dvd be_nat (take ?c ?p) * (2 ^ (8 * (length ?p - ?c)) :: nat)"
        by (simp add: le_imp_power_dvd)
      then obtain d where "be_nat (take ?c ?p) * (2 ^ (8 * (length ?p - ?c)) :: nat) =
          2 ^ (8 * length (q # qs) - ?r) * d" by (rule dvdE)
      then show ?thesis
        unfolding h_def e [symmetric] addr_val_def split Cons by (simp only: mod_mult_self4)
    qed
    note cv = clear_host_value [of ?r, OF mod_less_divisor]
    have init: "initsubnet_count a k clash = (case clear_host (clash = Clash_die) (drop_bit ?r 0xFF) (q # qs) of
        Inl e \<Rightarrow> Inl e | Inr ts \<Rightarrow> Inr \<lparr>sn_addr = a\<lparr>sin_bytes := take ?c ?p @ ts\<rparr>, maskbits = k\<rparr>)"
      using a c cl wf_addr_length_pos [OF a] m by (simp add: initsubnet_count_def Let_def Cons)
    let ?t = "(q AND NOT (drop_bit ?r 0xFF)) # replicate (length qs) 0"
    have lenb: "length (take ?c ?p @ ?t) = length ?p" using len c by simp
    have "be_nat (q # qs) mod 2 ^ (8 * length (q # qs) - ?r) \<le> be_nat (q # qs)" by simp
    moreover have "be_nat ?t = be_nat (q # qs) - h" unfolding hq by (rule cv(2)) simp
    moreover have "be_nat (take ?c ?p @ ?t) = be_nat (take ?c ?p) * 2 ^ (8 * (length ?p - ?c)) + be_nat ?t"
      unfolding be_nat_append using len by simp
    ultimately have bn: "be_nat (take ?c ?p @ ?t) = addr_val a - h"
      unfolding addr_val_def split Cons hq by simp
    have "clear_host (clash = Clash_die) (drop_bit ?r 0xFF) (q # qs) =
        (if clash = Clash_die \<and> h \<noteq> 0 then Inl ''improper subnet, host-part bits on'' else Inr ?t)"
      unfolding hq by (rule cv(1)) simp
    then have eq: "initsubnet_count a k clash = (if clash = Clash_die \<and> h \<noteq> 0
        then Inl ''improper subnet, host-part bits on''
        else Inr \<lparr>sn_addr = a\<lparr>sin_bytes := take ?c ?p @ ?t\<rparr>, maskbits = k\<rparr>)"
      unfolding init by (simp only: if_distrib [of "case_sum _ _"] sum.case)
    show ?thesis
      unfolding eq using lenb bn by (simp only: if_True if_False split: if_split) blast
  qed
qed

section \<open>Ranges that are subnets\<close>

lemma bit_byte_less: "bit (b :: byte) i \<Longrightarrow> i < 8"
  using bit_imp_le_length [of b i] by simp

lemma byte_eq_iff: "(a :: byte) = b \<longleftrightarrow> (\<forall>i < 8. bit a i = bit b i)"
  by (auto intro: bit_word_eqI)

text \<open>Two octets that agree above bit \<open>k\<close>, with zeros and ones below.\<close>

definition octet_block :: "nat \<Rightarrow> byte \<Rightarrow> byte \<Rightarrow> bool" where
  "octet_block k f t \<longleftrightarrow> (\<forall>i < k. \<not> bit f i \<and> bit t i) \<and> (\<forall>i. k \<le> i \<longrightarrow> bit f i = bit t i)"

lemma octet_block_iff:
  assumes "k \<le> 8"
  shows "octet_block k f t \<longleftrightarrow> unat f mod 2 ^ k = 0 \<and> unat t = unat f + (2 ^ k - 1)"
proof -
  let ?m = "mask k :: byte"
  have m: "unat ?m = 2 ^ k - 1"
  proof -
    have "k \<in> {0, 1, 2, 3, 4, 5, 6, 7, 8}" using assms by auto
    then show ?thesis by (elim insertE emptyE) (simp_all add: mask_eq_exp_minus_1)
  qed
  have low: "(\<forall>i < k. \<not> bit f i) \<longleftrightarrow> unat f mod 2 ^ k = 0"
  proof -
    have "(\<forall>i < k. \<not> bit f i) \<longleftrightarrow> take_bit k f = 0"
      by (auto simp: byte_eq_iff bit_simps dest: bit_byte_less)
    also have "\<dots> \<longleftrightarrow> unat (take_bit k f) = 0" by (simp only: unat_eq_zero)
    also have "\<dots> \<longleftrightarrow> unat f mod 2 ^ k = 0"
      by (simp only: unsigned_take_bit_eq) (simp add: take_bit_eq_mod)
    finally show ?thesis .
  qed
  show ?thesis
  proof (cases "\<forall>i < k. \<not> bit f i")
    case True
    have sum: "f + ?m = f OR ?m" using True by (subst disjunctive_add) (auto simp: bit_simps)
    have le: "unat f + (2 ^ k - 1) < 256"
    proof -
      have f: "unat f mod 2 ^ k = 0" using True low by simp
      obtain q where q: "unat f = 2 ^ k * q" using f by (auto elim: dvdE simp: mod_eq_0_iff_dvd)
      have e: "(256 :: nat) = 2 ^ k * 2 ^ (8 - k)" using assms by (simp flip: power_add)
      have "q < 2 ^ (8 - k)" using q e unat_byte_bound [of f] by (metis mult_less_cancel1)
      then have "2 ^ k * (q + 1) \<le> 2 ^ k * (2 ^ (8 - k))" by (intro mult_left_mono) auto
      then have "unat f + 2 ^ k \<le> 256" using q e by (simp add: algebra_simps)
      moreover have "(1 :: nat) \<le> 2 ^ k" by simp
      ultimately show ?thesis by linarith
    qed
    have u: "unat (f OR ?m) = unat f + (2 ^ k - 1)"
      unfolding sum [symmetric] using le m by (subst unat_add_lem [THEN iffD1]) auto
    have "octet_block k f t \<longleftrightarrow> t = f OR ?m"
    proof -
      have "octet_block k f t \<longleftrightarrow> (\<forall>i < 8. bit t i \<longleftrightarrow> bit f i \<or> i < k)"
      proof
        assume "octet_block k f t"
        then show "\<forall>i < 8. bit t i \<longleftrightarrow> bit f i \<or> i < k"
          unfolding octet_block_def by (metis not_le)
      next
        assume r: "\<forall>i < 8. bit t i \<longleftrightarrow> bit f i \<or> i < k"
        have "bit f i = bit t i" if "k \<le> i" for i
          using r that bit_byte_less [of f i] bit_byte_less [of t i] by (metis not_le)
        moreover have "bit t i" if "i < k" for i using r that assms by simp
        ultimately show "octet_block k f t" using True by (simp add: octet_block_def)
      qed
      also have "\<dots> \<longleftrightarrow> t = f OR ?m" by (simp add: byte_eq_iff bit_simps)
      finally show ?thesis .
    qed
    also have "\<dots> \<longleftrightarrow> unat t = unat f + (2 ^ k - 1)" by (simp add: word_unat_eq_iff u)
    finally show ?thesis using True low by simp
  next
    case False
    then show ?thesis using low by (auto simp: octet_block_def)
  qed
qed

lemma mid_octet_bits:
  assumes "mid_octet k fb tb = (n, fb', tb')"
  shows "n \<le> k \<and> (\<forall>i. bit fb' i \<longleftrightarrow> bit fb i \<and> \<not> (k - n \<le> i \<and> i < k)) \<and>
    (\<forall>i < 8. bit tb' i \<longleftrightarrow> bit tb i \<or> k - n \<le> i \<and> i < k) \<and>
    (\<forall>i < 8. k - n \<le> i \<and> i < k \<longrightarrow> bit fb i = bit tb i) \<and>
    (n < k \<and> k \<le> 8 \<longrightarrow> bit fb (k - n - 1) \<noteq> bit tb (k - n - 1))"
  using assms
proof (induction k arbitrary: fb tb n)
  case (Suc k)
  let ?m = "push_bit k 1 :: byte"
  have b: "fb AND ?m = tb AND ?m \<longleftrightarrow> (k < 8 \<longrightarrow> bit fb k = bit tb k)"
    by (auto simp: byte_eq_iff bit_simps)
  show ?case
  proof (cases "fb AND ?m = tb AND ?m")
    case True
    then obtain n' where n: "n = Suc n'" and r: "mid_octet k (fb AND NOT ?m) (tb OR ?m) = (n', fb', tb')"
      using Suc.prems by (auto simp: Let_def split: prod.splits)
    have fm: "bit (fb AND NOT ?m) i \<longleftrightarrow> bit fb i \<and> i \<noteq> k" for i
      by (auto simp: bit_simps dest: bit_byte_less)
    have tm: "i < 8 \<Longrightarrow> bit (tb OR ?m) i \<longleftrightarrow> bit tb i \<or> i = k" for i
      by (auto simp: bit_simps)
    note ih = Suc.IH [OF r]
    have le: "n' \<le> k" using ih by blast
    have rng: "Suc k - n = k - n'" using n le by simp
    have 1: "\<forall>i. bit fb' i \<longleftrightarrow> bit fb i \<and> \<not> (Suc k - n \<le> i \<and> i < Suc k)"
      using ih fm rng le by (auto simp: less_Suc_eq)
    have 2: "\<forall>i < 8. bit tb' i \<longleftrightarrow> bit tb i \<or> Suc k - n \<le> i \<and> i < Suc k"
      using ih tm rng le by (auto simp: less_Suc_eq)
    have 3: "\<forall>i < 8. Suc k - n \<le> i \<and> i < Suc k \<longrightarrow> bit fb i = bit tb i"
      using ih fm tm rng b True by (auto simp: less_Suc_eq)
    have 4: "n < Suc k \<and> Suc k \<le> 8 \<longrightarrow> bit fb (Suc k - n - 1) \<noteq> bit tb (Suc k - n - 1)"
    proof
      assume a: "n < Suc k \<and> Suc k \<le> 8"
      then have "n' < k \<and> k \<le> 8" using n by simp
      then have d: "bit (fb AND NOT ?m) (k - n' - 1) \<noteq> bit (tb OR ?m) (k - n' - 1)" using ih by blast
      have "k - n' - 1 < 8" "k - n' - 1 \<noteq> k" using \<open>n' < k \<and> k \<le> 8\<close> by auto
      with d fm tm rng show "bit fb (Suc k - n - 1) \<noteq> bit tb (Suc k - n - 1)" by simp
    qed
    show ?thesis using n le 1 2 3 4 by simp
  next
    case False
    then show ?thesis using Suc.prems b by (auto simp: Let_def)
  qed
qed simp

lemma mid_octet_block:
  assumes "f \<noteq> t" "mid_octet 8 f t = (n, fb, tb)"
  shows "n < 8" and "fb = 0 \<and> tb = 0xFF \<longleftrightarrow> octet_block (8 - n) f t"
    and "octet_block k f t \<Longrightarrow> 0 < k \<Longrightarrow> k \<le> 8 \<Longrightarrow> n = 8 - k"
proof -
  note s = mid_octet_bits [OF assms(2)]
  have n8: "n \<le> 8" using s by blast
  have fb: "bit fb i \<longleftrightarrow> bit f i \<and> i < 8 - n" for i
  proof -
    have "bit fb i \<longleftrightarrow> bit f i \<and> \<not> (8 - n \<le> i \<and> i < 8)" using s by blast
    then show ?thesis using bit_byte_less [of f i] by auto
  qed
  have tb: "i < 8 \<Longrightarrow> bit tb i \<longleftrightarrow> bit t i \<or> 8 - n \<le> i" for i using s by auto
  have hi: "8 - n \<le> i \<Longrightarrow> bit f i = bit t i" for i
    using s by (meson bit_byte_less)
  show lt: "n < 8"
  proof (rule ccontr)
    assume "\<not> n < 8"
    then have "bit f i = bit t i" for i using hi n8 by simp
    with assms(1) show False by (simp add: byte_eq_iff)
  qed
  have d: "bit f (7 - n) \<noteq> bit t (7 - n)" using s lt by auto
  have "fb = 0 \<longleftrightarrow> (\<forall>i < 8 - n. \<not> bit f i)"
    using fb by (auto simp: byte_eq_iff dest: bit_byte_less)
  moreover have "tb = 0xFF \<longleftrightarrow> (\<forall>i < 8 - n. bit t i)"
    using tb by (auto simp: byte_eq_iff not_le dest: less_le_trans [OF _ diff_le_self])
  ultimately show "fb = 0 \<and> tb = 0xFF \<longleftrightarrow> octet_block (8 - n) f t"
    using hi by (auto simp: octet_block_def)
  show "n = 8 - k" if k: "octet_block k f t" "0 < k" "k \<le> 8"
  proof -
    have "\<not> k \<le> 7 - n" using k(1) d by (auto simp: octet_block_def)
    moreover have "\<not> 8 - n \<le> k - 1"
      using k(1,2) hi [of "k - 1"] by (auto simp: octet_block_def)
    ultimately show ?thesis using k lt by arith
  qed
qed


text \<open>Octet strings that bound a block of \<open>2 ^ s\<close> values.\<close>

definition value_block :: "nat \<Rightarrow> nat \<Rightarrow> nat \<Rightarrow> bool" where
  "value_block s f t \<longleftrightarrow> f mod 2 ^ s = 0 \<and> t = f + (2 ^ s - 1)"

lemma zero_full_value:
  "length fs = length ts \<Longrightarrow> zero_full fs ts \<longleftrightarrow> be_nat fs = 0 \<and> be_nat ts = 2 ^ (8 * length ts) - 1"
proof (induction fs ts rule: list_induct2)
  case (Cons f fs t ts)
  let ?M = "2 ^ (8 * length ts) :: nat"
  have b: "be_nat ts < ?M" by (rule be_nat_bound)
  have p: "(1 :: nat) \<le> ?M" by simp
  have "unat t * ?M + be_nat ts = 256 * ?M - 1 \<longleftrightarrow> unat t = 255 \<and> be_nat ts = ?M - 1"
  proof
    assume e: "unat t * ?M + be_nat ts = 256 * ?M - 1"
    have "\<not> unat t < 255"
    proof
      assume "unat t < 255"
      then have "(unat t + 1) * ?M \<le> 255 * ?M" by (intro mult_right_mono) auto
      then have "unat t * ?M + ?M \<le> 255 * ?M" by (simp only: distrib_right mult_1)
      with e b p show False by linarith
    qed
    with unat_byte_bound [of t] have "unat t = 255" by linarith
    with e p show "unat t = 255 \<and> be_nat ts = ?M - 1" by simp
  qed (use p in simp)
  moreover have "t = 0xFF \<longleftrightarrow> unat t = 255" by (simp add: word_unat_eq_iff)
  moreover have "f = 0 \<longleftrightarrow> unat f = 0" by (simp add: unat_eq_zero)
  moreover have "zero_full (f # fs) (t # ts) \<longleftrightarrow> f = 0 \<and> t = 0xFF \<and> zero_full fs ts"
    by (simp add: zero_full_def)
  moreover have "2 ^ (8 * length (t # ts)) = 256 * ?M" by (simp add: power_add)
  moreover have "be_nat (f # fs) = 0 \<longleftrightarrow> unat f = 0 \<and> be_nat fs = 0" by simp
  ultimately show ?case using Cons by auto
qed (simp add: zero_full_def)

lemma value_block_same_octet:
  assumes "F < 2 ^ m" "T < 2 ^ m" "s \<le> m"
  shows "value_block s (f * 2 ^ m + F) (f * 2 ^ m + T) \<longleftrightarrow> value_block s F T"
proof -
  have "(2 :: nat) ^ s dvd f * 2 ^ m" using assms(3) by (simp add: le_imp_power_dvd)
  then obtain d where d: "f * 2 ^ m = 2 ^ s * d" by (rule dvdE)
  have "(f * 2 ^ m + F) mod 2 ^ s = F mod 2 ^ s" unfolding d by (simp only: mod_mult_self4)
  then show ?thesis by (simp only: value_block_def add.assoc add_left_cancel)
qed

lemma value_block_div:
  assumes "value_block s f t" "s \<le> m"
  shows "f div 2 ^ m = t div 2 ^ m"
proof -
  have "(1 :: nat) \<le> 2 ^ s" by simp
  moreover have "t = f + (2 ^ s - 1)" using assms(1) by (simp only: value_block_def)
  ultimately have "f \<le> t \<and> t < f + 2 ^ s" by linarith
  then have e: "t div 2 ^ s = f div 2 ^ s"
    using same_block [of "2 ^ s" f t] assms(1) by (simp add: value_block_def)
  have "(2 :: nat) ^ m = 2 ^ s * 2 ^ (m - s)" using assms(2) by (simp flip: power_add)
  then show ?thesis using e by (simp add: div_mult2_eq)
qed

lemma value_block_octets:
  assumes "F < 2 ^ m" "T < 2 ^ m"
  shows "value_block (m + j) (f * 2 ^ m + F) (t * 2 ^ m + T) \<longleftrightarrow>
    F = 0 \<and> T = 2 ^ m - 1 \<and> f mod 2 ^ j = 0 \<and> t = f + (2 ^ j - 1)"
proof -
  let ?M = "2 ^ m :: nat" and ?J = "2 ^ j :: nat"
  have p: "1 \<le> ?M" "1 \<le> ?J" by simp_all
  have jm: "(?J - 1) * ?M + (?M - 1) = ?M * ?J - 1"
  proof -
    have "(?J - 1) * ?M + ?M = ?J * ?M" using p(2) by (simp add: diff_mult_distrib)
    then show ?thesis using p(1) by (simp add: mult.commute)
  qed
  have md: "(f * ?M + F) mod 2 ^ (m + j) = (f mod ?J) * ?M + F"
    by (rule mod_low_part [OF assms(1)])
  show ?thesis
  proof
    assume v: "value_block (m + j) (f * ?M + F) (t * ?M + T)"
    then have z: "f mod ?J = 0" "F = 0" using md by (auto simp: value_block_def)
    have e: "t * ?M + T = f * ?M + (?M * ?J - 1)"
      using v z by (simp add: value_block_def power_add)
    have e2: "t * ?M + T = (f + (?J - 1)) * ?M + (?M - 1)"
      unfolding e jm [symmetric] by (simp only: distrib_right add.assoc)
    have g: "(a * ?M + b) div ?M = a" if "b < ?M" for a b using that by simp
    have "(t * ?M + T) div ?M = f + (?J - 1)" unfolding e2 by (rule g) (use p in simp)
    then have "t = f + (?J - 1)" unfolding g [OF assms(2)] .
    with e2 z show "F = 0 \<and> T = ?M - 1 \<and> f mod ?J = 0 \<and> t = f + (?J - 1)" by simp
  next
    assume r: "F = 0 \<and> T = ?M - 1 \<and> f mod ?J = 0 \<and> t = f + (?J - 1)"
    have "t * ?M + T = f * ?M + ((?J - 1) * ?M + (?M - 1))"
      using r by (simp only: distrib_right add.assoc)
    then have "t * ?M + T = f * ?M + (?M * ?J - 1)" unfolding jm .
    then show "value_block (m + j) (f * ?M + F) (t * ?M + T)"
      using r md by (simp add: value_block_def power_add)
  qed
qed

lemma range_prefix_sound:
  assumes "length fs = length ts" "range_prefix fs ts = Inr n"
  shows "n \<le> 8 * length fs \<and> value_block (8 * length fs - n) (be_nat fs) (be_nat ts)"
  using assms
proof (induction fs ts arbitrary: n rule: list_induct2)
  case (Cons f fs t ts)
  let ?L = "8 * length ts"
  have b: "be_nat fs < 2 ^ ?L" "be_nat ts < 2 ^ ?L"
    using be_nat_bound [of fs] be_nat_bound [of ts] Cons.hyps by simp_all
  show ?case
  proof (cases "f = t")
    case True
    then obtain k where k: "range_prefix fs ts = Inr k" "n = k + 8"
      using Cons.prems by (auto split: sum.splits)
    with Cons.IH have ih: "k \<le> ?L" "value_block (?L - k) (be_nat fs) (be_nat ts)"
      using Cons.hyps by auto
    have "8 * length (f # fs) - n = ?L - k" using k Cons.hyps by simp
    with ih k True Cons.hyps value_block_same_octet [OF b, of "?L - k" "unat t"] show ?thesis by simp
  next
    case False
    let ?z = "zero_full fs ts"
    have z: "?z \<longleftrightarrow> be_nat fs = 0 \<and> be_nat ts = 2 ^ ?L - 1" by (rule zero_full_value [OF Cons.hyps])
    have res: "?z \<and> n < 8 \<and> octet_block (8 - n) f t"
    proof (cases "f = 0 \<and> t = 0xFF")
      case True
      then have "?z" "n = 0" using Cons.prems by (auto split: if_splits)
      moreover have "octet_block 8 f t" using True by (simp add: octet_block_iff)
      ultimately show ?thesis by simp
    next
      case ff: False
      obtain k fb tb where mo: "mid_octet 8 f t = (k, fb, tb)" by (metis prod_cases3)
      then have "?z" "n = k" "fb = 0 \<and> tb = 0xFF"
        using Cons.prems False ff by (auto split: if_splits)
      with mid_octet_block [OF False mo] show ?thesis by blast
    qed
    then have ob: "unat f mod 2 ^ (8 - n) = 0 \<and> unat t = unat f + (2 ^ (8 - n) - 1)"
      using octet_block_iff [of "8 - n" f t] by simp
    have "8 * length (f # fs) - n = ?L + (8 - n)" using res Cons.hyps by simp
    with res z ob Cons.hyps value_block_octets [OF b, of "8 - n" "unat f" "unat t"] show ?thesis by simp
  qed
qed (simp add: value_block_def)

lemma range_prefix_complete:
  assumes "length fs = length ts" "n \<le> 8 * length fs"
    and "value_block (8 * length fs - n) (be_nat fs) (be_nat ts)"
  shows "range_prefix fs ts = Inr n"
  using assms
proof (induction fs ts arbitrary: n rule: list_induct2)
  case (Cons f fs t ts)
  let ?L = "8 * length ts" and ?s = "8 * length (f # fs) - n"
  have b: "be_nat fs < 2 ^ ?L" "be_nat ts < 2 ^ ?L"
    using be_nat_bound [of fs] be_nat_bound [of ts] Cons.hyps by simp_all
  have vb: "value_block ?s (unat f * 2 ^ ?L + be_nat fs) (unat t * 2 ^ ?L + be_nat ts)"
    using Cons.prems(2) Cons.hyps by simp
  show ?case
  proof (cases "?s \<le> ?L")
    case True
    have "(unat f * 2 ^ ?L + be_nat fs) div 2 ^ ?L = (unat t * 2 ^ ?L + be_nat ts) div 2 ^ ?L"
      by (rule value_block_div [OF vb True])
    then have "f = t" using b by (simp add: word_unat_eq_iff)
    moreover have "value_block ?s (be_nat fs) (be_nat ts)"
      using vb \<open>f = t\<close> value_block_same_octet [OF b True, of "unat t"] by simp
    moreover have "8 \<le> n" "?s = ?L - (n - 8)" using True Cons.hyps Cons.prems(1) by auto
    ultimately have "range_prefix fs ts = Inr (n - 8)"
      using Cons.IH [of "n - 8"] Cons.hyps Cons.prems(1) by simp
    with \<open>f = t\<close> \<open>8 \<le> n\<close> show ?thesis by simp
  next
    case False
    then have s: "?s = ?L + (8 - n)" "n < 8" using Cons.hyps by auto
    have r: "be_nat fs = 0" "be_nat ts = 2 ^ ?L - 1" "octet_block (8 - n) f t"
      using vb value_block_octets [OF b, of "8 - n"] octet_block_iff [of "8 - n" f t] unfolding s(1) by auto
    have z: "zero_full fs ts" using zero_full_value [OF Cons.hyps] r by simp
    have "\<not> bit f (7 - n) \<and> bit t (7 - n)" using r(3) s(2) by (auto simp: octet_block_def)
    then have ne: "f \<noteq> t" by blast
    obtain k fb tb where mo: "mid_octet 8 f t = (k, fb, tb)" by (metis prod_cases3)
    note mb = mid_octet_block [OF ne mo]
    have "k = n" using mb(3) [OF r(3)] s(2) by simp
    moreover from this have "fb = 0 \<and> tb = 0xFF" using mb(2) r(3) by simp
    moreover have "f = 0 \<and> t = 0xFF \<Longrightarrow> n = 0"
    proof -
      assume "f = 0 \<and> t = 0xFF"
      then have "octet_block 8 f t" by (simp add: octet_block_iff)
      then show "n = 0" using mb(3) [of 8] \<open>k = n\<close> by simp
    qed
    ultimately show ?thesis using ne mo z by auto
  qed
qed simp

lemma initsubnet_die_block:
  assumes "wf_addr a" "k \<le> addr_width a"
  shows "initsubnet_count a k Clash_die =
    (if addr_val a mod 2 ^ (addr_width a - k) = 0 then Inr \<lparr>sn_addr = a, maskbits = k\<rparr>
     else Inl ''improper subnet, host-part bits on'')"
proof (cases "addr_val a mod 2 ^ (addr_width a - k) = 0")
  case True
  then obtain bs where bs: "initsubnet_count a k Clash_die = Inr \<lparr>sn_addr = a\<lparr>sin_bytes := bs\<rparr>, maskbits = k\<rparr>"
      "length bs = length (sin_bytes a)" "be_nat bs = be_nat (sin_bytes a)"
    using initsubnet_value [OF assms, of Clash_die] by (auto simp: addr_val_def)
  then have "bs = sin_bytes a" using be_nat_inject [OF bs(2)] by simp
  with bs(1) True show ?thesis by simp
next
  case False
  then show ?thesis using initsubnet_value [OF assms, of Clash_die] by simp
qed

lemma block_interval:
  assumes "1 \<le> (d :: nat)"
  shows "{x ..< x + d} = {x .. y} \<longleftrightarrow> y = x + (d - 1)"
proof -
  obtain e where "d = Suc e" using assms by (cases d) auto
  then show ?thesis by (auto simp: atLeastLessThanSuc_atLeastAtMost Icc_eq_Icc)
qed

lemma rangetosubnet_Ok_iff:
  assumes "wf_addr a" "wf_addr b" "sin_family a = sin_family b"
  shows "rangetosubnet a b = Ok s \<longleftrightarrow>
    wf_subnet s \<and> sn_addr s = a \<and> subnet_addrs s = {addr_val a .. addr_val b}"
proof -
  let ?w = "addr_width a"
  have l: "length (sin_bytes a) = length (sin_bytes b)" by (rule wf_addr_same_length [OF assms])
  have w: "8 * length (sin_bytes a) = ?w" by (rule wf_addr_length [OF assms(1)])
  have ran: "rangetosubnet a b = (case range_prefix (sin_bytes a) (sin_bytes b) of
      Inl e \<Rightarrow> Err e | Inr n \<Rightarrow> outcome_of (initsubnet_count a n Clash_die))"
    using assms l wf_addr_length_pos [OF assms(1)]
    by (auto simp: rangetosubnet_def addrtypeof_def initsubnet_def split: sum.splits)
  have blk: "subnet_addrs \<lparr>sn_addr = a, maskbits = n\<rparr> = {addr_val a .. addr_val b} \<longleftrightarrow>
      addr_val b = addr_val a + (2 ^ (?w - n) - 1)" for n
  proof -
    have "(1 :: nat) \<le> 2 ^ (?w - n)" by simp
    from block_interval [OF this] show ?thesis
      by (simp only: subnet_addrs_def subnet_size_def ip_subnet.simps)
  qed
  show ?thesis
  proof
    assume r: "rangetosubnet a b = Ok s"
    then obtain n where n: "range_prefix (sin_bytes a) (sin_bytes b) = Inr n"
        "initsubnet_count a n Clash_die = Inr s"
      using ran by (auto split: sum.splits)
    from range_prefix_sound [OF l n(1)] w have v: "n \<le> ?w" "value_block (?w - n) (addr_val a) (addr_val b)"
      by (auto simp: addr_val_def)
    then have s: "s = \<lparr>sn_addr = a, maskbits = n\<rparr>"
      using n(2) initsubnet_die_block [OF assms(1) v(1)] by (simp add: value_block_def)
    show "wf_subnet s \<and> sn_addr s = a \<and> subnet_addrs s = {addr_val a .. addr_val b}"
      unfolding s using v blk [of n] assms(1) by (simp add: wf_subnet_def value_block_def)
  next
    assume r: "wf_subnet s \<and> sn_addr s = a \<and> subnet_addrs s = {addr_val a .. addr_val b}"
    let ?n = "maskbits s"
    have s: "s = \<lparr>sn_addr = a, maskbits = ?n\<rparr>" using r by (cases s) auto
    have v: "?n \<le> ?w" "addr_val a mod 2 ^ (?w - ?n) = 0" using r by (auto simp: wf_subnet_def)
    have "value_block (?w - ?n) (addr_val a) (addr_val b)"
      using r v blk [of ?n] s by (simp add: value_block_def)
    then have "range_prefix (sin_bytes a) (sin_bytes b) = Inr ?n"
      using range_prefix_complete [OF l, of ?n] w v(1) by (simp add: addr_val_def)
    then show "rangetosubnet a b = Ok s"
      using ran s v initsubnet_die_block [OF assms(1) v(1)] by simp
  qed
qed

section \<open>The size of a range\<close>

lemma be_nat_Cons_int: "int (be_nat (p # ps)) = uint p * 2 ^ (8 * length ps) + int (be_nat ps)"
  by simp

lemma sub_octets_value:
  assumes "length hs = length ls" "sub_octets hs ls = (ds, c)"
  shows "length ds = length hs \<and> (c = 0 \<or> c = 1) \<and>
    int (be_nat ds) = int (be_nat hs) - int (be_nat ls) + c * 2 ^ (8 * length hs)"
  using assms
proof (induction hs ls arbitrary: ds c rule: list_induct2)
  case (Cons h hs l ls)
  obtain es k where s: "sub_octets hs ls = (es, k)" by (metis surj_pair)
  from Cons.IH [OF s] have ih: "length es = length hs" "k = 0 \<or> k = 1"
    "int (be_nat es) = int (be_nat hs) - int (be_nat ls) + k * 2 ^ (8 * length hs)" by auto
  let ?v = "uint h - uint l - k"
  have b: "0 \<le> uint h" "uint h < 256" "0 \<le> uint l" "uint l < 256"
    using uint_lt2p [of h] uint_lt2p [of l] by simp_all
  have wrap: "uint (word_of_int v :: byte) = v" if "0 \<le> v" "v < 256" for v
    using that by (simp add: uint_word_of_int)
  have e: "length ds = Suc (length es) \<and> (c = 0 \<or> c = 1) \<and> ds = word_of_int (?v + c * 256) # es \<and>
      0 \<le> ?v + c * 256 \<and> ?v + c * 256 < 256"
  proof (cases "?v < 0")
    case True
    then have "c = 1" "ds = word_of_int (?v + 256) # es" using Cons.prems s by (simp_all add: Let_def)
    moreover have "0 \<le> ?v + 256" "?v + 256 < 256" using True b ih(2) by linarith+
    ultimately show ?thesis by simp
  next
    case False
    then have "c = 0" "ds = word_of_int ?v # es" using Cons.prems s by (simp_all add: Let_def)
    moreover have "0 \<le> ?v" "?v < 256" using False b ih(2) by linarith+
    ultimately show ?thesis by simp
  qed
  then have "int (be_nat ds) = (?v + c * 256) * 2 ^ (8 * length hs) + int (be_nat es)"
    using be_nat_Cons_int [of "word_of_int (?v + c * 256)" es] wrap [of "?v + c * 256"] ih(1) by metis
  moreover have "(2 :: int) ^ (8 * length (h # hs)) = 256 * 2 ^ (8 * length hs)" by (simp add: power_add)
  ultimately have "int (be_nat ds) = int (be_nat (h # hs)) - int (be_nat (l # ls)) + c * 2 ^ (8 * length (h # hs))"
    unfolding be_nat_Cons_int ih(3) using Cons.hyps by (simp add: algebra_simps)
  with e ih(1) show ?case by simp
qed simp

lemma complement_octets_value:
  assumes "complement_octets ds = (es, c)"
  shows "length es = length ds \<and> (c = 0 \<or> c = 1) \<and>
    int (be_nat es) + c * 2 ^ (8 * length ds) = 2 ^ (8 * length ds) - int (be_nat ds)"
  using assms
proof (induction ds arbitrary: es c)
  case (Cons d ds)
  obtain fs k where s: "complement_octets ds = (fs, k)" by (metis surj_pair)
  from Cons.IH [OF s] have ih: "length fs = length ds" "k = 0 \<or> k = 1"
    "int (be_nat fs) = 2 ^ (8 * length ds) - int (be_nat ds) - k * 2 ^ (8 * length ds)" by auto
  let ?v = "255 - uint d + k"
  have b: "0 \<le> uint d" "uint d < 256" using uint_lt2p [of d] by simp_all
  have wrap: "uint (word_of_int v :: byte) = v" if "0 \<le> v" "v < 256" for v
    using that by (simp add: uint_word_of_int)
  have e: "length es = Suc (length fs) \<and> (c = 0 \<or> c = 1) \<and> es = word_of_int (?v - c * 256) # fs \<and>
      0 \<le> ?v - c * 256 \<and> ?v - c * 256 < 256"
  proof (cases "?v \<ge> 256")
    case True
    then have "c = 1" "es = word_of_int (?v - 256) # fs" using Cons.prems s by (simp_all add: Let_def)
    moreover have "0 \<le> ?v - 256" "?v - 256 < 256" using True b ih(2) by linarith+
    ultimately show ?thesis by simp
  next
    case False
    then have "c = 0" "es = word_of_int ?v # fs" using Cons.prems s by (simp_all add: Let_def)
    moreover have "0 \<le> ?v" "?v < 256" using False b ih(2) by linarith+
    ultimately show ?thesis by simp
  qed
  then have "int (be_nat es) = (?v - c * 256) * 2 ^ (8 * length ds) + int (be_nat fs)"
    using be_nat_Cons_int [of "word_of_int (?v - c * 256)" fs] wrap [of "?v - c * 256"] ih(1) by metis
  moreover have "(2 :: int) ^ (8 * length (d # ds)) = 256 * 2 ^ (8 * length ds)" by (simp add: power_add)
  ultimately have "int (be_nat es) + c * 2 ^ (8 * length (d # ds)) = 2 ^ (8 * length (d # ds)) - int (be_nat (d # ds))"
    unfolding be_nat_Cons_int ih(3) by (simp add: algebra_simps)
  with e ih(1) show ?case by simp
qed simp

definition bit_length :: "nat \<Rightarrow> nat \<Rightarrow> bool" where
  "bit_length v k \<longleftrightarrow> v < 2 ^ k \<and> (0 < k \<longrightarrow> 2 ^ (k - 1) \<le> v)"

lemma leading_zeros_value:
  fixes d :: byte
  assumes "unat d < 2 ^ k" "d \<noteq> 0"
  shows "leading_zeros k d < k \<and> bit_length (unat d) (k - leading_zeros k d)"
  using assms
proof (induction k)
  case (Suc k)
  show ?case
  proof (cases "bit d k")
    case True
    then have "bit (unat d) k" by (simp add: bit_unsigned_iff)
    then have "odd (unat d div 2 ^ k)" by (simp add: bit_iff_odd)
    then have "unat d div 2 ^ k \<noteq> 0" by (metis even_zero)
    then have "2 ^ k \<le> unat d" by (simp add: div_eq_0_iff not_less)
    with Suc.prems True show ?thesis by (simp add: bit_length_def)
  next
    case False
    have "unat d = take_bit (Suc k) (unat d)" using Suc.prems(1) by (simp add: take_bit_nat_eq_self)
    also have "\<dots> = take_bit k (unat d)"
      using False by (auto simp: take_bit_Suc_from_most of_bool_def bit_unsigned_iff)
    finally have "unat d < 2 ^ k" by (metis take_bit_nat_less_exp)
    with Suc False show ?thesis by auto
  qed
qed (simp add: unat_eq_zero)

lemma high_bit_value: "bit_length (be_nat ds) (high_bit ds)"
proof (induction ds)
  case (Cons d ds)
  show ?case
  proof (cases "d = 0")
    case True
    then show ?thesis using Cons by (simp add: high_bit_def)
  next
    case False
    let ?z = "leading_zeros 8 d" and ?L = "8 * length ds"
    have "unat d < 2 ^ 8" by simp
    from leading_zeros_value [OF this False] have z: "?z < 8" "unat d < 2 ^ (8 - ?z)" "2 ^ (7 - ?z) \<le> unat d"
      by (auto simp: bit_length_def)
    have h: "high_bit (d # ds) = ?L + (8 - ?z)" using False z(1) by (simp add: high_bit_def)
    have "unat d + 1 \<le> 2 ^ (8 - ?z)" using z(2) by simp
    then have "(unat d + 1) * 2 ^ ?L \<le> 2 ^ (8 - ?z) * 2 ^ ?L" by (rule mult_right_mono) simp
    then have "be_nat (d # ds) < 2 ^ (?L + (8 - ?z))"
      using be_nat_bound [of ds] by (simp add: power_add mult.commute)
    moreover have "2 ^ (7 - ?z) * 2 ^ ?L \<le> unat d * 2 ^ ?L" using z(3) by (rule mult_right_mono) simp
    then have "2 ^ (?L + (7 - ?z)) \<le> be_nat (d # ds)"
      unfolding be_nat.simps power_add mult.commute [of "2 ^ ?L"] by linarith
    moreover have "?L + (8 - ?z) - 1 = ?L + (7 - ?z)" using z(1) by simp
    ultimately show ?thesis by (simp only: bit_length_def h)  simp
  qed
qed (simp add: high_bit_def bit_length_def)

lemma bit_length_unique: "bit_length v k \<Longrightarrow> bit_length v j \<Longrightarrow> j = k"
proof -
  have "j \<le> k" if "bit_length v k" "bit_length v j" for j k
  proof (rule ccontr)
    assume "\<not> j \<le> k"
    then have "(2 :: nat) ^ k \<le> 2 ^ (j - 1)" by (intro power_increasing) auto
    moreover have "2 ^ (j - 1) \<le> v" "v < 2 ^ k" using that \<open>\<not> j \<le> k\<close> by (simp_all add: bit_length_def)
    ultimately show False by linarith
  qed
  then show "bit_length v k \<Longrightarrow> bit_length v j \<Longrightarrow> j = k" by (simp add: le_antisym)
qed

lemma iprange_bits_value:
  assumes "wf_addr lo" "wf_addr hi" "sin_family lo = sin_family hi"
  shows "iprange_bits lo hi = int k \<longleftrightarrow>
    bit_length (nat \<bar>int (addr_val hi) - int (addr_val lo)\<bar>) k"
proof -
  have l: "length (sin_bytes hi) = length (sin_bytes lo)"
    using wf_addr_same_length [OF assms] by simp
  obtain ds c where s: "sub_octets (sin_bytes hi) (sin_bytes lo) = (ds, c)" by (metis surj_pair)
  obtain es e where t: "complement_octets ds = (es, e)" by (metis surj_pair)
  let ?f = "if c \<noteq> 0 then es else ds"
  from sub_octets_value [OF l s] have d: "length ds = length (sin_bytes hi)" "c = 0 \<or> c = 1"
    "int (be_nat ds) = int (addr_val hi) - int (addr_val lo) + c * 2 ^ (8 * length ds)"
    by (auto simp: addr_val_def)
  from complement_octets_value [OF t] have m: "length es = length ds" "e = 0 \<or> e = 1"
    "int (be_nat es) = 2 ^ (8 * length ds) - int (be_nat ds) - e * 2 ^ (8 * length ds)" by auto
  have bd: "be_nat ds < 2 ^ (8 * length ds)" "be_nat es < 2 ^ (8 * length es)" by (rule be_nat_bound)+
  have f: "be_nat ?f = nat \<bar>int (addr_val hi) - int (addr_val lo)\<bar>"
  proof (cases "c = 0")
    case False
    then have c: "c = 1" using d(2) by simp
    have "int (be_nat ds) < 2 ^ (8 * length ds)" using bd(1) by (metis of_nat_less_numeral_power_cancel_iff)
    with d(3) c m(2,3) have "int (be_nat es) = int (addr_val lo) - int (addr_val hi) - e * 2 ^ (8 * length ds)"
      "int (addr_val hi) - int (addr_val lo) < 0" by auto
    moreover have "int (addr_val lo) < 2 ^ (8 * length ds)"
      using be_nat_bound [of "sin_bytes lo"] l d(1) by (simp add: addr_val_def)
    moreover have "0 \<le> int (addr_val hi)" "0 \<le> int (be_nat es)" by simp_all
    ultimately have "e \<noteq> 1" by (intro notI, simp only: mult_1_left)
    with m(2) have "e = 0" by simp
    then show ?thesis using c m(3) d(3) by simp
  qed (use d(3) in simp)
  have "iprange_bits lo hi = int (high_bit ?f)"
    using assms l s t wf_addr_length_pos [OF assms(2)] by (simp add: iprange_bits_def addrtypeof_def)
  then show ?thesis using high_bit_value [of ?f] bit_length_unique unfolding f by auto
qed

section \<open>Mask counts\<close>

lemma length_mask_bytes [simp]: "length (mask_bytes n b) = n"
  by (induction n arbitrary: b) simp_all

lemma lead_ones_shape:
  "lead_ones k p = (n, q) \<Longrightarrow> n \<le> k \<and> q = push_bit n p \<and> (\<forall>i<n. bit p (7 - i))"
proof (induction k arbitrary: p n q)
  case (Suc k)
  show ?case
  proof (cases "bit p 7")
    case True
    then obtain j where j: "lead_ones k (push_bit 1 p) = (j, q)" "n = Suc j"
      using Suc.prems by (auto split: prod.splits)
    from Suc.IH [OF j(1)] have ih: "j \<le> k" "q = push_bit j (push_bit 1 p)"
      "\<forall>i<j. bit (push_bit 1 p) (7 - i)" by auto
    have "bit p (7 - i)" if "i < n" for i
    proof (cases i)
      case (Suc h)
      then have "bit (push_bit 1 p) (7 - h)" using ih(3) that j(2) by simp
      then have "bit p (7 - h - 1)" by (simp only: bit_push_bit_iff)
      then show ?thesis using Suc by simp
    qed (use True in simp)
    with ih j(2) show ?thesis by (simp add: ac_simps)
  qed (use Suc.prems in auto)
qed simp

lemma partial_octet:
  fixes p :: byte
  assumes "lead_ones 8 p = (n, 0)"
  shows "n \<le> 8 \<and> p = push_bit (8 - n) 0xFF"
proof -
  from lead_ones_shape [OF assms] have n: "n \<le> 8" "push_bit n p = 0" "\<forall>i<n. bit p (7 - i)" by auto
  have "bit p i \<longleftrightarrow> bit (push_bit (8 - n) 0xFF :: byte) i" if "i < 8" for i
  proof (cases "i < 8 - n")
    case True
    then have "\<not> bit (push_bit n p) (i + n)" using n(2) by simp
    then show ?thesis using True by (simp add: bit_simps)
  next
    case False
    then have "bit p (7 - (7 - i))" using n(3) that by (intro n(3) [rule_format]) linarith
    then show ?thesis using False that by (simp add: bit_simps)
  qed
  then show ?thesis using n(1) by (simp add: byte_eq_iff)
qed

lemma lead_ones_numeral:
  "lead_ones (numeral k) b =
     (if bit b 7 then (let (n, b') = lead_ones (pred_numeral k) (push_bit 1 b) in (Suc n, b')) else (0, b))"
  by (simp add: numeral_eq_Suc)

lemma lead_ones_partial:
  assumes "n < 8"
  shows "lead_ones 8 (push_bit (8 - n) 0xFF) = (n, 0)"
proof -
  have "n \<in> {0, 1, 2, 3, 4, 5, 6, 7}" using assms by auto
  then show ?thesis by (elim insertE emptyE) (simp_all add: lead_ones_numeral)
qed

lemma count_mask_sound: "count_mask p = Some b \<Longrightarrow> b \<le> 8 * length p \<and> p = mask_bytes (length p) b"
proof (induction p arbitrary: b)
  case (Cons q ps)
  have z: "list_all (\<lambda>q. q = 0) ps \<Longrightarrow> ps = replicate (length ps) 0"
    by (simp add: replicate_length_same list_all_iff)
  show ?case
  proof (cases "q = 0xFF")
    case True
    with Cons show ?thesis by auto
  next
    case False
    show ?thesis
    proof (cases "q = 0")
      case True
      then show ?thesis using Cons.prems z by (auto split: if_splits)
    next
      case n0: False
      obtain n r where l: "lead_ones 8 q = (n, r)" by (metis surj_pair)
      then have r: "r = 0" "b = n" "list_all (\<lambda>q. q = 0) ps"
        using Cons.prems False n0 by (auto split: if_splits)
      from partial_octet l r(1) have "n \<le> 8" "q = push_bit (8 - n) 0xFF" by blast+
      moreover from this False n0 have "n \<noteq> 8" "n \<noteq> 0" by (intro notI; simp)+
      ultimately show ?thesis using r z by simp
    qed
  qed
qed simp

lemma byte_bit_0_255: "bit (0xFF :: byte) 0"
  by (simp add: bit_0)

lemma count_mask_complete: "b \<le> 8 * n \<Longrightarrow> count_mask (mask_bytes n b) = Some b"
proof (induction n arbitrary: b)
  case (Suc n)
  have z: "list_all (\<lambda>q. q = 0) (replicate n 0)" by (simp add: list_all_iff)
  show ?case
  proof (cases "8 \<le> b")
    case True
    with Suc show ?thesis by simp
  next
    case False
    show ?thesis
    proof (cases "b = 0")
      case f: False
      let ?q = "push_bit (8 - b) 0xFF :: byte"
      have l: "lead_ones 8 ?q = (b, 0)" using lead_ones_partial False by simp
      have "\<not> bit ?q 0" "bit ?q 7" using False f by (auto simp: bit_simps)
      then have "?q \<noteq> 0xFF" "?q \<noteq> 0" by (metis byte_bit_0_255, metis bit_0_eq bot_apply)
      with l f False z show ?thesis by simp
    qed (use z in simp)
  qed
qed simp

section \<open>The 32-bit mask tests\<close>

lemma bit_decrement:
  fixes x :: "'a::len word"
  assumes "bit x k" "\<And>i. i < k \<Longrightarrow> \<not> bit x i"
  shows "bit (x - 1) i \<longleftrightarrow> (if i < k then True else i \<noteq> k \<and> bit x i)"
proof -
  have k: "k < LENGTH('a)" using assms(1) by (rule bit_imp_le_length)
  let ?h = "unset_bit k x"
  have d: "bit ?h i \<Longrightarrow> k < i" for i using assms(2) by (auto simp: bit_simps) (metis linorder_neqE_nat)
  have "x = ?h OR push_bit k 1" using assms(1) by (intro bit_word_eqI) (auto simp: bit_simps)
  also have "\<dots> = ?h + push_bit k 1" by (rule disjunctive_add [symmetric]) (auto simp: bit_simps)
  also have "\<dots> = ?h + mask k + 1" by (simp add: mask_eq_exp_minus_1 push_bit_eq_mult)
  finally have e: "x = ?h + mask k + 1" .
  have "x - 1 = ?h + mask k" using arg_cong [OF e, of "\<lambda>y. y - 1"] by (simp only: add_diff_cancel_right')
  also have "\<dots> = ?h OR mask k" by (rule disjunctive_add) (auto simp: bit_mask_iff dest: d)
  finally show ?thesis using d k by (auto simp: bit_simps dest: d)
qed

lemma bit_increment:
  fixes u :: "'a::len word"
  assumes "\<not> bit u j" "\<And>i. i < j \<Longrightarrow> bit u i" "j < LENGTH('a)"
  shows "bit (u + 1) i \<longleftrightarrow> (if i < j then False else i = j \<or> bit u i)"
proof -
  let ?h = "u AND NOT (mask j)"
  have d: "bit ?h i \<Longrightarrow> j < i" for i using assms(1) by (auto simp: bit_simps) (metis linorder_neqE_nat)
  have "u = ?h OR mask j" using assms(2) by (intro bit_word_eqI) (auto simp: bit_simps)
  also have "\<dots> = ?h + mask j" by (rule disjunctive_add [symmetric]) (auto simp: bit_simps)
  finally have "u + 1 = ?h + (mask j + 1)" by (simp add: ac_simps)
  also have "mask j + 1 = (push_bit j 1 :: 'a word)" by (simp add: mask_eq_exp_minus_1 push_bit_eq_mult)
  also have "?h + push_bit j 1 = ?h OR push_bit j 1"
    by (rule disjunctive_add) (use d in \<open>auto simp: bit_simps\<close>)
  finally show ?thesis using assms by (auto simp: bit_simps dest: bit_imp_le_length)
qed

lemma least_index: "P (n :: nat) \<Longrightarrow> \<exists>k. P k \<and> (\<forall>i<k. \<not> P i)"
  by (metis exists_least_iff)

lemma crcs1b_contiguous:
  fixes x :: u64
  assumes c: "crcs1b x = 0" and top: "bit x t" "t < 63" and hi: "\<And>i. t < i \<Longrightarrow> \<not> bit x i"
  shows "\<exists>k\<le>t. \<forall>i. bit x i \<longleftrightarrow> k \<le> i \<and> i \<le> t"
proof -
  obtain k where k: "bit x k" "\<And>i. i < k \<Longrightarrow> \<not> bit x i" using least_index [of "bit x", OF top(1)] by blast
  then have kt: "k \<le> t" using top hi by (meson not_le)
  let ?u = "x OR (x - 1)"
  have u: "bit ?u i \<longleftrightarrow> i < k \<or> bit x i" for i
    using bit_decrement [OF k] by (auto simp: bit_or_iff)
  have "\<not> bit ?u (Suc t)" using u hi [of "Suc t"] kt by simp
  then obtain j where j: "\<not> bit ?u j" "\<And>i. i < j \<Longrightarrow> bit ?u i" "j \<le> Suc t"
    using least_index [of "\<lambda>i. \<not> bit ?u i"] by (metis not_less_eq_eq not_le)
  have v: "bit (?u + 1) i \<longleftrightarrow> (if i < j then False else i = j \<or> bit ?u i)" for i
    by (rule bit_increment [OF j(1,2)]) (use j(3) top(2) in auto)
  have "(?u + 1) AND x = 0" using c by (simp add: crcs1b_def)
  then have no: "\<not> (bit (?u + 1) i \<and> bit x i)" for i
    by (simp only: bit_and_iff [symmetric]) simp
  have "t < j" using no [of t] v [of t] top u by (metis not_less)
  then have "bit x i \<longleftrightarrow> k \<le> i \<and> i \<le> t" for i
    using j(2) [of i] u [of i] k(2) [of i] hi [of i] by (cases "i < k"; cases "t < i") auto
  with kt show ?thesis by blast
qed

lemma bit_bitstomask:
  "n \<le> 32 \<Longrightarrow> bit (bitstomask (int n)) i \<longleftrightarrow> 32 - n \<le> i \<and> i < 32"
proof -
  assume n: "n \<le> 32"
  have e: "nat (32 - int n) = 32 - n" by simp
  show ?thesis
  proof (cases "n = 0")
    case False
    then have b: "bitstomask (int n) = ucast (NOT (mask (32 - n)) :: u64)"
      using n e by (simp add: bitstomask_def mask_eq_exp_minus_1 push_bit_eq_mult)
    show ?thesis unfolding b by (auto simp: bit_simps)
  qed (auto simp: bitstomask_def dest: bit_imp_le_length)
qed

lemma crcs1b_run:
  fixes x :: u64
  assumes "k \<le> t" "t < 63" and x: "\<And>i. bit x i \<longleftrightarrow> k \<le> i \<and> i \<le> t"
  shows "crcs1b x = 0"
proof -
  let ?u = "x OR (x - 1)"
  have u: "bit ?u i \<longleftrightarrow> i \<le> t" for i
    using bit_decrement [of x k i] x assms(1) by (auto simp: bit_or_iff)
  have "bit (?u + 1) i \<longleftrightarrow> (if i < Suc t then False else i = Suc t \<or> bit ?u i)" for i
    by (rule bit_increment) (use u assms(2) in auto)
  then have "\<not> bit ((?u + 1) AND x) i" for i using u x by (auto simp only: bit_and_iff split: if_splits)
  then show ?thesis unfolding crcs1b_def by (intro bit_word_eqI) simp
qed

lemma goodmask_bitstomask:
  assumes "n \<le> 32"
  shows "goodmask (bitstomask (int n))"
proof (cases "n = 0")
  case False
  let ?x = "ucast (bitstomask (int n)) :: u64"
  have x: "bit ?x i \<longleftrightarrow> 32 - n \<le> i \<and> i \<le> 31" for i
    using bit_bitstomask [OF assms, of i] by (auto simp: bit_ucast_iff)
  then have "crcs1b ?x = 0" by (intro crcs1b_run [of "32 - n" 31]) (use False in auto)
  moreover have "bit ?x 31" using x [of 31] False by simp
  then have "?x AND push_bit 31 1 \<noteq> 0" by (metis and_exp_eq_0_iff_not_bit push_bit_of_1)
  ultimately show ?thesis by (simp add: goodmask_def)
qed (simp add: goodmask_def bitstomask_def)

lemma upto_33:
  "[0..<33] = [0, 1, 2, 3, 4, 5, 6, 7, 8, 9, 10, 11, 12, 13, 14, 15, 16, 17, 18, 19, 20, 21, 22, 23, 24,
     25, 26, 27, 28, 29, 30, 31, 32]"
  by (simp add: upt_rec)

lemma ucast_minus_1: "ucast (- 1 :: u64) = (0xFFFFFFFF :: u32)"
  by code_simp

lemma bitstomask_table:
  "map (\<lambda>n. (n, bitstomask (int n))) [0..<33] =
     [(0, 0), (1, 0x80000000), (2, 0xC0000000), (3, 0xE0000000), (4, 0xF0000000), (5, 0xF8000000),
      (6, 0xFC000000), (7, 0xFE000000), (8, 0xFF000000), (9, 0xFF800000), (10, 0xFFC00000),
      (11, 0xFFE00000), (12, 0xFFF00000), (13, 0xFFF80000), (14, 0xFFFC0000), (15, 0xFFFE0000),
      (16, 0xFFFF0000), (17, 0xFFFF8000), (18, 0xFFFFC000), (19, 0xFFFFE000), (20, 0xFFFFF000),
      (21, 0xFFFFF800), (22, 0xFFFFFC00), (23, 0xFFFFFE00), (24, 0xFFFFFF00), (25, 0xFFFFFF80),
      (26, 0xFFFFFFC0), (27, 0xFFFFFFE0), (28, 0xFFFFFFF0), (29, 0xFFFFFFF8), (30, 0xFFFFFFFC),
      (31, 0xFFFFFFFE), (32, 0xFFFFFFFF)]"
  unfolding upto_33 by (simp add: bitstomask_def ucast_minus_1)

lemma masktobits_good:
  "goodmask m \<Longrightarrow> masktobits m =
     (if (ucast m :: u64) AND 1 \<noteq> 0 then 32
      else uint (fst (masktobits_step (push_bit 1 0x40000000) 1
          (masktobits_step (push_bit 1 0x30000000) 2
          (masktobits_step (push_bit 1 0x0f000000) 4
          (masktobits_step (push_bit 1 0x00ff0000) 8
          (masktobits_step (push_bit 1 0x0000ffff) 16 (0, ucast m))))))))"
  by (simp add: masktobits_def)

lemma masktobits_table:
  "list_all (\<lambda>(n :: nat, m). goodmask m \<longrightarrow> masktobits m = int n)
     [(0, 0), (1, 0x80000000), (2, 0xC0000000), (3, 0xE0000000), (4, 0xF0000000), (5, 0xF8000000),
      (6, 0xFC000000), (7, 0xFE000000), (8, 0xFF000000), (9, 0xFF800000), (10, 0xFFC00000),
      (11, 0xFFE00000), (12, 0xFFF00000), (13, 0xFFF80000), (14, 0xFFFC0000), (15, 0xFFFE0000),
      (16, 0xFFFF0000), (17, 0xFFFF8000), (18, 0xFFFFC000), (19, 0xFFFFE000), (20, 0xFFFFF000),
      (21, 0xFFFFF800), (22, 0xFFFFFC00), (23, 0xFFFFFE00), (24, 0xFFFFFF00), (25, 0xFFFFFF80),
      (26, 0xFFFFFFC0), (27, 0xFFFFFFE0), (28, 0xFFFFFFF0), (29, 0xFFFFFFF8), (30, 0xFFFFFFFC),
      (31, 0xFFFFFFFE), (32, 0xFFFFFFFF)]"
  by (simp add: masktobits_good masktobits_step_def)

lemma masktobits_bitstomask:
  assumes "n \<le> 32"
  shows "goodmask (bitstomask (int n)) \<and> masktobits (bitstomask (int n)) = int n"
  using goodmask_bitstomask [OF assms] masktobits_table assms unfolding bitstomask_table [symmetric]
  by (simp add: list_all_iff)

lemma goodmask_iff: "goodmask m \<longleftrightarrow> (\<exists>n\<le>32. m = bitstomask (int n))"
proof
  assume g: "goodmask m"
  show "\<exists>n\<le>32. m = bitstomask (int n)"
  proof (cases "m = 0")
    case True
    then show ?thesis by (intro exI [of _ 0]) (simp add: bitstomask_def)
  next
    case False
    let ?x = "ucast m :: u64"
    have x: "bit ?x i \<longleftrightarrow> bit m i" for i by (auto simp: bit_simps dest: bit_imp_le_length)
    have "?x \<noteq> 0"
    proof
      assume "?x = 0"
      then have "\<not> bit m i" for i using x [of i] by simp
      then have "m = 0" by (intro bit_word_eqI) simp
      with False show False by simp
    qed
    then have c: "crcs1b ?x = 0" "?x AND push_bit 31 1 \<noteq> 0" using g by (auto simp: goodmask_def Let_def)
    then have t: "bit ?x 31" by (metis and_exp_eq_0_iff_not_bit push_bit_of_1)
    have hi: "\<not> bit ?x i" if "31 < i" for i using x [of i] that by (auto dest: bit_imp_le_length)
    obtain k where "k \<le> 31" "\<And>i. bit ?x i \<longleftrightarrow> k \<le> i \<and> i \<le> 31"
      using crcs1b_contiguous [OF c(1) t _ hi] by auto
    then have "m = bitstomask (int (32 - k))"
      using x bit_bitstomask [of "32 - k"] by (intro bit_word_eqI) auto
    then show ?thesis by (intro exI [of _ "32 - k"]) simp
  qed
next
  assume "\<exists>n\<le>32. m = bitstomask (int n)"
  then obtain n where n: "n \<le> 32" "m = bitstomask (int n)" by blast
  then show "goodmask m" using masktobits_bitstomask n(2) by simp
qed

end
