(* ===== verification/AddressProps.thy ===== *)
theory AddressProps
  imports AddressFacts
begin

text \<open>
  The properties of the address library, each over the code's own functions, with the values
  of \<^verbatim>\<open>AddressFacts\<close> as the reference.
\<close>

section \<open>Membership\<close>

text \<open>
  C15: An address is in a subnet exactly when it has the subnet's family and its value lies in the
  subnet's block, and a subnet is in another exactly when the families agree and its block is a
  subset of the other's.
\<close>

theorem subnet_membership:
  assumes "wf_addr a" "wf_subnet s" "wf_subnet t"
  shows "(addrinsubnet a s \<longleftrightarrow> sin_family a = subnettypeof s \<and> addr_val a \<in> subnet_addrs s) \<and>
    (subnetinsubnet s t \<longleftrightarrow> subnettypeof s = subnettypeof t \<and> subnet_addrs s \<subseteq> subnet_addrs t)"
  using addrinsubnet_iff [OF assms(1,2)] subnetinsubnet_iff [OF assms(2,3)] by blast

definition ipv4 :: "byte list \<Rightarrow> ip_address" where
  "ipv4 bs = \<lparr>sin_family = AF_INET, sin_bytes = bs, sin_port = 0\<rparr>"

lemmas addr_eval = ipv4_def wf_addr_def wf_subnet_def addr_width_def addr_val_def af_defs
  subnettypeof_def subnet_addrs_def subnet_size_def

theorem subnet_membership_witness:
  "addrinsubnet (ipv4 [10, 1, 2, 3]) \<lparr>sn_addr = ipv4 [10, 1, 0, 0], maskbits = 16\<rparr> \<and>
   \<not> subnetinsubnet \<lparr>sn_addr = ipv4 [10, 1, 0, 0], maskbits = 16\<rparr> \<lparr>sn_addr = ipv4 [10, 1, 2, 0], maskbits = 24\<rparr>"
  using subnet_membership [of "ipv4 [10, 1, 2, 3]" "\<lparr>sn_addr = ipv4 [10, 1, 0, 0], maskbits = 16\<rparr>"
    "\<lparr>sn_addr = ipv4 [10, 1, 2, 0], maskbits = 24\<rparr>"]
  by (simp add: addr_eval)

section \<open>Making subnets\<close>

text \<open>
  C17: For a count within the address, \<^verbatim>\<open>initsubnet\<close> returns a well-formed subnet of that count,
  with the family and port of the address, which contains the address; only when it is told to
  die on host bits and there are some it reports an error instead.
\<close>

theorem initsubnet_well_formed:
  assumes "wf_addr a" "k \<le> addr_width a" "clash \<noteq> Clash_other"
  shows "if clash = Clash_die \<and> addr_val a mod 2 ^ (addr_width a - k) \<noteq> 0
    then initsubnet a (int k) clash = Err ''improper subnet, host-part bits on''
    else \<exists>s. initsubnet a (int k) clash = Ok s \<and> wf_subnet s \<and> maskbits s = k \<and>
      addrinsubnet a s \<and> portof (sn_addr s) = portof a"
proof -
  let ?m = "2 ^ (addr_width a - k)" and ?h = "addr_val a mod 2 ^ (addr_width a - k)"
  have i: "initsubnet a (int k) clash = outcome_of (initsubnet_count a k clash)"
    using assms wf_addr_length_pos [OF assms(1)] by (simp add: initsubnet_def)
  note v = initsubnet_value [OF assms]
  show ?thesis
  proof (cases "clash = Clash_die \<and> ?h \<noteq> 0")
    case True
    then show ?thesis using v i by simp
  next
    case False
    then obtain bs where bs: "initsubnet_count a k clash = Inr \<lparr>sn_addr = a\<lparr>sin_bytes := bs\<rparr>, maskbits = k\<rparr>"
        "length bs = length (sin_bytes a)" "be_nat bs = addr_val a - ?h"
      using v by (auto split: if_splits)
    let ?s = "\<lparr>sn_addr = a\<lparr>sin_bytes := bs\<rparr>, maskbits = k\<rparr>"
    have w: "addr_width (sn_addr ?s) = addr_width a" by (simp add: addr_width_def)
    have wa: "wf_addr (sn_addr ?s)" using assms(1) bs(2) by (simp add: wf_addr_def)
    have val: "addr_val (sn_addr ?s) = addr_val a - ?h" using bs(3) by (simp add: addr_val_def)
    have "(addr_val a - ?h) mod ?m = 0" by (simp add: minus_mod_eq_mult_div)
    then have ws: "wf_subnet ?s" using wa w val assms(2) by (simp add: wf_subnet_def)
    have "?h < ?m" "?h \<le> addr_val a" by simp_all
    then have "addr_val a \<in> {addr_val a - ?h ..< addr_val a - ?h + ?m}"
      by (simp only: atLeastLessThan_iff) linarith
    moreover have "subnet_addrs ?s = {addr_val a - ?h ..< addr_val a - ?h + ?m}"
      using w val by (simp add: subnet_addrs_def subnet_size_def)
    ultimately have "addrinsubnet a ?s"
      using addrinsubnet_iff [OF assms(1) ws] by (simp add: subnettypeof_def)
    then show ?thesis using False i bs(1) ws by (auto simp: portof_def)
  qed
qed

theorem initsubnet_well_formed_witness:
  "\<exists>s. initsubnet (ipv4 [10, 1, 2, 3]) 20 Clash_zero = Ok s \<and> wf_subnet s \<and> maskbits s = 20 \<and>
    addrinsubnet (ipv4 [10, 1, 2, 3]) s"
  using initsubnet_well_formed [of "ipv4 [10, 1, 2, 3]" 20 Clash_zero]
  by (auto simp: addr_eval)

text \<open>
  C16: \<^verbatim>\<open>rangetosubnet\<close> returns a subnet exactly when the range is the block of a subnet that
  starts at its lower end, and then that subnet; on every other range of two addresses of one
  family it reports an error and does not fault.
\<close>

theorem rangetosubnet_exact:
  assumes "wf_addr a" "wf_addr b" "sin_family a = sin_family b"
  shows "safe (rangetosubnet a b) \<and> (rangetosubnet a b = Ok s \<longleftrightarrow>
    wf_subnet s \<and> sn_addr s = a \<and> subnet_addrs s = {addr_val a .. addr_val b})"
proof
  show "safe (rangetosubnet a b)"
    by (auto simp: rangetosubnet_def initsubnet_def Let_def split: sum.splits)
qed (rule rangetosubnet_Ok_iff [OF assms])

theorem rangetosubnet_exact_witness:
  "rangetosubnet (ipv4 [10, 1, 4, 0]) (ipv4 [10, 1, 7, 255]) = Ok \<lparr>sn_addr = ipv4 [10, 1, 4, 0], maskbits = 22\<rparr>"
proof -
  let ?a = "ipv4 [10, 1, 4, 0]" and ?b = "ipv4 [10, 1, 7, 255]"
  let ?s = "\<lparr>sn_addr = ?a, maskbits = 22\<rparr>"
  have "subnet_addrs ?s = {addr_val ?a .. addr_val ?b}"
    unfolding subnet_addrs_def ip_subnet.simps by (subst block_interval) (simp_all add: addr_eval)
  moreover have "wf_addr ?a" "wf_addr ?b" "sin_family ?a = sin_family ?b" "wf_subnet ?s"
    by (simp_all add: addr_eval)
  ultimately show ?thesis using rangetosubnet_exact [of ?a ?b ?s] by simp
qed

text \<open>
  C36: The guard of \<^verbatim>\<open>initsubnet\<close> compares whole octets, so it lets through up to seven counts
  above the width of the address: the result is a subnet in which no address lies.
\<close>

theorem initsubnet_overlong_count:
  assumes "wf_addr a" "addr_width a < k" "k < addr_width a + 8" "clash \<noteq> Clash_other"
  shows "initsubnet a (int k) clash = Ok \<lparr>sn_addr = a, maskbits = k\<rparr> \<and>
    \<not> addrinsubnet b \<lparr>sn_addr = a, maskbits = k\<rparr>"
proof -
  have l: "8 * length (sin_bytes a) = addr_width a" by (rule wf_addr_length [OF assms(1)])
  then have "k div 8 = length (sin_bytes a)" using assms(2,3) by linarith
  then have "initsubnet a (int k) clash = Ok \<lparr>sn_addr = a, maskbits = k\<rparr>"
    using assms wf_addr_length_pos [OF assms(1)] by (simp add: initsubnet_def initsubnet_count_def)
  moreover have "\<not> samenbits b a k" if "addrtypeof b = addrtypeof a"
    using that assms(1,2) l by (auto simp: samenbits_def addrbytesptr_def Let_def addrtypeof_def wf_addr_def af_defs)
  ultimately show ?thesis by (auto simp: addrinsubnet_def subnettypeof_def addrtypeof_def)
qed

theorem initsubnet_overlong_count_witness:
  "initsubnet (ipv4 [10, 1, 2, 3]) 35 Clash_zero = Ok \<lparr>sn_addr = ipv4 [10, 1, 2, 3], maskbits = 35\<rparr> \<and>
   \<not> addrinsubnet (ipv4 [10, 1, 2, 3]) \<lparr>sn_addr = ipv4 [10, 1, 2, 3], maskbits = 35\<rparr>"
  using initsubnet_overlong_count [of "ipv4 [10, 1, 2, 3]" 35 Clash_zero "ipv4 [10, 1, 2, 3]"]
  by (simp add: addr_eval)

section \<open>Masks\<close>

lemma mask_bytes_numeral:
  "mask_bytes (numeral n) b =
     (if b \<ge> 8 then 0xFF # mask_bytes (pred_numeral n) (b - 8)
      else if b \<noteq> 0 then push_bit (8 - b) 0xFF # replicate (pred_numeral n) 0
      else 0 # replicate (pred_numeral n) 0)"
  by (simp add: numeral_eq_Suc)

text \<open>
  \<^verbatim>\<open>masktocount\<close> inverts \<^verbatim>\<open>maskof\<close>: a mask has count \<open>n\<close> exactly when it is the mask that
  \<^verbatim>\<open>maskof\<close> gives for a subnet of that family and count.
\<close>

theorem masktocount_inverts_maskof:
  assumes "wf_addr a" "wf_addr m" "sin_family m = sin_family a" "sin_port m = 0"
  shows "masktocount m = int n \<longleftrightarrow> maskof \<lparr>sn_addr = a, maskbits = n\<rparr> = Some (Inr m)"
proof -
  let ?l = "length (sin_bytes a)"
  have l: "length (sin_bytes m) = ?l" using wf_addr_same_length [OF assms(2,1,3)] .
  have c: "count_mask (sin_bytes m) = Some n \<longleftrightarrow> n \<le> 8 * ?l \<and> sin_bytes m = mask_bytes ?l n"
    using count_mask_sound [of "sin_bytes m" n] count_mask_complete [of n ?l] l by auto
  have m: "masktocount m = int n \<longleftrightarrow> count_mask (sin_bytes m) = Some n"
    using wf_addr_length_pos [OF assms(2)] assms(2)
    by (cases "count_mask (sin_bytes m)") (simp_all add: masktocount_def Let_def)
  have i: "initaddr bs (sin_family a) = Inr m \<longleftrightarrow> bs = sin_bytes m" for bs
  proof
    assume "bs = sin_bytes m"
    then show "initaddr bs (sin_family a) = Inr m"
      using assms(2-4) by (cases m) (auto simp: initaddr_def wf_addr_def af_defs)
  qed (auto dest: initaddr_wf)
  have "\<not> 16 < ?l" using assms(1) by (auto simp: wf_addr_def)
  then have "maskof \<lparr>sn_addr = a, maskbits = n\<rparr> = Some (Inr m) \<longleftrightarrow>
      n \<le> 8 * ?l \<and> initaddr (mask_bytes ?l n) (sin_family a) = Inr m"
    using assms(1) by (simp add: maskof_def addrlenof_def addrtypeof_def Let_def mult.commute not_less)
  then show ?thesis unfolding m c i by auto
qed

theorem masktocount_inverts_maskof_witness:
  "masktocount (ipv4 [255, 255, 240, 0]) = 20"
  using masktocount_inverts_maskof [of "ipv4 [10, 0, 0, 0]" "ipv4 [255, 255, 240, 0]" 20]
  by (simp add: addr_eval maskof_def addrlenof_def addrbytesptr_def addrtypeof_def initaddr_def
    mask_bytes_numeral)

text \<open>
  C35: \<^verbatim>\<open>masktocount\<close> reports a mask with a hole as -1, and \<^verbatim>\<open>initsubnet\<close> given that count shifts
  by a negative amount: \<^verbatim>\<open>decode_net_id\<close> and the handling of \<^verbatim>\<open>CISCO_SPLIT_INC\<close> pass the one to
  the other without looking at the sign.
\<close>

theorem hole_in_mask_reaches_shift:
  assumes "wf_addr a" "wf_addr m" "\<forall>n. sin_bytes m \<noteq> mask_bytes (length (sin_bytes m)) n" "clash \<noteq> Clash_other"
  shows "masktocount m = - 1 \<and> initsubnet a (masktocount m) clash = Abort Bad_shift"
proof -
  have "count_mask (sin_bytes m) = None"
    using assms(3) count_mask_sound by (cases "count_mask (sin_bytes m)") auto
  then have "masktocount m = - 1" using assms(2) by (simp add: masktocount_def Let_def)
  then show ?thesis using assms(1,4) wf_addr_length_pos [OF assms(1)] by (simp add: initsubnet_def)
qed

theorem hole_in_mask_reaches_shift_witness:
  "initsubnet (ipv4 [10, 0, 0, 0]) (masktocount (ipv4 [255, 0, 255, 0])) Clash_zero = Abort Bad_shift"
proof -
  have "\<forall>n. sin_bytes (ipv4 [255, 0, 255, 0]) \<noteq> mask_bytes (length (sin_bytes (ipv4 [255, 0, 255, 0]))) n"
    by (auto simp: ipv4_def mask_bytes_numeral)
  moreover have "wf_addr (ipv4 [10, 0, 0, 0])" "wf_addr (ipv4 [255, 0, 255, 0])" by (simp_all add: addr_eval)
  ultimately show ?thesis
    using hole_in_mask_reaches_shift [of "ipv4 [10, 0, 0, 0]" "ipv4 [255, 0, 255, 0]" Clash_zero] by blast
qed

text \<open>
  C18: The bit trick of \<^verbatim>\<open>goodmask\<close> accepts exactly the 33 masks \<^verbatim>\<open>bitstomask\<close> builds, and on
  these the binary search of \<^verbatim>\<open>masktobits\<close> recovers the count; any other mask gives -1.
\<close>

theorem masktobits_inverts_bitstomask:
  assumes "n \<le> 32"
  shows "masktobits (bitstomask (int n)) = int n \<and>
    (goodmask msk \<longleftrightarrow> (\<exists>k\<le>32. msk = bitstomask (int k))) \<and> (masktobits msk = - 1 \<longleftrightarrow> \<not> goodmask msk)"
proof -
  have "masktobits msk \<noteq> - 1" if "goodmask msk"
    using that goodmask_iff [of msk] masktobits_bitstomask by auto
  moreover have "masktobits msk = - 1" if "\<not> goodmask msk" using that by (simp add: masktobits_def)
  ultimately show ?thesis using masktobits_bitstomask [OF assms] goodmask_iff [of msk] by blast
qed

theorem masktobits_inverts_bitstomask_witness:
  "masktobits (bitstomask 20) = 20 \<and> masktobits 0xFF00FF00 = - 1"
  using masktobits_inverts_bitstomask [of 20 "0xFF00FF00"] by (simp add: goodmask_def crcs1b_def)

lemma mask6_words_bitstomask:
  assumes "0 < r" "r \<le> 32"
  shows "mask6_words (bitstomask (int r) # replicate k 0) b = b + int r"
proof (cases "r = 32")
  case True
  then have "bitstomask (int r) = 0xFFFFFFFF" by (simp add: bitstomask_def ucast_minus_1)
  moreover have "masktobits 0 = 0" "goodmask 0"
    using masktobits_bitstomask [of 0] by (simp_all add: bitstomask_def)
  ultimately show ?thesis using True by (cases k) simp_all
next
  case False
  have "masktobits 0xFFFFFFFF = 32"
    using masktobits_bitstomask [of 32] by (simp add: bitstomask_def ucast_minus_1)
  then have "bitstomask (int r) \<noteq> 0xFFFFFFFF" using masktobits_bitstomask [OF assms(2)] False by auto
  then show ?thesis using masktobits_bitstomask [OF assms(2)] by simp
qed

lemma bitstomask6_blocks:
  assumes "q < 4" "0 < r" "r \<le> 32"
  shows "bitstomask6 junk (32 * int q + int r) =
    replicate q 0xFFFFFFFF @ bitstomask (int r) # replicate (3 - q) 0"
proof -
  have "q = 0 \<or> q = 1 \<or> q = 2 \<or> q = 3" using assms(1) by auto
  then show ?thesis using assms(2,3)
    by (elim disjE) (simp_all add: bitstomask6_def bitstomask_def eval_nat_numeral)
qed

lemma mask6_words_full: "mask6_words (replicate q 0xFFFFFFFF @ ws) b = mask6_words ws (b + 32 * int q)"
  by (induction q arbitrary: b) (simp_all add: algebra_simps)

text \<open>
  \<^verbatim>\<open>bitstomask6\<close> builds the mask of every count from 1 to 128 and \<^verbatim>\<open>mask6tobits\<close> reads the
  count back; for 0 it assigns the first word four times, so three words of the result are
  whatever the automatic variable held.
\<close>

theorem bitstomask6_zero_indeterminate:
  assumes "length junk = 4" "0 < n" "n \<le> 128"
  shows "mask6tobits (bitstomask6 junk (int n)) = int n \<and> bitstomask6 junk 0 = 0 # tl junk"
proof
  let ?q = "(n - 1) div 32" and ?r = "(n - 1) mod 32 + 1"
  have q: "?q < 4" "0 < ?r" "?r \<le> 32" using assms by auto
  have n: "int n = 32 * int ?q + int ?r" using assms(2) div_mult_mod_eq [of "n - 1" 32] by linarith
  show "mask6tobits (bitstomask6 junk (int n)) = int n"
    unfolding n bitstomask6_blocks [OF q] mask6tobits_def
    using q(1) mask6_words_bitstomask [OF q(2,3)] by (simp add: mask6_words_full)
  show "bitstomask6 junk 0 = 0 # tl junk" using assms(1) by (cases junk) (simp_all add: bitstomask6_def)
qed

theorem bitstomask6_zero_indeterminate_witness:
  "mask6tobits (bitstomask6 [7, 7, 7, 7] 65) = 65 \<and> bitstomask6 [7, 7, 7, 7] 0 = [0, 7, 7, 7]"
  using bitstomask6_zero_indeterminate [of "[7, 7, 7, 7]" 65] by simp

section \<open>The size of a range\<close>

lemma iprange_bits_iff:
  assumes "wf_addr lo" "wf_addr hi" "sin_family lo = sin_family hi"
  shows "iprange_bits lo hi = int k \<longleftrightarrow>
    (let d = \<bar>int (addr_val hi) - int (addr_val lo)\<bar> in d < 2 ^ k \<and> (0 < k \<longrightarrow> 2 ^ (k - 1) \<le> d))"
proof -
  let ?d = "\<bar>int (addr_val hi) - int (addr_val lo)\<bar>"
  have "nat ?d < 2 ^ k \<longleftrightarrow> ?d < 2 ^ k" by (simp add: nat_less_iff)
  moreover have "2 ^ (k - 1) \<le> nat ?d \<longleftrightarrow> 2 ^ (k - 1) \<le> ?d" by (simp add: le_nat_iff)
  ultimately show ?thesis
    unfolding iprange_bits_value [OF assms] bit_length_def Let_def by blast
qed

text \<open>
  C19: \<^verbatim>\<open>iprange_bits\<close> of two addresses of one family is the number of bits of the distance
  between them, whichever is the lower one. The comment above the function promises
  \<open>floor (lg (distance + 1))\<close>: the code returns that number \<open>m\<close> only when the distance plus one is a
  power of two, and \<open>m + 1\<close> otherwise.
\<close>

theorem iprange_bits_distance:
  assumes "wf_addr lo" "wf_addr hi" "sin_family lo = sin_family hi"
    and "d = \<bar>int (addr_val hi) - int (addr_val lo)\<bar>"
  shows "(iprange_bits lo hi = int k \<longleftrightarrow> d < 2 ^ k \<and> (0 < k \<longrightarrow> 2 ^ (k - 1) \<le> d)) \<and>
    (2 ^ m \<le> d + 1 \<and> d + 1 < 2 ^ Suc m \<longrightarrow>
      iprange_bits lo hi = (if d + 1 = 2 ^ m then int m else int (Suc m)))"
proof -
  have iff: "iprange_bits lo hi = int k \<longleftrightarrow> d < 2 ^ k \<and> (0 < k \<longrightarrow> 2 ^ (k - 1) \<le> d)" for k
    unfolding assms(4) iprange_bits_iff [OF assms(1-3)] Let_def ..
  have "d < 2 ^ m \<and> (0 < m \<longrightarrow> 2 ^ (m - 1) \<le> d)" if "d + 1 = 2 ^ m"
  proof -
    have "0 < m \<Longrightarrow> (2 :: int) ^ m = 2 * 2 ^ (m - 1)" by (cases m) simp_all
    moreover have "(1 :: int) \<le> 2 ^ (m - 1)" by simp
    ultimately show ?thesis using that by linarith
  qed
  then show ?thesis using iff [of k] iff [of m] iff [of "Suc m"] by auto
qed

theorem iprange_bits_distance_witness:
  "iprange_bits (ipv4 [10, 1, 4, 0]) (ipv4 [10, 1, 7, 255]) = 10 \<and>
   iprange_bits (ipv4 [10, 1, 4, 2]) (ipv4 [10, 1, 4, 0]) = int (Suc 1)"
  using iprange_bits_distance [of "ipv4 [10, 1, 4, 0]" "ipv4 [10, 1, 7, 255]" 1023 10]
    iprange_bits_distance [of "ipv4 [10, 1, 4, 2]" "ipv4 [10, 1, 4, 0]" 2 _ 1]
  by (simp add: addr_eval)

end
