(* ===== verification/Asn1.thy ===== *)
theory Asn1
  imports EnumNames
begin

text \<open>
  The ASN.1 helpers of \<^verbatim>\<open>lib/libswan/asn1.c\<close> and the table of object identifiers of
  \<^verbatim>\<open>lib/libswan/oid.c\<close>. A \<^verbatim>\<open>chunk_t\<close> is the list of its octets; a function that advances the
  chunk it is given returns the rest. \<open>None\<close> is \<^verbatim>\<open>ASN1_INVALID_LENGTH\<close>, the largest \<^verbatim>\<open>size_t\<close>,
  which is never the length of a chunk.
\<close>

type_synonym chunk = "byte list"

section \<open>Lengths\<close>

definition asn1_length :: "chunk \<Rightarrow> chunk \<times> nat option" where
  "asn1_length blob =
     (if length blob < 2 then (blob, None)
      else
        let n = blob ! 1; rest = drop 2 blob in
        if n AND 0x80 = 0 then
          (if unat n > length rest then (rest, None) else (rest, Some (unat n)))
        else
          let k = unat (n AND 0x7f) in
          if k > length rest then (rest, None)
          else if k > 8 then (rest, None)
          else
            let len = be_nat (take k rest); rest' = drop k rest in
            if len > length rest' then (rest', None) else (rest', Some len))"

definition code_asn1_length :: "nat \<Rightarrow> chunk" where
  "code_asn1_length len =
     (if len < 128 then [of_nat len]
      else if len < 256 then [0x81, of_nat len]
      else if len < 65536 then [0x82, of_nat (len div 256), of_nat (len mod 256)]
      else [0x83, of_nat (len div 65536), of_nat (len div 256 mod 256), of_nat (len mod 256)])"

text \<open>
  The builders return the object up to the position where the caller writes the contents; the
  allocation (\<^verbatim>\<open>alloc_bytes\<close>, not cleared) has room for \<open>datalen\<close> more octets.
\<close>

definition build_asn1_object :: "byte \<Rightarrow> nat \<Rightarrow> chunk" where
  "build_asn1_object type datalen = type # code_asn1_length datalen"

definition build_asn1_explicit_object :: "byte \<Rightarrow> byte \<Rightarrow> nat \<Rightarrow> chunk" where
  "build_asn1_explicit_object outer_type inner_type datalen =
     (let l = code_asn1_length datalen
      in build_asn1_object outer_type (1 + length l + datalen) @ inner_type # l)"

definition ASN1_SEQUENCE :: byte where "ASN1_SEQUENCE = 0x30"
definition ASN1_SET :: byte where "ASN1_SET = 0x31"
definition ASN1_OID :: byte where "ASN1_OID = 0x06"
definition ASN1_PRINTABLESTRING :: byte where "ASN1_PRINTABLESTRING = 0x13"
definition ASN1_T61STRING :: byte where "ASN1_T61STRING = 0x14"
definition ASN1_IA5STRING :: byte where "ASN1_IA5STRING = 0x16"

lemmas asn1_types = ASN1_SEQUENCE_def ASN1_SET_def ASN1_OID_def ASN1_PRINTABLESTRING_def
  ASN1_T61STRING_def ASN1_IA5STRING_def

text \<open>\<^verbatim>\<open>is_asn1\<close> keeps the length in a \<^verbatim>\<open>u_int\<close>, which cuts it to 32 bits.\<close>

definition is_asn1 :: "chunk \<Rightarrow> bool" where
  "is_asn1 blob =
     (if length blob < 1 then False
      else if \<not> (blob ! 0 = ASN1_SEQUENCE \<or> blob ! 0 = ASN1_SET) then False
      else let (rest, r) = asn1_length blob;
               len = (case r of None \<Rightarrow> 2 ^ 32 - 1 | Some n \<Rightarrow> n mod 2 ^ 32)
           in len = length rest)"

definition ascii :: "string \<Rightarrow> chunk" where
  "ascii s = map of_char s"

text \<open>\<^verbatim>\<open>strchr\<close> also finds the terminating NUL of the character set.\<close>

definition printablestring_charset :: chunk where
  "printablestring_charset =
     ascii ''ABCDEFGHIJKLMNOPQRSTUVWXYZabcdefghijklmnopqrstuvwxyz0123456789 '' @ [0x27] @ ascii ''()+,-./:=?'' @ [0]"

definition is_printablestring :: "chunk \<Rightarrow> bool" where
  "is_printablestring str = list_all (\<lambda>c. c \<in> set printablestring_charset) str"

section \<open>Object identifiers\<close>

text \<open>An entry is its octet, whether it has entries below it, the next entry of its level (0 for
  none) and its name.\<close>

type_synonym oid_t = "byte \<times> bool \<times> nat \<times> string"

definition oid_names :: "oid_t list" where
  "oid_names =
     [(0x02, True, 7, ''ITU-T Administration''), (0x82, True, 0, ''''),
      (0x06, True, 0, ''Germany ITU-T member''), (0x01, True, 0, ''Deutsche Telekom AG''),
      (0x0A, True, 0, ''''), (0x07, True, 0, ''''), (0x14, False, 0, ''ND''),
      (0x09, True, 18, ''data''), (0x92, True, 0, ''''), (0x26, True, 0, ''''),
      (0x89, True, 0, ''''), (0x93, True, 0, ''''), (0xF2, True, 0, ''''), (0x2C, True, 0, ''''),
      (0x64, True, 0, ''pilot''), (0x01, True, 0, ''pilotAttributeType''),
      (0x01, False, 17, ''UID''), (0x19, False, 0, ''DC''), (0x55, True, 51, ''X.500''),
      (0x04, True, 36, ''X.509''), (0x03, False, 21, ''CN''), (0x04, False, 22, ''S''),
      (0x05, False, 23, ''SN''), (0x06, False, 24, ''C''), (0x07, False, 25, ''L''),
      (0x08, False, 26, ''ST''), (0x0A, False, 27, ''O''), (0x0B, False, 28, ''OU''),
      (0x0C, False, 29, ''T''), (0x0D, False, 30, ''D''), (0x24, False, 31, ''userCertificate''),
      (0x29, False, 32, ''N''), (0x2A, False, 33, ''G''), (0x2B, False, 34, ''I''),
      (0x2D, False, 35, ''ID''), (0x48, False, 0, ''role''), (0x1D, True, 0, ''id-ce''),
      (0x09, False, 38, ''subjectDirectoryAttrs''), (0x0E, False, 39, ''subjectKeyIdentifier''),
      (0x0F, False, 40, ''keyUsage''), (0x10, False, 41, ''privateKeyUsagePeriod''),
      (0x11, False, 42, ''subjectAltName''), (0x12, False, 43, ''issuerAltName''),
      (0x13, False, 44, ''basicConstraints''), (0x15, False, 45, ''reasonCode''),
      (0x1F, False, 46, ''crlDistributionPoints''), (0x20, False, 47, ''certificatePolicies''),
      (0x23, False, 48, ''authorityKeyIdentifier''), (0x25, False, 49, ''extendedKeyUsage''),
      (0x37, False, 50, ''targetInformation''), (0x38, False, 0, ''noRevAvail''),
      (0x2A, True, 80, ''''), (0x86, True, 0, ''''), (0x48, True, 0, ''''), (0x86, True, 0, ''''),
      (0xF7, True, 0, ''''), (0x0D, True, 0, ''RSADSI''), (0x01, True, 77, ''PKCS''),
      (0x01, True, 67, ''PKCS-1''), (0x01, False, 60, ''rsaEncryption''),
      (0x02, False, 61, ''md2WithRSAEncryption''), (0x04, False, 62, ''md5WithRSAEncryption''),
      (0x05, False, 63, ''sha-1WithRSAEncryption''),
      (0x0B, False, 64, ''sha256WithRSAEncryption''),
      (0x0C, False, 65, ''sha384WithRSAEncryption''),
      (0x0D, False, 66, ''sha512WithRSAEncryption''),
      (0x0E, False, 0, ''sha224WithRSAEncryption''), (0x07, True, 74, ''PKCS-7''),
      (0x01, False, 69, ''data''), (0x02, False, 70, ''signedData''),
      (0x03, False, 71, ''envelopedData''), (0x04, False, 72, ''signedAndEnvelopedData''),
      (0x05, False, 73, ''digestedData''), (0x06, False, 0, ''encryptedData''),
      (0x09, True, 0, ''PKCS-9''), (0x01, False, 76, ''E''),
      (0x02, False, 0, ''unstructuredName''), (0x02, True, 0, ''digestAlgorithm''),
      (0x02, False, 79, ''md2''), (0x05, False, 0, ''md5''), (0x2B, True, 133, ''''),
      (0x06, True, 121, ''dod''), (0x01, True, 0, ''internet''), (0x04, True, 92, ''private''),
      (0x01, True, 0, ''enterprise''), (0x89, True, 0, ''''), (0x31, True, 0, ''''),
      (0x01, True, 0, ''''), (0x01, True, 0, ''''), (0x02, True, 0, ''''), (0x02, True, 0, ''''),
      (0x4B, False, 0, ''TCGID''), (0x05, True, 0, ''security''), (0x05, True, 0, ''mechanisms''),
      (0x07, True, 0, ''id-pkix''), (0x01, True, 97, ''id-pe''),
      (0x01, False, 0, ''authorityInfoAccess''), (0x03, True, 107, ''id-kp''),
      (0x01, False, 99, ''serverAuth''), (0x02, False, 100, ''clientAuth''),
      (0x03, False, 101, ''codeSigning''), (0x04, False, 102, ''emailProtection''),
      (0x05, False, 103, ''ipsecEndSystem''), (0x06, False, 104, ''ipsecTunnel''),
      (0x07, False, 105, ''ipsecUser''), (0x08, False, 106, ''timeStamping''),
      (0x09, False, 0, ''ocspSigning''), (0x0A, True, 112, ''id-aca''),
      (0x01, False, 109, ''authenticationInfo''), (0x02, False, 110, ''accessIdentity''),
      (0x03, False, 111, ''chargingIdentity''), (0x04, False, 0, ''group''),
      (0x30, True, 0, ''id-ad''), (0x01, True, 0, ''ocsp''), (0x01, False, 115, ''basic''),
      (0x02, False, 116, ''nonce''), (0x03, False, 117, ''crl''), (0x04, False, 118, ''response''),
      (0x05, False, 119, ''noCheck''), (0x06, False, 120, ''archiveCutoff''),
      (0x07, False, 0, ''serviceLocator''), (0x0E, True, 126, ''oiw''),
      (0x03, True, 0, ''secsig''), (0x02, True, 0, ''algorithms''), (0x1A, False, 125, ''sha-1''),
      (0x1D, False, 0, ''sha-1WithRSASignature''), (0x24, True, 0, ''TeleTrusT''),
      (0x03, True, 0, ''algorithm''), (0x03, True, 0, ''signatureAlgorithm''),
      (0x01, True, 0, ''rsaSignature''), (0x02, False, 131, ''rsaSigWithripemd160''),
      (0x03, False, 132, ''rsaSigWithripemd128''), (0x04, False, 0, ''rsaSigWithripemd256''),
      (0x60, True, 0, ''''), (0x86, True, 0, ''''), (0x48, True, 0, ''''),
      (0x01, True, 0, ''organization''), (0x65, True, 144, ''gov''), (0x03, True, 0, ''csor''),
      (0x04, True, 0, ''nistalgorithm''), (0x02, True, 0, ''hashalgs''),
      (0x01, False, 142, ''id-SHA-256''), (0x02, False, 143, ''id-SHA-384''),
      (0x03, False, 0, ''id-SHA-512''), (0x86, True, 0, ''''), (0xF8, True, 0, ''''),
      (0x42, True, 0, ''''), (0x01, True, 0, ''''), (0x01, False, 149, ''nsCertType''),
      (0x03, False, 150, ''nsRevocationUrl''), (0x0D, False, 0, ''nsComment'')]"

definition OID_PKCS9_EMAIL :: int where "OID_PKCS9_EMAIL = 75"

text \<open>
  The loop of \<^verbatim>\<open>known_oid\<close>, over any table. Following \<^verbatim>\<open>next\<close> consumes nothing, so that it ends
  is a property of the table: \<open>None\<close> is a run that does not end.
\<close>

partial_function (option) known_oid_loop :: "oid_t list \<Rightarrow> nat \<Rightarrow> chunk \<Rightarrow> (fault + int) option" where
  "known_oid_loop names i object =
     (case object of
        [] \<Rightarrow> Some (Inr (- 1))
      | c # rest \<Rightarrow>
          if i \<ge> length names then Some (Inl Out_of_bounds)
          else
            (case names ! i of (octet, down, nxt, name) \<Rightarrow>
              if octet = c then
                (if rest = [] then Some (Inr (if \<not> down then int i else - 1))
                 else if \<not> down then Some (Inr (- 1))
                 else known_oid_loop names (i + 1) rest)
              else if nxt \<noteq> 0 then known_oid_loop names nxt object
              else Some (Inr (- 1))))"

declare known_oid_loop.simps [code]

definition known_oid :: "chunk \<Rightarrow> (fault + int) option" where
  "known_oid object = known_oid_loop oid_names 0 object"

end
