(* ===== verification/DistinguishedNames.thy ===== *)
theory DistinguishedNames
  imports Asn1
begin

text \<open>
  Distinguished names, \<^verbatim>\<open>lib/libswan/x509dn.c\<close>: the cursor over the RDNs of a DER-encoded name
  (\<^verbatim>\<open>init_rdn\<close>, \<^verbatim>\<open>get_next_rdn\<close>), printing (\<^verbatim>\<open>dn_parse\<close>, \<^verbatim>\<open>dntoa\<close>), counting wildcards,
  comparison (\<^verbatim>\<open>match_dn\<close>, \<^verbatim>\<open>same_dn\<close>) and the state machine that encodes the textual form
  (\<^verbatim>\<open>atodn\<close>). A read at a chunk without octets is \<open>Abort Out_of_bounds\<close>, and a search of the table of
  object identifiers that does not end is \<open>Abort Endless\<close>.
\<close>

section \<open>The cursor\<close>

definition init_rdn :: "chunk \<Rightarrow> (string, chunk \<times> bool) outcome" where
  "init_rdn dn =
     (case dn of
        [] \<Rightarrow> Abort Out_of_bounds
      | t # _ \<Rightarrow>
          if t \<noteq> ASN1_SEQUENCE then Err ''DN is not a SEQUENCE''
          else (case asn1_length dn of
              (rest, None) \<Rightarrow> Err ''Invalid RDN length''
            | (rest, Some n) \<Rightarrow> Ok (take n rest, n > 0)))"

text \<open>The first part of \<^verbatim>\<open>get_next_rdn\<close>: when all attributes have been parsed, the next RDN.\<close>

definition next_attribute :: "chunk \<Rightarrow> chunk \<Rightarrow> (string, chunk \<times> chunk) outcome" where
  "next_attribute rdn attribute =
     (if attribute \<noteq> [] then Ok (rdn, attribute)
      else case rdn of
        [] \<Rightarrow> Abort Out_of_bounds
      | t # _ \<Rightarrow>
          if t \<noteq> ASN1_SET then Err ''RDN is not a SET''
          else (case asn1_length rdn of
              (rest, None) \<Rightarrow> Err ''Invalid attribute length''
            | (rest, Some n) \<Rightarrow>
                if n < 1 then Err ''Invalid attribute length'' else Ok (drop n rest, take n rest)))"

record rdn_entry =
  re_oid :: chunk
  re_value :: chunk
  re_type :: byte

text \<open>The part that takes an attribute body apart into OID, string type and value.\<close>

definition parse_body :: "chunk \<Rightarrow> (string, rdn_entry) outcome" where
  "parse_body body =
     (case body of
        [] \<Rightarrow> Abort Out_of_bounds
      | t # _ \<Rightarrow>
          if t \<noteq> ASN1_OID then Err ''attributeType is not an OID''
          else (case asn1_length body of
              (rest, None) \<Rightarrow> Err ''Invalid attribute OID length''
            | (rest, Some n) \<Rightarrow>
                let oid = take n rest; val = drop n rest in
                if length val < 2 then Err ''Invalid value in RDN''
                else (case asn1_length val of
                    (rest', None) \<Rightarrow> Err ''Invalid attribute string length''
                  | (rest', Some m) \<Rightarrow>
                      Ok \<lparr>re_oid = oid, re_value = take m rest', re_type = val ! 0\<rparr>)))"

text \<open>The rest of \<^verbatim>\<open>get_next_rdn\<close>: one attribute, an OID and a value, off the front.\<close>

definition take_attribute :: "chunk \<Rightarrow> chunk \<Rightarrow> (string, chunk \<times> chunk \<times> rdn_entry \<times> bool) outcome" where
  "take_attribute rdn attribute =
     (case attribute of
        [] \<Rightarrow> Abort Out_of_bounds
      | t # _ \<Rightarrow>
          if t \<noteq> ASN1_SEQUENCE then Err ''attributeTypeAndValue is not a SEQUENCE''
          else (case asn1_length attribute of
              (rest, None) \<Rightarrow> Err ''Invalid attribute body length''
            | (rest, Some n) \<Rightarrow>
                if n < 1 then Err ''Invalid attribute body length''
                else bind_outcome (parse_body (take n rest)) (\<lambda>e.
                  let attribute' = drop n rest
                  in Ok (rdn, attribute', e, rdn \<noteq> [] \<or> attribute' \<noteq> []))))"

definition get_next_rdn :: "chunk \<Rightarrow> chunk \<Rightarrow> (string, chunk \<times> chunk \<times> rdn_entry \<times> bool) outcome" where
  "get_next_rdn rdn attribute =
     bind_outcome (next_attribute rdn attribute) (\<lambda>(rdn, attribute). take_attribute rdn attribute)"

lemma asn1_length_rest: "asn1_length blob = (rest, Some n) \<Longrightarrow> length rest + 2 \<le> length blob \<and> n \<le> length rest"
  by (auto simp: asn1_length_def Let_def split: if_splits)

lemma next_attribute_shrinks:
  "next_attribute rdn attribute = Ok (rdn', attribute') \<Longrightarrow>
    length rdn' + length attribute' \<le> length rdn + length attribute \<and> attribute' \<noteq> []"
  by (auto simp: next_attribute_def dest!: asn1_length_rest split: if_splits list.splits prod.splits option.splits)

lemma get_next_rdn_shrinks:
  assumes "get_next_rdn rdn attribute = Ok (rdn', attribute', e, nxt)"
  shows "length rdn' + length attribute' < length rdn + length attribute"
proof -
  obtain r a where n: "next_attribute rdn attribute = Ok (r, a)"
    using assms by (auto simp: get_next_rdn_def bind_outcome_Ok_iff)
  obtain t ts where a: "a = t # ts" using next_attribute_shrinks [OF n] by (cases a) auto
  have "length rdn' + length attribute' < length r + length a"
    using assms unfolding get_next_rdn_def n
    by (auto simp: a take_attribute_def bind_outcome_Ok_iff Let_def dest!: asn1_length_rest split: if_splits prod.splits option.splits)
  with next_attribute_shrinks [OF n] show ?thesis by linarith
qed

text \<open>
  All entries of a name from a cursor on: the loop \<^verbatim>\<open>while (next) get_next_rdn(...)\<close> that
  \<^verbatim>\<open>dn_parse\<close> and \<^verbatim>\<open>dn_count_wildcards\<close> share.
\<close>

function rdn_entries :: "chunk \<Rightarrow> chunk \<Rightarrow> bool \<Rightarrow> (string, rdn_entry list) outcome" where
  "rdn_entries rdn attribute nxt =
     (if \<not> nxt then Ok []
      else case get_next_rdn rdn attribute of
        Ok (rdn', attribute', e, nxt') \<Rightarrow>
          bind_outcome (rdn_entries rdn' attribute' nxt') (\<lambda>es. Ok (e # es))
      | Err x \<Rightarrow> Err x
      | Abort f \<Rightarrow> Abort f)"
  by auto

termination
  by (relation "measure (\<lambda>(rdn, attribute, nxt). length rdn + length attribute)")
    (auto dest: get_next_rdn_shrinks)

declare rdn_entries.simps [simp del]

definition dn_entries :: "chunk \<Rightarrow> (string, rdn_entry list) outcome" where
  "dn_entries dn = bind_outcome (init_rdn dn) (\<lambda>(rdn, nxt). rdn_entries rdn [] nxt)"

definition wild_value :: "chunk \<Rightarrow> bool" where
  "wild_value v \<longleftrightarrow> v = [0x2A]"

definition dn_count_wildcards :: "chunk \<Rightarrow> fault + int" where
  "dn_count_wildcards dn =
     (case dn_entries dn of
        Ok es \<Rightarrow> Inr (int (length (filter (\<lambda>e. wild_value (re_value e)) es)))
      | Err _ \<Rightarrow> Inr (- 1)
      | Abort f \<Rightarrow> Inl f)"

section \<open>Comparison\<close>

text \<open>
  \<^verbatim>\<open>strncmp\<close> and \<^verbatim>\<open>strncasecmp\<close> on two values of one length: like every string function they
  stop at a NUL octet.
\<close>

definition tolower_octet :: "byte \<Rightarrow> byte" where
  "tolower_octet c = (if 65 \<le> c \<and> c \<le> 90 then c + 32 else c)"

fun strneq_octets :: "chunk \<Rightarrow> chunk \<Rightarrow> bool" where
  "strneq_octets (x # xs) (y # ys) = (x = y \<and> (x = 0 \<or> strneq_octets xs ys))"
| "strneq_octets _ _ = True"

fun strncaseeq_octets :: "chunk \<Rightarrow> chunk \<Rightarrow> bool" where
  "strncaseeq_octets (x # xs) (y # ys) =
     (tolower_octet x = tolower_octet y \<and> (x = 0 \<or> strncaseeq_octets xs ys))"
| "strncaseeq_octets _ _ = True"

definition oid_code :: "chunk \<Rightarrow> fault + int" where
  "oid_code oid = (case known_oid oid of None \<Rightarrow> Inl Endless | Some r \<Rightarrow> r)"

definition same_value :: "rdn_entry \<Rightarrow> rdn_entry \<Rightarrow> fault + bool" where
  "same_value a b =
     (let nocase = strncaseeq_octets (re_value a) (re_value b); exact = strneq_octets (re_value a) (re_value b) in
      if length (re_value a) \<noteq> length (re_value b) then Inr False
      else if re_type a = re_type b \<and> re_type a = ASN1_PRINTABLESTRING then Inr nocase
      else if re_type a = re_type b \<and> re_type a = ASN1_IA5STRING then
        map_sum id (\<lambda>n. if n = OID_PKCS9_EMAIL then nocase else exact) (oid_code (re_oid a))
      else Inr exact)"

text \<open>
  The loop of \<^verbatim>\<open>match_dn\<close>. \<open>wild\<close> is the counter that \<^verbatim>\<open>wildcards\<close> points to, \<open>None\<close> a null
  pointer. A parse error is the answer \<^verbatim>\<open>FALSE\<close>.
\<close>

function match_rdns ::
  "chunk \<Rightarrow> chunk \<Rightarrow> bool \<Rightarrow> chunk \<Rightarrow> chunk \<Rightarrow> bool \<Rightarrow> nat option \<Rightarrow> fault + bool \<times> nat option" where
  "match_rdns ra aa na rb ab nb wild =
     (if \<not> (na \<and> nb) then Inr (\<not> (na \<or> nb), wild)
      else case get_next_rdn ra aa of
        Abort f \<Rightarrow> Inl f
      | Err _ \<Rightarrow> Inr (False, wild)
      | Ok (ra', aa', ea, na') \<Rightarrow>
          (case get_next_rdn rb ab of
             Abort f \<Rightarrow> Inl f
           | Err _ \<Rightarrow> Inr (False, wild)
           | Ok (rb', ab', eb, nb') \<Rightarrow>
               if re_oid ea \<noteq> re_oid eb then Inr (False, wild)
               else if wild \<noteq> None \<and> wild_value (re_value eb)
                 then match_rdns ra' aa' na' rb' ab' nb' (map_option Suc wild)
               else (case same_value ea eb of
                   Inl f \<Rightarrow> Inl f
                 | Inr False \<Rightarrow> Inr (False, wild)
                 | Inr True \<Rightarrow> match_rdns ra' aa' na' rb' ab' nb' wild)))"
  by auto

termination
  by (relation "measure (\<lambda>(ra, aa, na, rb, ab, nb, wild). length ra + length aa)")
    (auto dest: get_next_rdn_shrinks)

declare match_rdns.simps [simp del]

text \<open>\<^verbatim>\<open>count\<close> tells whether a counter is passed; the result has its final value.\<close>

definition match_dn :: "chunk \<Rightarrow> chunk \<Rightarrow> bool \<Rightarrow> fault + bool \<times> nat option" where
  "match_dn a b count =
     (if \<not> count \<and> length a \<noteq> length b then Inr (False, None)
      else if \<not> count \<and> a = b then Inr (True, None)
      else
        let wild = (if count then Some 0 else None) in
        case init_rdn a of
          Abort f \<Rightarrow> Inl f
        | Err _ \<Rightarrow> Inr (False, wild)
        | Ok (ra, na) \<Rightarrow>
            (case init_rdn b of
               Abort f \<Rightarrow> Inl f
             | Err _ \<Rightarrow> Inr (False, wild)
             | Ok (rb, nb) \<Rightarrow> match_rdns ra [] na rb [] nb wild))"

definition same_dn :: "chunk \<Rightarrow> chunk \<Rightarrow> fault + bool" where
  "same_dn a b = map_sum id fst (match_dn a b False)"

section \<open>Printing\<close>

text \<open>
  \<^verbatim>\<open>format_chunk\<close>: the text in the buffer, \<open>None\<close> as long as nothing was written to it, and the room
  left, which counts the NUL that \<^verbatim>\<open>vsnprintf\<close> writes. Once the room is used up nothing is written any
  more.
\<close>

type_synonym dst_text = "string option \<times> nat"

definition format_chunk :: "dst_text \<Rightarrow> string \<Rightarrow> dst_text" where
  "format_chunk = (\<lambda>(w, room) s.
     if room > 0 then
       (Some ((case w of None \<Rightarrow> [] | Some t \<Rightarrow> t) @ take (room - 1) s),
        if length s > room then 0 else room - length s)
     else (w, room))"

definition hex_digit :: "nat \<Rightarrow> char" where
  "hex_digit d = (if d < 10 then char_of (48 + d) else char_of (55 + d))"

definition hex2 :: "byte \<Rightarrow> string" where
  "hex2 b = [hex_digit (unat b div 16), hex_digit (unat b mod 16)]"

definition hex_str :: "chunk \<Rightarrow> dst_text \<Rightarrow> dst_text" where
  "hex_str bin str = foldl (\<lambda>st b. format_chunk st (hex2 b)) (format_chunk str ''0x'') bin"

text \<open>\<^verbatim>\<open>%.*s\<close> prints up to a NUL octet.\<close>

definition print_chars :: "chunk \<Rightarrow> string" where
  "print_chars v = map (\<lambda>b. char_of (unat b)) (takeWhile (\<lambda>b. b \<noteq> 0) v)"

definition print_entry :: "rdn_entry \<Rightarrow> dst_text \<Rightarrow> (string, dst_text) outcome" where
  "print_entry e str =
     lift_fault (oid_code (re_oid e)) (\<lambda>code.
       if code = - 1 then Ok (format_chunk (hex_str (re_oid e) str) (CHR ''='' # print_chars (re_value e)))
       else if 0 \<le> code \<and> code < int (length oid_names) then
         Ok (format_chunk (format_chunk str (snd (snd (snd (oid_names ! nat code))))) (CHR ''='' # print_chars (re_value e)))
       else Abort Out_of_bounds)"

function dn_print ::
  "chunk \<Rightarrow> chunk \<Rightarrow> bool \<Rightarrow> bool \<Rightarrow> dst_text \<Rightarrow> (string, dst_text) outcome" where
  "dn_print rdn attribute nxt fst_entry str =
     (if \<not> nxt then Ok str
      else case get_next_rdn rdn attribute of
        Ok (rdn', attribute', e, nxt') \<Rightarrow>
          (case print_entry e (if fst_entry then str else format_chunk str '', '') of
             Ok str' \<Rightarrow> dn_print rdn' attribute' nxt' False str'
           | Err x \<Rightarrow> Err x
           | Abort f \<Rightarrow> Abort f)
      | Err x \<Rightarrow> Err x
      | Abort f \<Rightarrow> Abort f)"
  by auto

termination
  by (relation "measure (\<lambda>(rdn, attribute, nxt, fst_entry, str). length rdn + length attribute)")
    (auto dest: get_next_rdn_shrinks)

declare dn_print.simps [simp del]

text \<open>\<open>None\<close> is a chunk with a null pointer.\<close>

definition dn_parse :: "chunk option \<Rightarrow> dst_text \<Rightarrow> (string, dst_text) outcome" where
  "dn_parse dn str =
     (case dn of
        None \<Rightarrow> Ok (format_chunk str ''(empty)'')
      | Some c \<Rightarrow> bind_outcome (init_rdn c) (\<lambda>(rdn, nxt). dn_print rdn [] nxt True str))"

text \<open>The buffer and the number of octets used. Nothing is written for a name without an RDN.\<close>

definition dntoa :: "nat \<Rightarrow> chunk option \<Rightarrow> fault + dst_text" where
  "dntoa dstlen dn =
     (case dn_parse dn (None, dstlen) of
        Abort f \<Rightarrow> Inl f
      | Ok (w, room) \<Rightarrow> Inr (w, dstlen - room)
      | Err _ \<Rightarrow>
          (case hex_str (case dn of None \<Rightarrow> [] | Some c \<Rightarrow> c) (None, dstlen) of
             (w, room) \<Rightarrow> Inr (w, dstlen - room)))"

text \<open>\<^verbatim>\<open>snprintf\<close> returns the length of the whole text, whatever the buffer holds of it.\<close>

definition dntoa_or_null :: "nat \<Rightarrow> chunk option \<Rightarrow> string \<Rightarrow> fault + dst_text" where
  "dntoa_or_null dstlen dn null_dn =
     (if dn = None then Inr (if dstlen > 0 then Some (take (dstlen - 1) null_dn) else None, length null_dn)
      else dntoa dstlen dn)"

section \<open>From text to DER\<close>

text \<open>The keywords with their OIDs and string types.\<close>

definition x501rdns :: "(string \<times> chunk \<times> byte) list" where
  "x501rdns =
     [(''ND'', [0x02, 0x82, 0x06, 0x01, 0x0A, 0x07, 0x14], ASN1_PRINTABLESTRING),
      (''UID'', [0x09, 0x92, 0x26, 0x89, 0x93, 0xF2, 0x2C, 0x64, 0x01, 0x01], ASN1_PRINTABLESTRING),
      (''DC'', [0x09, 0x92, 0x26, 0x89, 0x93, 0xF2, 0x2C, 0x64, 0x01, 0x19], ASN1_PRINTABLESTRING),
      (''CN'', [0x55, 0x04, 0x03], ASN1_PRINTABLESTRING),
      (''S'', [0x55, 0x04, 0x04], ASN1_PRINTABLESTRING),
      (''SN'', [0x55, 0x04, 0x05], ASN1_PRINTABLESTRING),
      (''serialNumber'', [0x55, 0x04, 0x05], ASN1_PRINTABLESTRING),
      (''C'', [0x55, 0x04, 0x06], ASN1_PRINTABLESTRING),
      (''L'', [0x55, 0x04, 0x07], ASN1_PRINTABLESTRING),
      (''ST'', [0x55, 0x04, 0x08], ASN1_PRINTABLESTRING),
      (''O'', [0x55, 0x04, 0x0A], ASN1_PRINTABLESTRING),
      (''OU'', [0x55, 0x04, 0x0B], ASN1_PRINTABLESTRING),
      (''T'', [0x55, 0x04, 0x0C], ASN1_PRINTABLESTRING),
      (''D'', [0x55, 0x04, 0x0D], ASN1_PRINTABLESTRING),
      (''N'', [0x55, 0x04, 0x29], ASN1_PRINTABLESTRING),
      (''G'', [0x55, 0x04, 0x2A], ASN1_PRINTABLESTRING),
      (''I'', [0x55, 0x04, 0x2B], ASN1_PRINTABLESTRING),
      (''ID'', [0x55, 0x04, 0x2D], ASN1_PRINTABLESTRING),
      (''E'', [0x2A, 0x86, 0x48, 0x86, 0xF7, 0x0D, 0x01, 0x09, 0x01], ASN1_IA5STRING),
      (''Email'', [0x2A, 0x86, 0x48, 0x86, 0xF7, 0x0D, 0x01, 0x09, 0x01], ASN1_IA5STRING),
      (''emailAddress'', [0x2A, 0x86, 0x48, 0x86, 0xF7, 0x0D, 0x01, 0x09, 0x01], ASN1_IA5STRING),
      (''UN'', [0x2A, 0x86, 0x48, 0x86, 0xF7, 0x0D, 0x01, 0x09, 0x02], ASN1_IA5STRING),
      (''unstructuredName'', [0x2A, 0x86, 0x48, 0x86, 0xF7, 0x0D, 0x01, 0x09, 0x02], ASN1_IA5STRING),
      (''TCGID'', [0x2B, 0x06, 0x01, 0x04, 0x01, 0x89, 0x31, 0x01, 0x01, 0x02, 0x02, 0x4B],
         ASN1_PRINTABLESTRING)]"

text \<open>\<^verbatim>\<open>escape_char\<close> drops the second of the first two adjacent occurrences of \<open>esc\<close>.\<close>

fun escape_char :: "string \<Rightarrow> char \<Rightarrow> string" where
  "escape_char (x # y # rest) esc =
     (if x = esc \<and> y = esc then x # rest else x # escape_char (y # rest) esc)"
| "escape_char str esc = str"

definition find_rdn_name :: "string \<Rightarrow> (string \<times> chunk \<times> byte) option" where
  "find_rdn_name nm =
     find (\<lambda>(k, oid, type). length k = length nm \<and> strncaseeq k nm (length nm)) x501rdns"

text \<open>The octets one RDN is encoded to.\<close>

definition encode_body :: "chunk \<times> byte \<Rightarrow> chunk \<Rightarrow> chunk" where
  "encode_body = (\<lambda>(oid, type) name.
     ASN1_OID # code_asn1_length (length oid) @ oid @
     (if type = ASN1_PRINTABLESTRING \<and> \<not> is_printablestring name then ASN1_T61STRING else type) #
     code_asn1_length (length name) @ name)"

definition encode_rdn :: "chunk \<times> byte \<Rightarrow> chunk \<Rightarrow> chunk" where
  "encode_rdn ot name =
     (let body = encode_body ot name;
          seq = ASN1_SEQUENCE # code_asn1_length (length body) @ body
      in ASN1_SET # code_asn1_length (length seq) @ seq)"

datatype atodn_state = Search_oid | Read_oid | Search_name | Read_name | Unknown_oid

record atodn_vars =
  av_state :: atodn_state
  av_oid :: string
  av_rdn :: "chunk \<times> byte"
  av_name :: string
  av_whitespace :: nat
  av_out :: chunk
  av_ugh :: "string option"

definition IDTOA_BUF :: nat where "IDTOA_BUF = 512"
definition ASN1_MAX_LEN_LEN :: nat where "ASN1_MAX_LEN_LEN = 4"

text \<open>The end of a name: encode the RDN if it fits into the buffer.\<close>

definition finish_name :: "atodn_vars \<Rightarrow> atodn_vars" where
  "finish_name v =
     (let name = ascii (take (length (av_name v) - av_whitespace v) (av_name v));
          r = encode_rdn (av_rdn v) name in
      if IDTOA_BUF < 1 + ASN1_MAX_LEN_LEN + length (av_out v) + length r
      then v\<lparr>av_name := take (length (av_name v) - av_whitespace v) (av_name v),
             av_ugh := Some ''DN is too big'', av_state := Unknown_oid\<rparr>
      else v\<lparr>av_out := av_out v @ r, av_name := [], av_state := Search_oid\<rparr>)"

text \<open>
  One character of the state machine. The result has the rest of the source, which
  \<^verbatim>\<open>escape_char\<close> may have changed; \<open>nul\<close> is the terminator.
\<close>

definition nul :: char where "nul = CHR 0x00"

definition atodn_step :: "atodn_vars \<Rightarrow> char \<Rightarrow> string \<Rightarrow> atodn_vars \<times> string" where
  "atodn_step v c rest =
     (case av_state v of
        Search_oid \<Rightarrow>
          (if c \<noteq> CHR '' '' \<and> c \<noteq> CHR ''/'' \<and> c \<noteq> CHR '',''
           then v\<lparr>av_oid := [c], av_state := Read_oid\<rparr> else v, rest)
      | Read_oid \<Rightarrow>
          (if c \<noteq> CHR '' '' \<and> c \<noteq> CHR ''='' then v\<lparr>av_oid := av_oid v @ [c]\<rparr>
           else (case find_rdn_name (av_oid v) of
               None \<Rightarrow> v\<lparr>av_ugh := Some ''unknown OID in ID_DER_ASN1_DN'', av_state := Unknown_oid\<rparr>
             | Some (k, ot) \<Rightarrow> v\<lparr>av_oid := [], av_rdn := ot, av_state := Search_name\<rparr>), rest)
      | Search_name \<Rightarrow>
          (if c \<noteq> CHR '' '' \<and> c \<noteq> CHR ''=''
           then v\<lparr>av_name := [c], av_whitespace := 0, av_state := Read_name\<rparr> else v, rest)
      | Read_name \<Rightarrow>
          if c \<noteq> CHR '','' \<and> c \<noteq> CHR ''/'' \<and> c \<noteq> nul then
            (v\<lparr>av_name := av_name v @ [c],
               av_whitespace := (if c = CHR '' '' then av_whitespace v + 1 else 0)\<rparr>, rest)
          else if (c = CHR '','' \<or> c = CHR ''/'') \<and> take 1 rest = [c] then
            (v\<lparr>av_name := av_name v @ [c]\<rparr>, tl (escape_char (c # rest) c))
          else (finish_name v, rest)
      | Unknown_oid \<Rightarrow> (v, rest))"

lemma length_escape_char: "length (escape_char s e) \<le> length s"
  by (induction s e rule: escape_char.induct) auto

lemma atodn_step_rest: "atodn_step v c rest = (v', rest') \<Longrightarrow> length rest' \<le> length rest"
  using length_escape_char [of "c # rest" c]
  by (auto simp: atodn_step_def split: atodn_state.splits if_splits)

function atodn_loop :: "atodn_vars \<Rightarrow> string \<Rightarrow> atodn_vars" where
  "atodn_loop v [] = v"
| "atodn_loop v (c # rest) =
     (case atodn_step v c rest of (v', rest') \<Rightarrow> if c = nul then v' else atodn_loop v' rest')"
  by pat_completeness auto

termination
  by (relation "measure (\<lambda>(v, s). length s)") (auto simp: less_Suc_eq_le atodn_step_rest split: prod.split)

definition atodn_init :: atodn_vars where
  "atodn_init = \<lparr>av_state = Search_oid, av_oid = [], av_rdn = ([], 0), av_name = [], av_whitespace = 0,
     av_out = [], av_ugh = None\<rparr>"

definition atodn :: "string \<Rightarrow> string option \<times> chunk" where
  "atodn src =
     (let v = atodn_loop atodn_init (src @ [nul])
      in (av_ugh v, ASN1_SEQUENCE # code_asn1_length (length (av_out v)) @ av_out v))"

end
