(* ===== verification/Identity.thy ===== *)
theory Identity
  imports Addresses DistinguishedNames
begin

text \<open>
  Identities: \<^verbatim>\<open>struct id\<close> (\<^verbatim>\<open>include/id.h\<close>), the comparisons of \<^verbatim>\<open>lib/libswan/id.c\<close>, the
  resolution of \<^verbatim>\<open>%myid\<close> (\<^verbatim>\<open>programs/pluto/myid.c\<close>) and the two functions that make an identity
  safe for the shell. The unordered comparison of names goes through the NSS library: a
  record \<open>nss\<close> of the four functions it calls is a parameter.
\<close>

section \<open>Identities\<close>

definition ID_FROMCERT :: int where "ID_FROMCERT = - 3"
definition ID_IMPOSSIBLE :: int where "ID_IMPOSSIBLE = - 2"
definition ID_MYID :: int where "ID_MYID = - 1"
definition ID_NONE :: int where "ID_NONE = 0"
definition ID_IPV4_ADDR :: int where "ID_IPV4_ADDR = 1"
definition ID_FQDN :: int where "ID_FQDN = 2"
definition ID_USER_FQDN :: int where "ID_USER_FQDN = 3"
definition ID_IPV6_ADDR :: int where "ID_IPV6_ADDR = 5"
definition ID_DER_ASN1_DN :: int where "ID_DER_ASN1_DN = 9"
definition ID_KEY_ID :: int where "ID_KEY_ID = 11"
definition ID_NULL :: int where "ID_NULL = 13"

lemmas id_kinds = ID_FROMCERT_def ID_IMPOSSIBLE_def ID_MYID_def ID_NONE_def ID_IPV4_ADDR_def
  ID_FQDN_def ID_USER_FQDN_def ID_IPV6_ADDR_def ID_DER_ASN1_DN_def ID_KEY_ID_def ID_NULL_def

record ident =
  kind :: int
  ip_addr :: ip_address
  id_name :: chunk

definition empty_id :: ident where
  "empty_id = \<lparr>kind = ID_NONE, ip_addr = \<lparr>sin_family = AF_UNSPEC, sin_bytes = [], sin_port = 0\<rparr>, id_name = []\<rparr>"

text \<open>
  The variables of \<^verbatim>\<open>myid.c\<close>. Only \<^verbatim>\<open>set_myid\<close> changes \<^verbatim>\<open>myid_state\<close>, to \<^verbatim>\<open>MYID_SPECIFIED\<close>.
\<close>

datatype myid_state = MYID_UNKNOWN | MYID_HOSTNAME | MYID_IP | MYID_SPECIFIED

record myid_vars =
  my_state :: myid_state
  myids :: "myid_state \<Rightarrow> ident"

definition resolve_myid :: "myid_vars \<Rightarrow> ident \<Rightarrow> ident" where
  "resolve_myid my i = (if kind i = ID_MYID then myids my (my_state my) else i)"

definition iptoid :: "ip_address \<Rightarrow> fault + ident" where
  "iptoid ip =
     (if addrtypeof ip = AF_INET then Inr (empty_id\<lparr>kind := ID_IPV4_ADDR, ip_addr := ip\<rparr>)
      else if addrtypeof ip = AF_INET6 then Inr (empty_id\<lparr>kind := ID_IPV6_ADDR, ip_addr := ip\<rparr>)
      else Inl Bad_case)"

text \<open>The kinds whose name is owned by the identity, and those without one.\<close>

definition has_name :: "int \<Rightarrow> bool" where
  "has_name k \<longleftrightarrow> k = ID_FQDN \<or> k = ID_USER_FQDN \<or> k = ID_DER_ASN1_DN \<or> k = ID_KEY_ID"

definition no_name :: "int \<Rightarrow> bool" where
  "no_name k \<longleftrightarrow> k = ID_MYID \<or> k = ID_FROMCERT \<or> k = ID_NONE \<or> k = ID_NULL \<or>
     k = ID_IPV4_ADDR \<or> k = ID_IPV6_ADDR"

definition free_id_content :: "ident \<Rightarrow> fault + ident" where
  "free_id_content i =
     (if has_name (kind i) then Inr (i\<lparr>id_name := []\<rparr>)
      else if no_name (kind i) then Inr i else Inl Bad_case)"

text \<open>
  \<^verbatim>\<open>duplicate_id\<close> frees what the destination holds and copies the source. The names of two
  identities never share storage here, so its \<^verbatim>\<open>passert\<close> holds.
\<close>

definition duplicate_id :: "ident \<Rightarrow> ident \<Rightarrow> fault + ident" where
  "duplicate_id dst src =
     (case free_id_content dst of
        Inl f \<Rightarrow> Inl f
      | Inr dst' \<Rightarrow> Inr (dst'\<lparr>kind := kind src, ip_addr := ip_addr src, id_name := id_name src\<rparr>))"

definition any_id :: "myid_vars \<Rightarrow> ident \<Rightarrow> fault + bool" where
  "any_id my i =
     (let a = resolve_myid my i in
      if kind a = ID_NONE then Inr True
      else if kind a = ID_IPV4_ADDR \<or> kind a = ID_IPV6_ADDR then Inr (isanyaddr (ip_addr a))
      else if has_name (kind a) \<or> kind a = ID_NULL then Inr False
      else Inl Bad_case)"

section \<open>Comparison\<close>

fun strip_dots :: "chunk \<Rightarrow> chunk" where
  "strip_dots name = rev (dropWhile (\<lambda>c. c = 0x2E) (rev name))"

definition same_fqdn :: "chunk \<Rightarrow> chunk \<Rightarrow> bool" where
  "same_fqdn a b \<longleftrightarrow> length (strip_dots a) = length (strip_dots b) \<and>
     strncaseeq_octets (strip_dots a) (strip_dots b)"

definition same_id :: "myid_vars \<Rightarrow> ident \<Rightarrow> ident \<Rightarrow> fault + bool" where
  "same_id my a0 b0 =
     (let a = resolve_myid my a0; b = resolve_myid my b0 in
      if kind b = ID_NONE \<or> kind a = ID_NONE then Inr True
      else if kind a \<noteq> kind b then Inr False
      else if kind a = ID_NULL then Inr True
      else if kind a = ID_IPV4_ADDR \<or> kind a = ID_IPV6_ADDR then Inr (sameaddr (ip_addr a) (ip_addr b))
      else if kind a = ID_FQDN \<or> kind a = ID_USER_FQDN then Inr (same_fqdn (id_name a) (id_name b))
      else if kind a = ID_FROMCERT \<or> kind a = ID_DER_ASN1_DN then same_dn (id_name a) (id_name b)
      else if kind a = ID_KEY_ID then Inr (id_name a = id_name b)
      else Inl Bad_case)"

section \<open>Names in any order\<close>

record 'ava nss =
  CERT_AsciiToName :: "string \<Rightarrow> 'ava list list option"
  CERT_GetAVATag :: "'ava \<Rightarrow> int"
  CERT_DecodeAVAValue :: "'ava \<Rightarrow> chunk option"
  CERT_CompareAVA :: "'ava \<Rightarrow> 'ava \<Rightarrow> bool"

text \<open>
  The inner loop of \<^verbatim>\<open>match_rdn\<close>: the first AVA of the other RDN with the tag of \<open>ava_b\<close> that is
  matched by a wildcard or equal. The result tells whether there is one and whether it was the
  wildcard; \<open>wild\<close> says that \<^verbatim>\<open>has_wild\<close> is not null.
\<close>

fun match_ava :: "'ava nss \<Rightarrow> bool \<Rightarrow> 'ava \<Rightarrow> 'ava list \<Rightarrow> bool \<times> bool" where
  "match_ava nss wild b [] = (False, False)"
| "match_ava nss wild b (a # as) =
     (if CERT_GetAVATag nss a = CERT_GetAVATag nss b then
        (if wild \<and> CERT_DecodeAVAValue nss b = Some [0x2A] then (True, True)
         else if CERT_CompareAVA nss a b then (True, False)
         else match_ava nss wild b as)
      else match_ava nss wild b as)"

definition match_rdn :: "'ava nss \<Rightarrow> bool \<Rightarrow> 'ava list \<Rightarrow> 'ava list \<Rightarrow> bool \<times> bool" where
  "match_rdn nss wild rdn_a rdn_b =
     (let rs = map (\<lambda>b. match_ava nss wild b rdn_a) rdn_b;
          matched = length (filter fst rs) in
      (matched > 0 \<and> matched = length rdn_b, list_ex snd rs))"

fun match_one_rdn :: "'ava nss \<Rightarrow> bool \<Rightarrow> 'ava list \<Rightarrow> 'ava list list \<Rightarrow> bool \<times> bool" where
  "match_one_rdn nss wild rdn_b [] = (False, False)"
| "match_one_rdn nss wild rdn_b (rdn_a # as) =
     (case match_rdn nss wild rdn_a rdn_b of
        (True, w) \<Rightarrow> (True, w) | (False, _) \<Rightarrow> match_one_rdn nss wild rdn_b as)"

definition ASN1_BUF_LEN :: nat where "ASN1_BUF_LEN = 512"

text \<open>
  \<open>wild\<close> is the counter before the call, \<open>None\<close> a null pointer. The two buffers are local arrays that
  only \<^verbatim>\<open>dntoa\<close> writes to; the library reads them up to a NUL.
\<close>

definition match_dn_unordered ::
  "'ava nss \<Rightarrow> chunk \<Rightarrow> chunk \<Rightarrow> nat option \<Rightarrow> fault + bool \<times> nat option" where
  "match_dn_unordered nss a b wild =
     (case dntoa ASN1_BUF_LEN (Some a) of
        Inl f \<Rightarrow> Inl f
      | Inr (abuf, _) \<Rightarrow>
     (case dntoa ASN1_BUF_LEN (Some b) of
        Inl f \<Rightarrow> Inl f
      | Inr (bbuf, _) \<Rightarrow>
     (case (abuf, bbuf) of
        (Some ta, Some tb) \<Rightarrow>
          (case (CERT_AsciiToName nss ta, CERT_AsciiToName nss tb) of
             (Some as, Some bs) \<Rightarrow>
               let rs = map (\<lambda>rdn_b. match_one_rdn nss (wild \<noteq> None) rdn_b as) bs;
                   matched = length (filter fst rs);
                   n = length (filter (\<lambda>(m, w). m \<and> w) rs)
               in Inr (matched > 0 \<and> length bs > 0 \<and> matched = length bs, map_option (\<lambda>k. k + n) wild)
           | _ \<Rightarrow> Inr (False, wild))
      | _ \<Rightarrow> Inl Uninitialised)))"

definition same_dn_any_order :: "'ava nss \<Rightarrow> chunk \<Rightarrow> chunk \<Rightarrow> fault + bool" where
  "same_dn_any_order nss a b =
     (case match_dn a b False of
        Inl f \<Rightarrow> Inl f
      | Inr (True, _) \<Rightarrow> Inr True
      | Inr (False, _) \<Rightarrow> map_sum id fst (match_dn_unordered nss a b None))"

definition match_dn_any_order_wild :: "'ava nss \<Rightarrow> chunk \<Rightarrow> chunk \<Rightarrow> fault + bool \<times> nat option" where
  "match_dn_any_order_wild nss a b =
     (case match_dn a b True of
        Inl f \<Rightarrow> Inl f
      | Inr (True, w) \<Rightarrow> Inr (True, w)
      | Inr (False, _) \<Rightarrow> match_dn_unordered nss a b (Some 0))"

definition MAX_WILDCARDS :: nat where "MAX_WILDCARDS = 15"

definition match_id :: "'ava nss \<Rightarrow> myid_vars \<Rightarrow> ident \<Rightarrow> ident \<Rightarrow> fault + bool \<times> nat" where
  "match_id nss my a b =
     (if kind b = ID_NONE then Inr (True, MAX_WILDCARDS)
      else if kind a \<noteq> kind b then Inr (False, 0)
      else if kind a = ID_DER_ASN1_DN then
        map_sum id (\<lambda>(m, w). (m, case w of None \<Rightarrow> 0 | Some n \<Rightarrow> n))
          (match_dn_any_order_wild nss (id_name a) (id_name b))
      else map_sum id (\<lambda>m. (m, 0)) (same_id my a b))"

definition id_count_wildcards :: "ident \<Rightarrow> fault + int" where
  "id_count_wildcards i =
     (if kind i = ID_NONE then Inr (int MAX_WILDCARDS)
      else if kind i = ID_DER_ASN1_DN then dn_count_wildcards (id_name i)
      else Inr 0)"

section \<open>Text for the shell\<close>

text \<open>The digits of \<^verbatim>\<open>%o\<close> for a character code: at most three.\<close>

definition octal :: "nat \<Rightarrow> string" where
  "octal n =
     (let d = (\<lambda>k. char_of (48 + k :: nat)) in
      if n < 8 then [d n]
      else if n < 64 then [d (n div 8), d (n mod 8)]
      else [d (n div 64), d (n div 8 mod 8), d (n mod 8)])"

definition is_metachar :: "char \<Rightarrow> bool" where
  "is_metachar c \<longleftrightarrow> c = CHR 0x27 \<or> c = CHR 0x5C \<or> c = CHR 0x22 \<or> c = CHR 0x60 \<or> c = CHR ''$''"

definition metachar_escape :: "char \<Rightarrow> string" where
  "metachar_escape c = CHR 0x5C # ''03'' @ octal (of_char c)"

fun escape_metachar :: "string \<Rightarrow> nat \<Rightarrow> (unit, string) outcome" where
  "escape_metachar [] dstlen = (if 1 \<le> dstlen then Ok [] else Abort Passert)"
| "escape_metachar (c # src) dstlen =
     (if dstlen > 5 then
        (if is_metachar c then
           (let e = metachar_escape c; n = length e in
            if \<not> n < dstlen then Abort Passert
            else bind_outcome (escape_metachar src (dstlen - n)) (\<lambda>s. Ok (e @ s)))
         else bind_outcome (escape_metachar src (dstlen - 1)) (\<lambda>s. Ok (c # s)))
      else if 1 \<le> dstlen then Ok [] else Abort Passert)"

definition is_plainchar :: "char \<Rightarrow> bool" where
  "is_plainchar c \<longleftrightarrow> (let n = of_char c :: nat in
     48 \<le> n \<and> n \<le> 57 \<or> 97 \<le> n \<and> n \<le> 122 \<or> 65 \<le> n \<and> n \<le> 90 \<or>
     c = CHR ''_'' \<or> c = CHR ''-'' \<or> c = CHR ''.'')"

fun remove_chars :: "string \<Rightarrow> nat \<Rightarrow> string" where
  "remove_chars [] dstlen = []"
| "remove_chars (c # src) dstlen =
     (if dstlen > 1 then
        (if is_plainchar c then c # remove_chars src (dstlen - 1) else remove_chars src dstlen)
      else [])"

definition remove_metachar :: "string \<Rightarrow> nat \<Rightarrow> (unit, string) outcome" where
  "remove_metachar src dstlen = (if dstlen \<ge> 1 then Ok (remove_chars src dstlen) else Abort Passert)"

end
