(* ===== verification/DnProps.thy ===== *)
theory DnProps
  imports DistinguishedNames
begin

text \<open>
  Properties of the ASN.1 helpers and of distinguished names.
\<close>

section \<open>Lengths\<close>

lemma of_nat_byte: "n < 256 \<Longrightarrow> unat (of_nat n :: byte) = n"
  by (simp add: unat_of_nat take_bit_eq_mod)

lemma byte_and_128: "n < 128 \<Longrightarrow> (of_nat n :: byte) AND 0x80 = 0"
proof -
  assume n: "n < 128"
  have "\<not> bit (of_nat n :: byte) 7"
  proof -
    have "bit (of_nat n :: byte) 7 \<longleftrightarrow> bit n 7" by (simp add: bit_of_nat_iff)
    moreover have "n div 2 ^ 7 = 0" using n by simp
    ultimately show ?thesis by (simp add: bit_iff_odd)
  qed
  then show ?thesis by (simp add: and_exp_eq_0_iff_not_bit [of _ 7, simplified])
qed

lemma length_code_asn1_length: "length (code_asn1_length n) =
    (if n < 128 then 1 else if n < 256 then 2 else if n < 65536 then 3 else 4)"
  by (simp add: code_asn1_length_def)

lemma asn1_length_code:
  assumes "n < 2 ^ 24" "n \<le> length rest"
  shows "asn1_length (t # code_asn1_length n @ rest) = (rest, Some n)"
proof -
  consider "n < 128" | "128 \<le> n" "n < 256" | "256 \<le> n" "n < 65536" | "65536 \<le> n" by linarith
  then show ?thesis
  proof cases
    case 1
    then show ?thesis using assms
      by (simp add: asn1_length_def code_asn1_length_def byte_and_128 of_nat_byte)
  next
    case 2
    then show ?thesis using assms
      by (simp add: asn1_length_def code_asn1_length_def of_nat_byte)
  next
    case 3
    then have "n div 256 * 256 + n mod 256 = n" "n div 256 < 256" by simp_all
    with 3 show ?thesis using assms
      by (simp add: asn1_length_def code_asn1_length_def of_nat_byte)
  next
    case 4
    have "n div 65536 * 65536 + n div 256 mod 256 * 256 + n mod 256 = n"
    proof -
      have "n div 65536 * 256 + n div 256 mod 256 = n div 256"
        using div_mult_mod_eq [of "n div 256" 256] by (simp add: div_mult2_eq [symmetric])
      then show ?thesis using div_mult_mod_eq [of n 256] by linarith
    qed
    moreover have "n div 65536 < 256" using assms(1) by simp
    ultimately show ?thesis using 4 assms
      by (simp add: asn1_length_def code_asn1_length_def of_nat_byte)
  qed
qed

section \<open>The table of object identifiers\<close>

fun oids_ok :: "nat \<Rightarrow> nat \<Rightarrow> oid_t list \<Rightarrow> bool" where
  "oids_ok n i [] = True"
| "oids_ok n i ((octet, down, nxt, name) # es) =
     ((nxt \<noteq> 0 \<longrightarrow> i < nxt \<and> nxt < n) \<and> (down \<longrightarrow> Suc i < n) \<and> oids_ok n (Suc i) es)"

lemma oids_ok_nth:
  "oids_ok n i es \<Longrightarrow> k < length es \<Longrightarrow> es ! k = (octet, down, nxt, name) \<Longrightarrow>
    (nxt \<noteq> 0 \<longrightarrow> i + k < nxt \<and> nxt < n) \<and> (down \<longrightarrow> Suc (i + k) < n)"
proof (induction n i es arbitrary: k rule: oids_ok.induct)
  case (2 n i o' d' n' nm' es)
  then show ?case by (cases k) auto
qed simp

lemma oid_names_length: "length oid_names = 151"
  by (simp add: oid_names_def)

lemma oid_names_ok: "oids_ok 151 0 oid_names"
  by (simp add: oid_names_def)

lemma known_oid_loop_total:
  assumes ok: "oids_ok (length names) 0 names"
  shows "i < length names \<Longrightarrow> \<exists>n. known_oid_loop names i object = Some (Inr n) \<and>
    (n = - 1 \<or> 0 \<le> n \<and> n < int (length names))"
proof (induction object arbitrary: i)
  case Nil
  then show ?case by (simp add: known_oid_loop.simps)
next
  case (Cons c rest)
  from Cons.prems show ?case
  proof (induction "length names - i" arbitrary: i rule: less_induct)
    case less
    obtain octet down nxt name where e: "names ! i = (octet, down, nxt, name)" by (metis prod_cases4)
    note w = oids_ok_nth [OF ok less.prems e]
    show ?case
    proof (cases "octet = c")
      case True
      then show ?thesis using e less.prems w Cons.IH [of "i + 1"]
        by (subst known_oid_loop.simps) auto
    next
      case False
      show ?thesis
      proof (cases "nxt = 0")
        case f: False
        then have "\<exists>n. known_oid_loop names nxt (c # rest) = Some (Inr n) \<and>
            (n = - 1 \<or> 0 \<le> n \<and> n < int (length names))"
          using w by (intro less.hyps) auto
        then show ?thesis using e less.prems False f by (subst known_oid_loop.simps) simp
      qed (use e less.prems False in \<open>subst known_oid_loop.simps, simp\<close>)
    qed
  qed
qed

lemma known_oid_total:
  obtains n where "known_oid object = Some (Inr n)" "n = - 1 \<or> 0 \<le> n \<and> n < 151"
  using known_oid_loop_total [of oid_names 0 object] oid_names_ok
  by (auto simp: known_oid_def oid_names_length)

lemma oid_code_total:
  obtains n where "oid_code oid = Inr n" "n = - 1 \<or> 0 \<le> n \<and> n < int (length oid_names)"
  by (rule known_oid_total [of oid]) (auto simp: oid_code_def oid_names_length)

lemma same_value_total: "\<exists>r. same_value a b = Inr r"
  by (rule oid_code_total [of "re_oid a"]) (auto simp: same_value_def Let_def)

lemma same_value_strings:
  assumes "length (re_value a) = length (re_value b)" "strneq_octets (re_value a) (re_value b)"
    "strncaseeq_octets (re_value a) (re_value b)"
  shows "same_value a b = Inr True"
  by (rule oid_code_total [of "re_oid a"]) (use assms in \<open>auto simp: same_value_def Let_def\<close>)

section \<open>The cursor stays inside the name\<close>

lemma init_rdn_safe: "dn \<noteq> [] \<Longrightarrow> yields (init_rdn dn) (\<lambda>(rdn, nxt). nxt \<longrightarrow> rdn \<noteq> [])"
  by (auto simp: init_rdn_def dest!: asn1_length_rest split: list.splits prod.splits option.splits)

lemma next_attribute_safe:
  "rdn \<noteq> [] \<or> attribute \<noteq> [] \<Longrightarrow> yields (next_attribute rdn attribute) (\<lambda>(r, a). a \<noteq> [])"
  by (auto simp: next_attribute_def dest!: asn1_length_rest split: list.splits prod.splits option.splits)

lemma parse_body_safe: "body \<noteq> [] \<Longrightarrow> safe (parse_body body)"
  by (auto simp: parse_body_def Let_def split: list.splits prod.splits option.splits)

lemma take_attribute_safe:
  assumes "attribute \<noteq> []"
  shows "yields (take_attribute rdn attribute) (\<lambda>(r, a, e, nxt). nxt \<longrightarrow> r \<noteq> [] \<or> a \<noteq> [])"
proof -
  obtain rest q where l: "asn1_length attribute = (rest, q)" by (metis surj_pair)
  show ?thesis
  proof (cases q)
    case None
    then show ?thesis using l assms by (cases attribute) (auto simp: take_attribute_def)
  next
    case (Some n)
    have "n \<le> length rest" using asn1_length_rest l Some by blast
    then have "n < 1 \<or> safe (parse_body (take n rest))" by (auto intro!: parse_body_safe)
    then show ?thesis using l Some assms
      by (cases attribute; cases "parse_body (take n rest)") (auto simp: take_attribute_def Let_def)
  qed
qed

lemma get_next_rdn_safe:
  assumes "rdn \<noteq> [] \<or> attribute \<noteq> []"
  shows "yields (get_next_rdn rdn attribute) (\<lambda>(r, a, e, nxt). nxt \<longrightarrow> r \<noteq> [] \<or> a \<noteq> [])"
  unfolding get_next_rdn_def
  by (rule yields_bind [OF next_attribute_safe [OF assms]]) (auto dest: take_attribute_safe)

lemma get_next_rdn_cases:
  assumes "rdn \<noteq> [] \<or> attribute \<noteq> []"
  obtains x where "get_next_rdn rdn attribute = Err x"
  | r a e nxt where "get_next_rdn rdn attribute = Ok (r, a, e, nxt)" "nxt \<longrightarrow> r \<noteq> [] \<or> a \<noteq> []"
  using get_next_rdn_safe [OF assms] by (cases "get_next_rdn rdn attribute") auto

lemma rdn_entries_safe: "nxt \<longrightarrow> rdn \<noteq> [] \<or> attribute \<noteq> [] \<Longrightarrow> safe (rdn_entries rdn attribute nxt)"
proof (induction rdn attribute nxt rule: rdn_entries.induct)
  case step: (1 rdn attribute nxt)
  show ?case
  proof (cases nxt)
    case True
    with step.prems have "rdn \<noteq> [] \<or> attribute \<noteq> []" by simp
    then show ?thesis
    proof (cases rule: get_next_rdn_cases)
      case (1 x)
      then show ?thesis by (subst rdn_entries.simps) simp
    next
      case (2 r a e n)
      with step True have "safe (rdn_entries r a n)" by auto
      with 2 True show ?thesis by (subst rdn_entries.simps) (auto intro!: safe_bind_outcome)
    qed
  qed (subst rdn_entries.simps, simp)
qed

lemma dn_entries_safe: "dn \<noteq> [] \<Longrightarrow> safe (dn_entries dn)"
  unfolding dn_entries_def
  by (rule yields_safe [of _ "\<lambda>_. True"], rule yields_bind [OF init_rdn_safe])
    (use rdn_entries_safe in \<open>auto simp: yields_def safe_def split: outcome.splits\<close>)

lemma match_rdns_safe:
  "(na \<longrightarrow> ra \<noteq> [] \<or> aa \<noteq> []) \<Longrightarrow> (nb \<longrightarrow> rb \<noteq> [] \<or> ab \<noteq> []) \<Longrightarrow>
    \<not> isl (match_rdns ra aa na rb ab nb wild)"
proof (induction ra aa na rb ab nb wild rule: match_rdns.induct)
  case step: (1 ra aa na rb ab nb wild)
  show ?case
  proof (cases "na \<and> nb")
    case True
    with step.prems have a: "ra \<noteq> [] \<or> aa \<noteq> []" and b: "rb \<noteq> [] \<or> ab \<noteq> []" by simp_all
    from a show ?thesis
    proof (cases rule: get_next_rdn_cases)
      case (1 x)
      then show ?thesis using True by (subst match_rdns.simps) simp
    next
      case A: (2 ra' aa' ea na')
      from b show ?thesis
      proof (cases rule: get_next_rdn_cases)
        case (1 x)
        then show ?thesis using A(1) True by (subst match_rdns.simps) simp
      next
        case B: (2 rb' ab' eb nb')
        have t: "\<not> \<not> (na \<and> nb)" using True by simp
        note ih1 = step.IH(1) [OF t A(1) refl refl refl B(1) refl refl refl]
          and ih2 = step.IH(2) [OF t A(1) refl refl refl B(1) refl refl refl]
        obtain r where "same_value ea eb = Inr r" using same_value_total by blast
        then show ?thesis using True A B ih1 ih2 by (subst match_rdns.simps) (auto split: bool.split)
      qed
    qed
  next
    case False
    then show ?thesis by (subst match_rdns.simps) auto
  qed
qed

lemma match_dn_safe:
  assumes "a \<noteq> []" "b \<noteq> []"
  shows "\<not> isl (match_dn a b count)"
proof (cases "init_rdn a")
  case A: (Ok ra)
  then have a: "snd ra \<longrightarrow> fst ra \<noteq> []" using init_rdn_safe [OF assms(1)] by (auto split: prod.splits)
  show ?thesis
  proof (cases "init_rdn b")
    case (Ok rb)
    then have "snd rb \<longrightarrow> fst rb \<noteq> []" using init_rdn_safe [OF assms(2)] by (auto split: prod.splits)
    then show ?thesis using A Ok a match_rdns_safe [of "snd ra" "fst ra" "[]" "snd rb" "fst rb" "[]"]
      by (cases ra; cases rb) (simp add: match_dn_def)
  qed (use A init_rdn_safe [OF assms(2)] in \<open>auto simp: match_dn_def\<close>)
qed (use init_rdn_safe [OF assms(1)] in \<open>auto simp: match_dn_def\<close>)

section \<open>Printing stays inside the buffer\<close>

definition text_fits :: "nat \<Rightarrow> dst_text \<Rightarrow> bool" where
  "text_fits dstlen = (\<lambda>(w, room). case w of
       None \<Rightarrow> room = dstlen
     | Some t \<Rightarrow> if room > 0 then length t + room = dstlen else length t < dstlen)"

lemma text_fits_format: "text_fits d st \<Longrightarrow> text_fits d (format_chunk st s)"
  by (auto simp: text_fits_def format_chunk_def split: prod.splits option.splits if_splits)

lemma text_fits_hex: "text_fits d st \<Longrightarrow> text_fits d (hex_str bin st)"
proof -
  assume "text_fits d st"
  then have "text_fits d (format_chunk st s)" for s by (rule text_fits_format)
  then show ?thesis unfolding hex_str_def
    by (induction bin rule: rev_induct) (auto intro: text_fits_format)
qed

text \<open>The buffer stays unwritten only as long as there is no room.\<close>

definition unwritten :: "dst_text \<Rightarrow> bool" where
  "unwritten st \<longleftrightarrow> fst st = None"

lemma unwritten_format [simp]: "unwritten (format_chunk st s) \<longleftrightarrow> unwritten st \<and> snd st = 0"
  by (auto simp: unwritten_def format_chunk_def split: prod.splits)

lemma format_no_room [simp]: "snd st = 0 \<Longrightarrow> format_chunk st s = st"
  by (auto simp: format_chunk_def split: prod.splits)

lemma unwritten_hex [simp]: "unwritten (hex_str bin st) \<longleftrightarrow> unwritten st \<and> snd st = 0"
proof -
  have "unwritten (foldl (\<lambda>st b. format_chunk st (hex2 b)) st' bin) \<longleftrightarrow> unwritten st' \<and> (bin \<noteq> [] \<longrightarrow> snd st' = 0)" for st'
    by (induction bin arbitrary: st') auto
  then show ?thesis by (auto simp: hex_str_def)
qed

lemma print_entry_fits:
  assumes "text_fits d st"
  obtains st' where "print_entry e st = Ok st'" "text_fits d st'" "unwritten st' \<longleftrightarrow> unwritten st \<and> snd st = 0"
    "snd st = 0 \<longrightarrow> snd st' = 0"
proof -
  have h: "snd st = 0 \<Longrightarrow> hex_str (re_oid e) st = st"
  proof -
    assume "snd st = 0"
    then have "foldl (\<lambda>st b. format_chunk st (hex2 b)) st bs = st" for bs by (induction bs) auto
    then show ?thesis using \<open>snd st = 0\<close> by (simp add: hex_str_def)
  qed
  obtain n where n: "oid_code (re_oid e) = Inr n" "n = - 1 \<or> 0 \<le> n \<and> n < int (length oid_names)" by (rule oid_code_total)
  define x where "x = (if n = - 1 then hex_str (re_oid e) st else format_chunk st (snd (snd (snd (oid_names ! nat n)))))"
  let ?st = "format_chunk x (CHR ''='' # print_chars (re_value e))"
  have x: "text_fits d x" "unwritten x \<longleftrightarrow> unwritten st \<and> snd st = 0" "snd st = 0 \<Longrightarrow> x = st"
    using assms h by (auto simp: x_def text_fits_format text_fits_hex)
  show thesis
  proof (rule that [of ?st])
    show "print_entry e st = Ok ?st" using n by (auto simp: print_entry_def x_def)
    show "text_fits d ?st" by (rule text_fits_format [OF x(1)])
    show "unwritten ?st \<longleftrightarrow> unwritten st \<and> snd st = 0" using x(2,3) by auto
    show "snd st = 0 \<longrightarrow> snd ?st = 0" using x(3) by simp
  qed
qed

lemma dn_print_fits:
  "nxt \<longrightarrow> rdn \<noteq> [] \<or> attribute \<noteq> [] \<Longrightarrow> text_fits d st \<Longrightarrow>
    yields (dn_print rdn attribute nxt f st)
      (\<lambda>st'. text_fits d st' \<and> (unwritten st' \<longleftrightarrow> unwritten st \<and> (\<not> nxt \<or> snd st = 0)))"
proof (induction rdn attribute nxt f st rule: dn_print.induct)
  case step: (1 rdn attribute nxt f st)
  show ?case
  proof (cases nxt)
    case True
    with step.prems have "rdn \<noteq> [] \<or> attribute \<noteq> []" by simp
    then show ?thesis
    proof (cases rule: get_next_rdn_cases)
      case (1 x)
      then show ?thesis using True by (subst dn_print.simps) simp
    next
      case (2 r a e n)
      let ?st = "if f then st else format_chunk st '', ''"
      have fit: "text_fits d ?st" using step.prems(2) by (simp add: text_fits_format)
      obtain st' where p: "print_entry e ?st = Ok st'" "text_fits d st'" "unwritten st' \<longleftrightarrow> unwritten ?st \<and> snd ?st = 0"
          "snd ?st = 0 \<longrightarrow> snd st' = 0"
        by (rule print_entry_fits [OF fit])
      have "\<not> \<not> nxt" using True by simp
      from step.IH [OF this 2(1) refl refl refl p(1)] 2(2) p(2)
      have "yields (dn_print r a n False st')
          (\<lambda>s. text_fits d s \<and> (unwritten s \<longleftrightarrow> unwritten st' \<and> (\<not> n \<or> snd st' = 0)))" by simp
      moreover have "unwritten st' \<and> (\<not> n \<or> snd st' = 0) \<longleftrightarrow> unwritten st \<and> snd st = 0"
        using p(3,4) step.prems(2) by (auto split: if_splits)
      ultimately show ?thesis using 2(1) p(1) True by (subst dn_print.simps) simp
    qed
  next
    case False
    then show ?thesis using step.prems by (subst dn_print.simps) simp
  qed
qed

lemma dn_entries_empty: "dn_entries a = Ok [] \<longleftrightarrow> (\<exists>rdn. init_rdn a = Ok (rdn, False))"
proof -
  have "rdn_entries rdn [] nxt = Ok [] \<longleftrightarrow> \<not> nxt" for rdn nxt
    by (subst rdn_entries.simps) (auto simp: bind_outcome_Ok_iff split: outcome.splits)
  then show ?thesis by (auto simp: dn_entries_def bind_outcome_Ok_iff)
qed

lemma dn_parse_fits:
  assumes "a \<noteq> []"
  shows "yields (dn_parse (Some a) (None, d)) (\<lambda>st. text_fits d st \<and> (unwritten st \<longleftrightarrow> d = 0 \<or> dn_entries a = Ok []))"
proof -
  have i: "text_fits d (None, d)" by (simp add: text_fits_def)
  have u: "unwritten (None, d)" by (simp add: unwritten_def)
  show ?thesis
  proof (cases "init_rdn a")
    case (Ok r)
    obtain rdn nxt where r: "r = (rdn, nxt)" by (cases r)
    have "nxt \<longrightarrow> rdn \<noteq> [] \<or> [] \<noteq> ([] :: chunk)" using init_rdn_safe [OF assms] Ok r by simp
    from dn_print_fits [OF this i, of True] show ?thesis
      using Ok r dn_entries_empty [of a] u by (simp add: dn_parse_def disj_commute)
  qed (use init_rdn_safe [OF assms] in \<open>simp_all add: dn_parse_def\<close>)
qed

lemma dntoa_fits:
  assumes "a \<noteq> []"
  shows "\<exists>w n. dntoa dstlen (Some a) = Inr (w, n) \<and> n \<le> dstlen \<and> (\<forall>t. w = Some t \<longrightarrow> length t < dstlen) \<and>
    (w = None \<longleftrightarrow> dstlen = 0 \<or> dn_entries a = Ok [])"
proof -
  have len: "w = Some t \<Longrightarrow> text_fits dstlen (w, room) \<Longrightarrow> length t < dstlen" for w t room
    by (auto simp: text_fits_def split: if_splits)
  show ?thesis
  proof (cases "dn_parse (Some a) (None, dstlen)")
    case (Ok r)
    then show ?thesis using dn_parse_fits [OF assms, of dstlen] len by (cases r) (auto simp: dntoa_def unwritten_def)
  next
    case (Err x)
    obtain w room where h: "hex_str a (None, dstlen) = (w, room)" by (metis surj_pair)
    have "text_fits dstlen (w, room)" using text_fits_hex [of dstlen "(None, dstlen)" a] h by (simp add: text_fits_def)
    moreover have "w = None \<longleftrightarrow> dstlen = 0" using unwritten_hex [of a "(None, dstlen)"] h by (simp add: unwritten_def)
    moreover have "dn_entries a \<noteq> Ok []"
      using Err by (auto simp: dn_entries_empty dn_parse_def dn_print.simps)
    ultimately show ?thesis using Err h len [of w _ room] by (auto simp: dntoa_def)
  next
    case (Abort f)
    then show ?thesis using dn_parse_fits [OF assms, of dstlen] by simp
  qed
qed

section \<open>Encoding and parsing\<close>

definition entry_of :: "(chunk \<times> byte) \<times> chunk \<Rightarrow> rdn_entry" where
  "entry_of = (\<lambda>((oid, type), name). \<lparr>re_oid = oid, re_value = name,
     re_type = (if type = ASN1_PRINTABLESTRING \<and> \<not> is_printablestring name then ASN1_T61STRING else type)\<rparr>)"

lemma length_code_le: "length (code_asn1_length n) \<le> 4" "0 < length (code_asn1_length n)"
  by (simp_all add: length_code_asn1_length)

lemma parse_encode_body:
  assumes "length (encode_body ot name) < 2 ^ 24"
  shows "parse_body (encode_body ot name) = Ok (entry_of (ot, name))"
proof -
  obtain oid ty where ot: "ot = (oid, ty)" by (cases ot)
  define t where "t = (if ty = ASN1_PRINTABLESTRING \<and> \<not> is_printablestring name then ASN1_T61STRING else ty)"
  let ?val = "t # code_asn1_length (length name) @ name"
  have e: "encode_body ot name = ASN1_OID # code_asn1_length (length oid) @ oid @ ?val"
    by (simp add: encode_body_def ot t_def)
  have "asn1_length (ASN1_OID # code_asn1_length (length oid) @ oid @ ?val) = (oid @ ?val, Some (length oid))"
    using assms e by (intro asn1_length_code) auto
  moreover have "asn1_length ?val = (name, Some (length name))"
    using asn1_length_code [of "length name" name t] assms e by auto
  moreover have "code_asn1_length (length name) \<noteq> []" using length_code_le(2) [of "length name"] by auto
  moreover have "entry_of (ot, name) = \<lparr>re_oid = oid, re_value = name, re_type = t\<rparr>"
    by (simp add: entry_of_def ot t_def)
  ultimately show ?thesis unfolding e by (simp add: parse_body_def Let_def)
qed

lemma get_next_encoded:
  assumes "length (encode_rdn ot name) < 2 ^ 24"
  shows "get_next_rdn (encode_rdn ot name @ rs) [] = Ok (rs, [], entry_of (ot, name), rs \<noteq> [])"
proof -
  let ?body = "encode_body ot name"
  let ?seq = "ASN1_SEQUENCE # code_asn1_length (length ?body) @ ?body"
  have r: "encode_rdn ot name = ASN1_SET # code_asn1_length (length ?seq) @ ?seq"
    by (simp add: encode_rdn_def Let_def)
  have b: "length ?body < 2 ^ 24" "length ?seq < 2 ^ 24" "?body \<noteq> []"
    using assms r by (auto simp: encode_body_def split: prod.splits)
  have "asn1_length (encode_rdn ot name @ rs) = (?seq @ rs, Some (length ?seq))"
    unfolding r using b(2) asn1_length_code [of "length ?seq" "?seq @ rs"] by simp
  then have n: "next_attribute (encode_rdn ot name @ rs) [] = Ok (rs, ?seq)"
    by (simp add: next_attribute_def r)
  have "asn1_length ?seq = (?body, Some (length ?body))"
    using b(1) by (intro asn1_length_code) auto
  then have "take_attribute rs ?seq = Ok (rs, [], entry_of (ot, name), rs \<noteq> [])"
    using b parse_encode_body [OF b(1)] by (simp add: take_attribute_def)
  then show ?thesis by (simp add: get_next_rdn_def n)
qed

abbreviation encode_dn :: "((chunk \<times> byte) \<times> chunk) list \<Rightarrow> chunk" where
  "encode_dn xs \<equiv> concat (map (\<lambda>(ot, name). encode_rdn ot name) xs)"

lemma rdn_entries_encoded:
  "length (encode_dn xs) < 2 ^ 24 \<Longrightarrow> rdn_entries (encode_dn xs) [] (xs \<noteq> []) = Ok (map entry_of xs)"
proof (induction xs)
  case (Cons x xs)
  obtain ot name where x: "x = (ot, name)" by (cases x)
  have ne: "encode_dn xs \<noteq> [] \<longleftrightarrow> xs \<noteq> []"
    by (cases xs) (auto simp: encode_rdn_def Let_def split: prod.splits)
  have "get_next_rdn (encode_rdn ot name @ encode_dn xs) [] = Ok (encode_dn xs, [], entry_of (ot, name), encode_dn xs \<noteq> [])"
    using Cons.prems x by (intro get_next_encoded) auto
  then show ?case using Cons x ne by (subst rdn_entries.simps) simp
qed (subst rdn_entries.simps, simp)

lemma dn_entries_encoded:
  assumes "length (encode_dn xs) < 2 ^ 24"
  shows "dn_entries (ASN1_SEQUENCE # code_asn1_length (length (encode_dn xs)) @ encode_dn xs) = Ok (map entry_of xs)"
proof -
  have ne: "encode_dn xs \<noteq> [] \<longleftrightarrow> xs \<noteq> []"
    by (cases xs) (auto simp: encode_rdn_def Let_def split: prod.splits)
  have "asn1_length (ASN1_SEQUENCE # code_asn1_length (length (encode_dn xs)) @ encode_dn xs) =
      (encode_dn xs, Some (length (encode_dn xs)))"
    using assms by (intro asn1_length_code) auto
  then show ?thesis using rdn_entries_encoded [OF assms] ne
    by (simp add: dn_entries_def init_rdn_def)
qed

section \<open>The text form\<close>

definition rdn_kinds :: "(chunk \<times> byte) set" where
  "rdn_kinds = snd ` set x501rdns"

definition atodn_ok :: "atodn_vars \<Rightarrow> bool" where
  "atodn_ok v \<longleftrightarrow> (\<exists>xs. av_out v = encode_dn xs \<and> fst ` set xs \<subseteq> rdn_kinds) \<and>
     1 + ASN1_MAX_LEN_LEN + length (av_out v) \<le> IDTOA_BUF \<and>
     (av_state v = Search_name \<or> av_state v = Read_name \<longrightarrow> av_rdn v \<in> rdn_kinds)"

lemma find_rdn_name_kind: "find_rdn_name nm = Some (k, ot) \<Longrightarrow> ot \<in> rdn_kinds"
  by (force simp: find_rdn_name_def rdn_kinds_def find_Some_iff set_conv_nth)

lemma finish_name_ok:
  assumes "atodn_ok v" "av_state v = Read_name"
  shows "atodn_ok (finish_name v)"
proof -
  obtain xs where xs: "av_out v = encode_dn xs" "fst ` set xs \<subseteq> rdn_kinds" and
      rest: "1 + ASN1_MAX_LEN_LEN + length (av_out v) \<le> IDTOA_BUF" "av_rdn v \<in> rdn_kinds"
    using assms unfolding atodn_ok_def by auto
  let ?n = "ascii (take (length (av_name v) - av_whitespace v) (av_name v))"
  have "av_out v @ encode_rdn (av_rdn v) ?n = encode_dn (xs @ [(av_rdn v, ?n)])"
    "fst ` set (xs @ [(av_rdn v, ?n)]) \<subseteq> rdn_kinds"
    using xs rest(2) by auto
  then have "\<exists>xs. av_out v @ encode_rdn (av_rdn v) ?n = encode_dn xs \<and> fst ` set xs \<subseteq> rdn_kinds" by blast
  moreover have "\<exists>xs. av_out v = encode_dn xs \<and> fst ` set xs \<subseteq> rdn_kinds" using xs by blast
  ultimately show ?thesis using rest unfolding finish_name_def Let_def
    by (simp add: atodn_ok_def)
qed

lemma atodn_step_ok: "atodn_ok v \<Longrightarrow> atodn_ok (fst (atodn_step v c rest))"
  using finish_name_ok [of v] find_rdn_name_kind [of "av_oid v"]
  by (cases "av_state v")
    (auto simp: atodn_step_def atodn_ok_def split: option.splits)

lemma atodn_loop_ok: "atodn_ok v \<Longrightarrow> atodn_ok (atodn_loop v src)"
proof (induction v src rule: atodn_loop.induct)
  case (2 v c rest)
  then show ?case using atodn_step_ok [of v c rest] by (auto split: prod.splits)
qed simp

lemma atodn_init_ok: "atodn_ok atodn_init"
  by (auto simp: atodn_ok_def atodn_init_def ASN1_MAX_LEN_LEN_def IDTOA_BUF_def intro: exI [of _ "[]"])

section \<open>Well-formed text\<close>

definition plain_value :: "string \<Rightarrow> bool" where
  "plain_value v \<longleftrightarrow> v \<noteq> [] \<and> hd v \<noteq> CHR '' '' \<and> hd v \<noteq> CHR ''='' \<and> last v \<noteq> CHR '' '' \<and>
     list_all (\<lambda>c. c \<noteq> CHR '','' \<and> c \<noteq> CHR ''/'' \<and> c \<noteq> nul) v"

fun dn_text :: "(string \<times> string) list \<Rightarrow> string" where
  "dn_text [] = []"
| "dn_text ((k, v) # kvs) = k @ CHR ''='' # v @ (if kvs = [] then [] else '', '' @ dn_text kvs)"

lemma read_oid_loop:
  assumes "av_state v = Read_oid" "list_all (\<lambda>c. c \<noteq> CHR '' '' \<and> c \<noteq> CHR ''='' \<and> c \<noteq> nul) ks"
    "find_rdn_name (av_oid v @ ks) = Some (k, ot)"
  shows "atodn_loop v (ks @ CHR ''='' # rest) =
    atodn_loop (v\<lparr>av_oid := [], av_rdn := ot, av_state := Search_name\<rparr>) rest"
  using assms
proof (induction ks arbitrary: v)
  case Nil
  then show ?case by (simp add: atodn_step_def nul_def)
next
  case (Cons c ks)
  then show ?case by (simp add: atodn_step_def)
qed

lemma read_name_loop:
  assumes "av_state v = Read_name" "list_all (\<lambda>c. c \<noteq> CHR '','' \<and> c \<noteq> CHR ''/'' \<and> c \<noteq> nul) vs"
  shows "\<exists>w. atodn_loop v (vs @ rest) = atodn_loop (v\<lparr>av_name := av_name v @ vs, av_whitespace := w\<rparr>) rest \<and>
    (if vs = [] then w = av_whitespace v else last vs \<noteq> CHR '' '' \<longrightarrow> w = 0)"
  using assms
proof (induction vs arbitrary: v)
  case Nil
  show ?case by (intro exI [of _ "av_whitespace v"]) simp
next
  case (Cons c vs)
  let ?v = "v\<lparr>av_name := av_name v @ [c], av_whitespace := (if c = CHR '' '' then av_whitespace v + 1 else 0)\<rparr>"
  have "atodn_loop v ((c # vs) @ rest) = atodn_loop ?v (vs @ rest)"
    using Cons.prems by (simp add: atodn_step_def)
  moreover obtain w where "atodn_loop ?v (vs @ rest) =
      atodn_loop (?v\<lparr>av_name := av_name ?v @ vs, av_whitespace := w\<rparr>) rest"
      "if vs = [] then w = av_whitespace ?v else last vs \<noteq> CHR '' '' \<longrightarrow> w = 0"
    using Cons.IH [of ?v] Cons.prems by auto
  ultimately show ?case by (intro exI [of _ w]) (auto split: if_splits)
qed

definition text_mark :: "char \<Rightarrow> bool" where
  "text_mark c \<longleftrightarrow> c = CHR '' '' \<or> c = CHR ''='' \<or> c = CHR ''/'' \<or> c = CHR '','' \<or> c = nul"

lemma x501rdns_keywords:
  "list_all (\<lambda>(k, ot). find_rdn_name k = Some (k, ot) \<and> k \<noteq> []) x501rdns"
  by (simp add: x501rdns_def find_rdn_name_def strncaseeq_def tolower_def)

lemma x501rdns_marks: "list_all (\<lambda>(k, ot). list_all (\<lambda>c. \<not> text_mark c) k) x501rdns"
  by (simp add: x501rdns_def text_mark_def nul_def)

lemma tolower_mark [simp]: "text_mark (tolower c) \<longleftrightarrow> text_mark c"
proof (cases "65 \<le> (of_char c :: nat) \<and> (of_char c :: nat) \<le> 90")
  case True
  then have "(of_char (tolower c) :: nat) = of_char c + 32" by (simp add: tolower_def of_char_of)
  then have "97 \<le> (of_char (tolower c) :: nat)" using True by simp
  then show ?thesis using True by (auto simp: text_mark_def nul_def)
qed (auto simp: tolower_def Let_def)

lemma find_rdn_name_Some:
  assumes "find_rdn_name k = Some (k', ot)"
  shows "(k', ot) \<in> set x501rdns \<and> map tolower k = map tolower k'"
proof -
  have "(k', ot) \<in> set x501rdns" "length k' = length k" "strncaseeq k' k (length k)"
    using assms by (auto simp: find_rdn_name_def find_Some_iff set_conv_nth)
  then show ?thesis by (simp add: strncaseeq_def)
qed

text \<open>A keyword, in whatever case, is not empty and has no blank, separator or equals sign.\<close>

lemma keyword_facts:
  assumes "find_rdn_name k = Some (k', ot)"
  obtains c ks where "k = c # ks" "c \<noteq> CHR ''/''" "c \<noteq> CHR '',''"
    "list_all (\<lambda>c. c \<noteq> CHR '' '' \<and> c \<noteq> CHR ''='' \<and> c \<noteq> nul) k"
proof -
  have f: "(k', ot) \<in> set x501rdns" "map tolower k = map tolower k'" using find_rdn_name_Some [OF assms] by auto
  then have "k' \<noteq> []" "\<forall>c \<in> set (map tolower k'). \<not> text_mark c"
    using x501rdns_keywords x501rdns_marks by (auto simp: list_all_iff)
  then have k: "k \<noteq> []" "\<forall>c \<in> set (map tolower k). \<not> text_mark c" using f(2) by auto
  then have "\<forall>c \<in> set k. \<not> text_mark c" by auto
  then show ?thesis using that k(1) by (cases k) (auto simp: list_all_iff text_mark_def)
qed

lemma table_keyword: "(k, ot) \<in> set x501rdns \<Longrightarrow> find_rdn_name k = Some (k, ot)"
  using x501rdns_keywords by (auto simp: list_all_iff)

text \<open>One keyword and value, up to the separator or the terminator behind it.\<close>

lemma one_rdn_loop:
  assumes "find_rdn_name k = Some (k', ot)" "plain_value val" "av_state v = Search_oid"
    and fits: "1 + ASN1_MAX_LEN_LEN + length (av_out v) + length (encode_rdn ot (ascii val)) \<le> IDTOA_BUF"
    and d: "d = nul \<or> d \<in> {CHR '','', CHR ''/''} \<and> take 1 rest \<noteq> [d]"
  shows "\<exists>v'. atodn_loop v (k @ CHR ''='' # val @ d # rest) = (if d = nul then v' else atodn_loop v' rest) \<and>
    av_state v' = Search_oid \<and> av_out v' = av_out v @ encode_rdn ot (ascii val) \<and> av_ugh v' = av_ugh v"
proof -
  obtain c ks where k: "k = c # ks" "c \<noteq> CHR ''/''" "c \<noteq> CHR '',''"
      "list_all (\<lambda>c. c \<noteq> CHR '' '' \<and> c \<noteq> CHR ''='' \<and> c \<noteq> nul) k"
    by (rule keyword_facts [OF assms(1)])
  obtain x xs where val: "val = x # xs" using assms(2) by (cases val) (auto simp: plain_value_def)
  let ?v1 = "v\<lparr>av_oid := [c], av_state := Read_oid\<rparr>"
  let ?v2 = "?v1\<lparr>av_oid := [], av_rdn := ot, av_state := Search_name\<rparr>"
  let ?v3 = "?v2\<lparr>av_name := [x], av_whitespace := 0, av_state := Read_name\<rparr>"
  have "atodn_loop v (k @ CHR ''='' # val @ d # rest) = atodn_loop ?v1 (ks @ CHR ''='' # val @ d # rest)"
    using assms(3) k by (simp add: atodn_step_def)
  also have "\<dots> = atodn_loop ?v2 (val @ d # rest)"
    using k assms(1) by (intro read_oid_loop) auto
  also have "\<dots> = atodn_loop ?v3 (xs @ d # rest)"
    using assms(2) val by (simp add: atodn_step_def plain_value_def)
  finally have l: "atodn_loop v (k @ CHR ''='' # val @ d # rest) = atodn_loop ?v3 (xs @ d # rest)" .
  obtain w where w: "atodn_loop ?v3 (xs @ d # rest) =
      atodn_loop (?v3\<lparr>av_name := av_name ?v3 @ xs, av_whitespace := w\<rparr>) (d # rest)"
      "if xs = [] then w = av_whitespace ?v3 else last xs \<noteq> CHR '' '' \<longrightarrow> w = 0"
    using read_name_loop [of ?v3 xs "d # rest"] assms(2) val by (auto simp: plain_value_def)
  have w0: "w = 0" using w(2) assms(2) val by (auto simp: plain_value_def split: if_splits)
  let ?v4 = "?v3\<lparr>av_name := val, av_whitespace := 0\<rparr>"
  have "atodn_loop ?v4 (d # rest) = (if d = nul then finish_name ?v4 else atodn_loop (finish_name ?v4) rest)"
    using d by (auto simp: atodn_step_def nul_def)
  moreover have "finish_name ?v4 = ?v4\<lparr>av_out := av_out v @ encode_rdn ot (ascii val), av_name := [],
      av_state := Search_oid\<rparr>"
    using fits by (simp add: finish_name_def Let_def not_less)
  ultimately show ?thesis
    using l w w0 val by (intro exI [of _ "finish_name ?v4"]) simp
qed

definition rdn_of :: "string \<times> string \<Rightarrow> (chunk \<times> byte) \<times> chunk" where
  "rdn_of = (\<lambda>(k, val). (snd (the (find_rdn_name k)), ascii val))"

definition text_ok :: "(string \<times> string) list \<Rightarrow> bool" where
  "text_ok kvs \<longleftrightarrow> (\<forall>(k, val) \<in> set kvs. k \<in> fst ` set x501rdns \<and> plain_value val)"

lemma rdn_of_found: "find_rdn_name k = Some (k', ot) \<Longrightarrow> rdn_of (k, val) = (ot, ascii val)"
  by (simp add: rdn_of_def)

lemma rdn_of_keyword: "(k, ot) \<in> set x501rdns \<Longrightarrow> rdn_of (k, val) = (ot, ascii val)"
  by (rule rdn_of_found [OF table_keyword])

text \<open>A text, followed by the terminator or by a separator and a tail.\<close>

lemma dn_text_loop:
  assumes "text_ok kvs" "kvs \<noteq> []" "av_state v = Search_oid"
    and "1 + ASN1_MAX_LEN_LEN + length (av_out v) + length (encode_dn (map rdn_of kvs)) \<le> IDTOA_BUF"
    and d: "d = nul \<or> d = CHR '','' \<and> take 1 rest \<noteq> [CHR '','']"
  shows "\<exists>v'. atodn_loop v (dn_text kvs @ d # rest) = (if d = nul then v' else atodn_loop v' rest) \<and>
    av_state v' = Search_oid \<and> av_out v' = av_out v @ encode_dn (map rdn_of kvs) \<and> av_ugh v' = av_ugh v"
  using assms(1-4)
proof (induction kvs arbitrary: v)
  case (Cons kv kvs)
  obtain k val where kv: "kv = (k, val)" by (cases kv)
  then obtain ot where ot: "(k, ot) \<in> set x501rdns" and p: "plain_value val"
    using Cons.prems(1) by (auto simp: text_ok_def)
  note r = rdn_of_keyword [OF ot, of val]
  have fits: "1 + ASN1_MAX_LEN_LEN + length (av_out v) + length (encode_rdn ot (ascii val)) \<le> IDTOA_BUF"
    using Cons.prems(4) kv r by simp
  note one = one_rdn_loop [OF table_keyword [OF ot] p Cons.prems(3) fits]
  show ?case
  proof (cases "kvs = []")
    case True
    moreover have "d = nul \<or> d \<in> {CHR '','', CHR ''/''} \<and> take 1 rest \<noteq> [d]" using d by auto
    ultimately show ?thesis using one kv r by simp
  next
    case False
    let ?rest = "CHR '' '' # dn_text kvs @ d # rest"
    have sep: "CHR '','' = nul \<or> CHR '','' \<in> {CHR '','', CHR ''/''} \<and> take 1 ?rest \<noteq> [CHR '','']" by simp
    obtain v1 where v1: "atodn_loop v (k @ CHR ''='' # val @ CHR '','' # ?rest) = atodn_loop v1 ?rest"
        "av_state v1 = Search_oid" "av_out v1 = av_out v @ encode_rdn ot (ascii val)" "av_ugh v1 = av_ugh v"
      using one [OF sep] by (auto simp: nul_def)
    have "atodn_loop v1 ?rest = atodn_loop v1 (dn_text kvs @ d # rest)"
      using v1(2) by (simp add: atodn_step_def nul_def)
    moreover obtain v2 where "atodn_loop v1 (dn_text kvs @ d # rest) = (if d = nul then v2 else atodn_loop v2 rest)"
        "av_state v2 = Search_oid" "av_out v2 = av_out v1 @ encode_dn (map rdn_of kvs)" "av_ugh v2 = av_ugh v1"
      using Cons.IH [of v1] Cons.prems False v1 kv r by (auto simp: text_ok_def)
    ultimately show ?thesis using v1 kv r False by (intro exI [of _ v2]) simp
  qed
qed simp

abbreviation der_name :: "((chunk \<times> byte) \<times> chunk) list \<Rightarrow> chunk" where
  "der_name xs \<equiv> ASN1_SEQUENCE # code_asn1_length (length (encode_dn xs)) @ encode_dn xs"

lemma atodn_text:
  assumes "text_ok kvs" "kvs \<noteq> []" "1 + ASN1_MAX_LEN_LEN + length (encode_dn (map rdn_of kvs)) \<le> IDTOA_BUF"
  shows "atodn (dn_text kvs) = (None, der_name (map rdn_of kvs))"
proof -
  have i: "av_state atodn_init = Search_oid" "av_out atodn_init = []" "av_ugh atodn_init = None"
    by (simp_all add: atodn_init_def)
  obtain v where "atodn_loop atodn_init (dn_text kvs @ [nul]) = v"
      "av_out v = encode_dn (map rdn_of kvs)" "av_ugh v = None"
    using dn_text_loop [OF assms(1,2) i(1), of nul "[]"] assms(3) i by auto
  then show ?thesis by (simp add: atodn_def Let_def)
qed

lemma incomplete_loop:
  assumes "list_all (\<lambda>c. c \<noteq> CHR '' '' \<and> c \<noteq> CHR ''='' \<and> c \<noteq> nul) ks" "av_state v = Read_oid"
  shows "av_out (atodn_loop v (ks @ [nul])) = av_out v \<and> av_ugh (atodn_loop v (ks @ [nul])) = av_ugh v"
  using assms
proof (induction ks arbitrary: v)
  case (Cons c ks)
  then show ?case by (simp add: atodn_step_def)
qed (simp add: atodn_step_def nul_def)

section \<open>Values with a NUL octet\<close>

lemma strneq_octets_nul: "strneq_octets (p @ 0 # u) (p @ 0 # w)"
  by (induction p) auto

lemma strncaseeq_octets_nul: "strncaseeq_octets (p @ 0 # u) (p @ 0 # w)"
  by (induction p) auto

lemma length_encode_rdn_cong: "length n = length m \<Longrightarrow> length (encode_rdn ot n) = length (encode_rdn ot m)"
  by (simp add: encode_rdn_def encode_body_def Let_def split: prod.splits)

abbreviation single_dn :: "chunk \<times> byte \<Rightarrow> chunk \<Rightarrow> chunk" where
  "single_dn ot name \<equiv> ASN1_SEQUENCE # code_asn1_length (length (encode_rdn ot name)) @ encode_rdn ot name"

lemma init_rdn_single:
  "length (encode_rdn ot name) < 2 ^ 24 \<Longrightarrow> init_rdn (single_dn ot name) = Ok (encode_rdn ot name, True)"
proof -
  assume a: "length (encode_rdn ot name) < 2 ^ 24"
  have "encode_rdn ot name \<noteq> []" by (simp add: encode_rdn_def Let_def)
  moreover have "asn1_length (single_dn ot name) = (encode_rdn ot name, Some (length (encode_rdn ot name)))"
    using a by (intro asn1_length_code) auto
  ultimately show ?thesis by (simp add: init_rdn_def)
qed

section \<open>Properties\<close>

text \<open>
  C31: \<^verbatim>\<open>asn1_length\<close> reads back every length below \<^verbatim>\<open>2^24\<close> that \<^verbatim>\<open>code_asn1_length\<close> codes, and
  leaves the chunk at the contents; whatever the chunk holds, a length it returns does not
  exceed what is left.
\<close>

theorem asn1_length_inverts_code:
  assumes "n < 2 ^ 24" "n \<le> length rest" "asn1_length blob = (left, Some m)"
  shows "asn1_length (t # code_asn1_length n @ rest) = (rest, Some n) \<and> m \<le> length left \<and> length left < length blob"
  using asn1_length_code [OF assms(1,2)] asn1_length_rest [OF assms(3)] by simp

theorem asn1_length_inverts_code_witness:
  "asn1_length (0x30 # code_asn1_length 200 @ replicate 200 7) = (replicate 200 7, Some 200)"
  using asn1_length_inverts_code [of 200 "replicate 200 7" "[0x30, 1, 7]" "[7]" 1 "0x30"]
  by (simp add: asn1_length_def)

text \<open>
  C27: On names with at least one octet the comparisons, the wildcard count and the printer never
  read outside the name, whatever its octets, and they return; the search of the table of object
  identifiers they make ends in every case. What the printer writes fits the buffer with its NUL, and it
  writes something unless the buffer has no room at all or the name has no RDN.
\<close>

theorem dn_functions_safe:
  assumes "a \<noteq> []" "b \<noteq> []"
  shows "\<not> isl (match_dn a b count) \<and> \<not> isl (same_dn a b) \<and> \<not> isl (dn_count_wildcards a) \<and>
    (\<exists>w n. dntoa dstlen (Some a) = Inr (w, n) \<and> n \<le> dstlen \<and> (\<forall>t. w = Some t \<longrightarrow> length t < dstlen) \<and>
      (w = None \<longleftrightarrow> dstlen = 0 \<or> dn_entries a = Ok []))"
proof (intro conjI)
  show "\<not> isl (match_dn a b count)" by (rule match_dn_safe [OF assms])
  show "\<not> isl (same_dn a b)"
    using match_dn_safe [OF assms, of False] by (cases "match_dn a b False") (auto simp: same_dn_def)
  show "\<not> isl (dn_count_wildcards a)"
    using dn_entries_safe [OF assms(1)] by (auto simp: dn_count_wildcards_def safe_def split: outcome.splits)
qed (rule dntoa_fits [OF assms(1)])

theorem dn_functions_safe_witness:
  "\<not> isl (match_dn [0x30, 0x84] [0x30, 9, 9] True) \<and> \<not> isl (dn_count_wildcards [0x30, 0x84])"
  using dn_functions_safe [of "[0x30, 0x84]" "[0x30, 9, 9]" True 1] by simp

text \<open>
  C30: Whatever the text, the encoding \<^verbatim>\<open>atodn\<close> leaves is a DN that parses without error into
  entries whose OIDs are those of the keyword table, and it fits the buffer of \<^verbatim>\<open>IDTOA_BUF\<close>
  octets.
\<close>

theorem atodn_output_parses:
  "length (snd (atodn src)) \<le> IDTOA_BUF \<and>
   (\<exists>es. dn_entries (snd (atodn src)) = Ok es \<and> re_oid ` set es \<subseteq> fst ` rdn_kinds)"
proof -
  let ?v = "atodn_loop atodn_init (src @ [nul])"
  have "atodn_ok ?v" by (rule atodn_loop_ok [OF atodn_init_ok])
  then obtain xs where xs: "av_out ?v = encode_dn xs" "fst ` set xs \<subseteq> rdn_kinds"
      and l: "1 + ASN1_MAX_LEN_LEN + length (av_out ?v) \<le> IDTOA_BUF"
    by (auto simp: atodn_ok_def)
  have dn: "snd (atodn src) = ASN1_SEQUENCE # code_asn1_length (length (encode_dn xs)) @ encode_dn xs"
    using xs(1) by (simp add: atodn_def Let_def)
  have "length (encode_dn xs) < 2 ^ 24" using l xs(1) by (simp add: IDTOA_BUF_def)
  from dn_entries_encoded [OF this] have "dn_entries (snd (atodn src)) = Ok (map entry_of xs)"
    using dn by simp
  moreover have "re_oid ` set (map entry_of xs) \<subseteq> fst ` rdn_kinds"
    using xs(2) by (force simp: entry_of_def)
  moreover have "length (snd (atodn src)) \<le> IDTOA_BUF"
    using l xs(1) dn length_code_le(1) [of "length (encode_dn xs)"] by (simp add: ASN1_MAX_LEN_LEN_def)
  ultimately show ?thesis by blast
qed

text \<open>
  C29: A text of \<^verbatim>\<open>keyword=value\<close> pairs with separators, of known keywords and of values without
  separators or surrounding blanks, is encoded to exactly these pairs in their order, and
  parsing gives them back, if the encoding fits the buffer.
\<close>

theorem atodn_encodes_text:
  assumes "text_ok kvs" "kvs \<noteq> []" "1 + ASN1_MAX_LEN_LEN + length (encode_dn (map rdn_of kvs)) \<le> IDTOA_BUF"
  shows "fst (atodn (dn_text kvs)) = None \<and>
    dn_entries (snd (atodn (dn_text kvs))) = Ok (map (\<lambda>kv. entry_of (rdn_of kv)) kvs)"
proof -
  have "length (encode_dn (map rdn_of kvs)) < 2 ^ 24" using assms(3) by (simp add: IDTOA_BUF_def)
  then show ?thesis using dn_entries_encoded [of "map rdn_of kvs"] atodn_text [OF assms] by (simp add: comp_def)
qed

theorem atodn_encodes_text_witness:
  "map re_value (case dn_entries (snd (atodn ''C=CH, O=x'')) of Ok es \<Rightarrow> es | _ \<Rightarrow> []) = [ascii ''CH'', ascii ''x'']"
proof -
  let ?kvs = "[(''C'', ''CH''), (''O'', ''x'')]"
  have r: "rdn_of (''C'', v) = (([0x55, 0x04, 0x06], ASN1_PRINTABLESTRING), ascii v)"
    "rdn_of (''O'', v) = (([0x55, 0x04, 0x0A], ASN1_PRINTABLESTRING), ascii v)" for v
    by (rule rdn_of_keyword, simp add: x501rdns_def)+
  have "text_ok ?kvs" by (auto simp: text_ok_def plain_value_def nul_def x501rdns_def)
  moreover have "1 + ASN1_MAX_LEN_LEN + length (encode_dn (map rdn_of ?kvs)) \<le> IDTOA_BUF"
    by (simp add: r encode_rdn_def encode_body_def code_asn1_length_def ascii_def ASN1_MAX_LEN_LEN_def IDTOA_BUF_def)
  ultimately show ?thesis
    using atodn_encodes_text [of ?kvs] by (simp add: r entry_of_def)
qed

text \<open>
  A keyword at the end of the text without a value is dropped without an error: the name is
  encoded as if the text ended before it.
\<close>

theorem atodn_drops_incomplete:
  assumes "text_ok kvs" "kvs \<noteq> []" "1 + ASN1_MAX_LEN_LEN + length (encode_dn (map rdn_of kvs)) \<le> IDTOA_BUF"
    and "c \<noteq> CHR ''/''" "c \<noteq> CHR '',''" "list_all (\<lambda>c. c \<noteq> CHR '' '' \<and> c \<noteq> CHR ''='' \<and> c \<noteq> nul) (c # ks)"
  shows "atodn (dn_text kvs @ '', '' @ c # ks) = atodn (dn_text kvs)"
proof -
  have i: "av_state atodn_init = Search_oid" "av_out atodn_init = []" "av_ugh atodn_init = None"
    by (simp_all add: atodn_init_def)
  have fits: "1 + ASN1_MAX_LEN_LEN + length (av_out atodn_init) + length (encode_dn (map rdn_of kvs)) \<le> IDTOA_BUF"
    using assms(3) i by simp
  obtain v where v: "atodn_loop atodn_init (dn_text kvs @ [nul]) = v"
      "av_out v = encode_dn (map rdn_of kvs)" "av_ugh v = None"
    using dn_text_loop [OF assms(1,2) i(1) fits, of nul "[]"] i by auto
  let ?rest = "CHR '' '' # c # ks @ [nul]"
  obtain u where u: "atodn_loop atodn_init (dn_text kvs @ CHR '','' # ?rest) = atodn_loop u ?rest"
      "av_state u = Search_oid" "av_out u = encode_dn (map rdn_of kvs)" "av_ugh u = None"
    using dn_text_loop [OF assms(1,2) i(1) fits, of "CHR '',''" ?rest] i by (auto simp: nul_def)
  have "atodn_loop u ?rest = atodn_loop (u\<lparr>av_oid := [c], av_state := Read_oid\<rparr>) (ks @ [nul])"
    using u(2) assms(4-6) by (simp add: atodn_step_def nul_def)
  with incomplete_loop [of ks "u\<lparr>av_oid := [c], av_state := Read_oid\<rparr>"] assms(6) u
  have "av_out (atodn_loop atodn_init (dn_text kvs @ CHR '','' # ?rest)) = encode_dn (map rdn_of kvs)"
    "av_ugh (atodn_loop atodn_init (dn_text kvs @ CHR '','' # ?rest)) = None" by auto
  with v show ?thesis by (simp add: atodn_def Let_def)
qed

theorem atodn_drops_incomplete_witness: "atodn ''C=CH, O'' = atodn ''C=CH''"
proof -
  let ?kvs = "[(''C'', ''CH'')]"
  have r: "rdn_of (''C'', v) = (([0x55, 0x04, 0x06], ASN1_PRINTABLESTRING), ascii v)" for v
    by (rule rdn_of_keyword, simp add: x501rdns_def)
  have "text_ok ?kvs" by (auto simp: text_ok_def plain_value_def nul_def x501rdns_def)
  moreover have "1 + ASN1_MAX_LEN_LEN + length (encode_dn (map rdn_of ?kvs)) \<le> IDTOA_BUF"
    by (simp add: r encode_rdn_def encode_body_def code_asn1_length_def ascii_def ASN1_MAX_LEN_LEN_def IDTOA_BUF_def)
  ultimately show ?thesis
    using atodn_drops_incomplete [of ?kvs "CHR ''O''" "[]"] by (simp add: nul_def)
qed

text \<open>
  C39: \<^verbatim>\<open>same_dn\<close> compares values as C strings: two names of one RDN whose values have the same
  length and agree up to a NUL octet are the same to it, whatever follows the NUL.
\<close>

theorem same_dn_stops_at_nul:
  assumes "length u = length w" "length (encode_rdn ot (p @ 0 # u)) < 2 ^ 24"
  shows "same_dn (single_dn ot (p @ 0 # u)) (single_dn ot (p @ 0 # w)) = Inr True"
proof -
  let ?n = "p @ 0 # u" and ?m = "p @ 0 # w"
  have l: "length (encode_rdn ot ?m) = length (encode_rdn ot ?n)"
    using assms(1) by (intro length_encode_rdn_cong) simp
  then have m: "length (encode_rdn ot ?m) < 2 ^ 24" using assms(2) by simp
  have "re_value (entry_of (ot, x)) = x" for x by (simp add: entry_of_def split: prod.splits)
  then have sv: "same_value (entry_of (ot, ?n)) (entry_of (ot, ?m)) = Inr True"
    using assms(1) by (intro same_value_strings) (simp_all add: strneq_octets_nul strncaseeq_octets_nul)
  have o: "re_oid (entry_of (ot, ?n)) = re_oid (entry_of (ot, ?m))" by (simp add: entry_of_def split: prod.splits)
  have "match_rdns (encode_rdn ot ?n) [] True (encode_rdn ot ?m) [] True None = Inr (True, None)"
    using get_next_encoded [OF assms(2), of "[]"] get_next_encoded [OF m, of "[]"] sv o
    by (subst match_rdns.simps) (simp, subst match_rdns.simps, simp)
  then show ?thesis
    using init_rdn_single [OF assms(2)] init_rdn_single [OF m] l
    by (simp add: same_dn_def match_dn_def)
qed

theorem same_dn_stops_at_nul_witness:
  "same_dn (single_dn ([0x55, 0x04, 0x03], ASN1_PRINTABLESTRING) (ascii ''a'' @ 0 # ascii ''b''))
     (single_dn ([0x55, 0x04, 0x03], ASN1_PRINTABLESTRING) (ascii ''a'' @ 0 # ascii ''c'')) = Inr True"
  by (rule same_dn_stops_at_nul)
    (simp_all add: ascii_def encode_rdn_def encode_body_def code_asn1_length_def)

end
