(* ===== verification/DnText.thy ===== *)
theory DnText
  imports DnProps
begin

text \<open>
  The text of distinguished names: what \<^verbatim>\<open>dntoa\<close> prints of an encoded name, that it is the
  canonical form of the text that \<^verbatim>\<open>atodn\<close> read and is read as the same name, and that the text does not
  tell a separator from a value that has one.
\<close>

section \<open>Printing as one text\<close>

lemma format_chunk_append: "format_chunk (format_chunk st s) t = format_chunk st (s @ t)"
  by (cases st) (auto simp: format_chunk_def take_append)

lemma foldl_format:
  "foldl (\<lambda>st b. format_chunk st (f b)) (format_chunk st s) bs = format_chunk st (s @ concat (map f bs))"
  by (induction bs arbitrary: s) (simp_all add: format_chunk_append)

definition oid_text :: "chunk \<Rightarrow> string" where
  "oid_text oid = (case oid_code oid of
       Inl _ \<Rightarrow> []
     | Inr code \<Rightarrow> if code = - 1 then ''0x'' @ concat (map hex2 oid) else snd (snd (snd (oid_names ! nat code))))"

definition entry_text :: "rdn_entry \<Rightarrow> string" where
  "entry_text e = oid_text (re_oid e) @ CHR ''='' # print_chars (re_value e)"

fun names_text :: "bool \<Rightarrow> rdn_entry list \<Rightarrow> string" where
  "names_text first [] = []"
| "names_text first (e # es) = (if first then [] else '', '') @ entry_text e @ names_text False es"

lemma print_entry_text: "print_entry e st = Ok (format_chunk st (entry_text e))"
  by (rule oid_code_total [of "re_oid e"])
    (auto simp: print_entry_def entry_text_def oid_text_def hex_str_def foldl_format format_chunk_append)

lemma encode_dn_Nil_iff: "encode_dn xs = [] \<longleftrightarrow> xs = []"
  by (cases xs) (auto simp: encode_rdn_def Let_def split: prod.splits)

lemma dn_print_encoded:
  "length (encode_dn xs) < 2 ^ 24 \<Longrightarrow> xs \<noteq> [] \<Longrightarrow>
     dn_print (encode_dn xs) [] True fst_entry st = Ok (format_chunk st (names_text fst_entry (map entry_of xs)))"
proof (induction xs arbitrary: fst_entry st)
  case (Cons x xs)
  obtain ot name where x: "x = (ot, name)" by (cases x)
  have "get_next_rdn (encode_rdn ot name @ encode_dn xs) [] = Ok (encode_dn xs, [], entry_of (ot, name), xs \<noteq> [])"
    using Cons.prems x encode_dn_Nil_iff [of xs] get_next_encoded [of ot name "encode_dn xs"] by simp
  then have step: "dn_print (encode_dn (x # xs)) [] True fst_entry st =
      dn_print (encode_dn xs) [] (xs \<noteq> []) False (format_chunk st ((if fst_entry then [] else '', '') @ entry_text (entry_of x)))"
    using x by (subst dn_print.simps) (simp add: print_entry_text format_chunk_append)
  show ?case
  proof (cases "xs = []")
    case True
    then show ?thesis using step by (simp add: dn_print.simps [of _ _ False])
  next
    case False
    moreover have "length (encode_dn xs) < 2 ^ 24" using Cons.prems by (simp split: prod.splits)
    ultimately show ?thesis using step Cons.IH by (simp add: format_chunk_append)
  qed
qed simp

lemma dntoa_encoded:
  assumes "length (encode_dn xs) < 2 ^ 24" "xs \<noteq> []"
  shows "dntoa dstlen (Some (der_name xs)) =
    (case format_chunk (None, dstlen) (names_text True (map entry_of xs)) of (w, room) \<Rightarrow> Inr (w, dstlen - room))"
proof -
  have "asn1_length (der_name xs) = (encode_dn xs, Some (length (encode_dn xs)))"
    using assms(1) by (intro asn1_length_code) auto
  then have "init_rdn (der_name xs) = Ok (encode_dn xs, True)"
    using encode_dn_Nil_iff [of xs] assms(2) by (simp add: init_rdn_def)
  then show ?thesis using dn_print_encoded [OF assms, of True] by (simp add: dntoa_def dn_parse_def)
qed

lemma unat_of_char: "unat (of_char c :: byte) = of_char c"
proof -
  have "(of_char c :: byte) = of_nat (of_char c)" by (simp only: of_nat_of_char)
  moreover have "(of_char c :: nat) < 256" by simp
  ultimately show ?thesis by (metis of_nat_byte)
qed

lemma of_char_nul: "(of_char c :: byte) = 0 \<longleftrightarrow> c = nul"
proof
  assume "(of_char c :: byte) = 0"
  then have "of_char c = (of_char nul :: nat)" using unat_of_char [of c] by (simp add: nul_def)
  then show "c = nul" by simp
qed (simp add: nul_def)

lemma print_chars_ascii: "nul \<notin> set s \<Longrightarrow> print_chars (ascii s) = s"
proof (induction s)
  case (Cons c s)
  then show ?case by (auto simp: print_chars_def ascii_def unat_of_char of_char_nul)
qed (simp add: print_chars_def ascii_def)

section \<open>Reading and printing\<close>

text \<open>
  A text in its parts, each a separator, a keyword and a value. Before the first keyword there may be
  blanks, commas and slashes; between two parts there is a comma or a slash, which is not doubled, and
  then possibly more of these characters. A keyword may be written in any case.
\<close>

definition separators :: "char set" where
  "separators = {CHR '' '', CHR '','', CHR ''/''}"

definition between :: "string \<Rightarrow> bool" where
  "between sep \<longleftrightarrow> sep \<noteq> [] \<and> hd sep \<in> {CHR '','', CHR ''/''} \<and> take 1 (tl sep) \<noteq> [hd sep] \<and> set sep \<subseteq> separators"

definition part_ok :: "string \<times> string \<times> string \<Rightarrow> bool" where
  "part_ok = (\<lambda>(sep, k, val). set sep \<subseteq> separators \<and> find_rdn_name k \<noteq> None \<and> plain_value val)"

definition parts_ok :: "(string \<times> string \<times> string) list \<Rightarrow> bool" where
  "parts_ok ps \<longleftrightarrow> ps \<noteq> [] \<and> list_all part_ok ps \<and> list_all (\<lambda>p. between (fst p)) (tl ps)"

fun parts_text :: "(string \<times> string \<times> string) list \<Rightarrow> string" where
  "parts_text [] = []"
| "parts_text ((sep, k, val) # ps) = sep @ k @ CHR ''='' # val @ parts_text ps"

abbreviation parts_rdns :: "(string \<times> string \<times> string) list \<Rightarrow> ((chunk \<times> byte) \<times> chunk) list" where
  "parts_rdns ps \<equiv> map (\<lambda>p. rdn_of (snd p)) ps"

lemma skip_separators:
  "av_state v = Search_oid \<Longrightarrow> set sep \<subseteq> separators \<Longrightarrow> atodn_loop v (sep @ rest) = atodn_loop v rest"
  by (induction sep) (auto simp: separators_def atodn_step_def nul_def)

lemma keyword_start: "find_rdn_name k \<noteq> None \<Longrightarrow> c \<in> {CHR '','', CHR ''/''} \<Longrightarrow> take 1 (k @ rest) \<noteq> [c]"
  by (auto elim!: keyword_facts)

lemma parts_loop:
  assumes "list_all part_ok ((sep, k, val) # ps)" "list_all (\<lambda>p. between (fst p)) ps" "av_state v = Search_oid"
    and "1 + ASN1_MAX_LEN_LEN + length (av_out v) + length (encode_dn (parts_rdns ((sep, k, val) # ps))) \<le> IDTOA_BUF"
  shows "\<exists>v'. atodn_loop v (k @ CHR ''='' # val @ parts_text ps @ [nul]) = v' \<and>
    av_out v' = av_out v @ encode_dn (parts_rdns ((sep, k, val) # ps)) \<and> av_ugh v' = av_ugh v"
  using assms
proof (induction ps arbitrary: sep k val v)
  case Nil
  then obtain k' ot where k: "find_rdn_name k = Some (k', ot)" "plain_value val" by (auto simp: part_ok_def)
  then show ?case using one_rdn_loop [OF k Nil.prems(3), of nul "[]"] Nil.prems(4) rdn_of_found [OF k(1), of val] by auto
next
  case (Cons p ps)
  obtain sep1 k1 val1 where p: "p = (sep1, k1, val1)" by (cases p) auto
  obtain k' ot where k: "find_rdn_name k = Some (k', ot)" "plain_value val" using Cons.prems(1) by (auto simp: part_ok_def)
  note r = rdn_of_found [OF k(1), of val]
  obtain d seps where sep1: "sep1 = d # seps" "d \<in> {CHR '','', CHR ''/''}" "take 1 seps \<noteq> [d]" "set seps \<subseteq> separators"
    using Cons.prems(2) p by (cases sep1) (auto simp: between_def)
  let ?tail = "k1 @ CHR ''='' # val1 @ parts_text ps @ [nul]"
  have k1: "find_rdn_name k1 \<noteq> None" using Cons.prems(1) p by (simp add: part_ok_def)
  have d: "d = nul \<or> d \<in> {CHR '','', CHR ''/''} \<and> take 1 (seps @ ?tail) \<noteq> [d]"
    using sep1(2,3) keyword_start [OF k1 sep1(2)] by (cases seps) auto
  have fits: "1 + ASN1_MAX_LEN_LEN + length (av_out v) + length (encode_rdn ot (ascii val)) \<le> IDTOA_BUF"
    using Cons.prems(4) r by simp
  obtain v1 where v1: "atodn_loop v (k @ CHR ''='' # val @ d # seps @ ?tail) = atodn_loop v1 (seps @ ?tail)"
      "av_state v1 = Search_oid" "av_out v1 = av_out v @ encode_rdn ot (ascii val)" "av_ugh v1 = av_ugh v"
    using one_rdn_loop [OF k Cons.prems(3) fits d] sep1(2) by (auto simp: nul_def)
  have "\<exists>v'. atodn_loop v1 ?tail = v' \<and> av_out v' = av_out v1 @ encode_dn (parts_rdns (p # ps)) \<and> av_ugh v' = av_ugh v1"
    unfolding p using Cons.prems p v1(2,3) r by (intro Cons.IH) auto
  moreover have "atodn_loop v1 (seps @ ?tail) = atodn_loop v1 ?tail" by (rule skip_separators [OF v1(2) sep1(4)])
  ultimately show ?case using v1 p sep1(1) r by auto
qed

lemma atodn_parts:
  assumes "parts_ok ps" "1 + ASN1_MAX_LEN_LEN + length (encode_dn (parts_rdns ps)) \<le> IDTOA_BUF"
  shows "atodn (parts_text ps) = (None, der_name (parts_rdns ps))"
proof -
  obtain sep k val qs where ps: "ps = (sep, k, val) # qs" using assms(1) by (cases ps) (auto simp: parts_ok_def)
  have i: "av_state atodn_init = Search_oid" "av_out atodn_init = []" "av_ugh atodn_init = None"
    by (simp_all add: atodn_init_def)
  have "atodn_loop atodn_init (parts_text ps @ [nul]) = atodn_loop atodn_init (k @ CHR ''='' # val @ parts_text qs @ [nul])"
    using skip_separators [OF i(1), of sep] assms(1) ps by (simp add: parts_ok_def part_ok_def)
  moreover obtain v where "atodn_loop atodn_init (k @ CHR ''='' # val @ parts_text qs @ [nul]) = v"
      "av_out v = encode_dn (parts_rdns ps)" "av_ugh v = None"
    using parts_loop [of sep k val qs atodn_init] assms ps i by (auto simp: parts_ok_def)
  ultimately show ?thesis by (simp add: atodn_def Let_def)
qed

text \<open>
  The canonical text: the separator is a comma and a blank, and the keyword is the name that the table
  of object identifiers has for it.
\<close>

definition canonical :: "string \<times> string \<times> string \<Rightarrow> string \<times> string" where
  "canonical = (\<lambda>(sep, k, val). (oid_text (fst (fst (rdn_of (k, val)))), val))"

definition canonical_text :: "(string \<times> string \<times> string) list \<Rightarrow> string" where
  "canonical_text ps = dn_text (map canonical ps)"

text \<open>The entries of the table on the way to the keywords, and the names there.\<close>

lemma oid_entry:
  "oid_names ! 0 = (0x02, True, 7, ''ITU-T Administration'')"
  "oid_names ! 1 = (0x82, True, 0, '''')"
  "oid_names ! 2 = (0x06, True, 0, ''Germany ITU-T member'')"
  "oid_names ! 3 = (0x01, True, 0, ''Deutsche Telekom AG'')"
  "oid_names ! 4 = (0x0A, True, 0, '''')"
  "oid_names ! 5 = (0x07, True, 0, '''')"
  "oid_names ! 6 = (0x14, False, 0, ''ND'')"
  "oid_names ! 7 = (0x09, True, 18, ''data'')"
  "oid_names ! 8 = (0x92, True, 0, '''')"
  "oid_names ! 9 = (0x26, True, 0, '''')"
  "oid_names ! 10 = (0x89, True, 0, '''')"
  "oid_names ! 11 = (0x93, True, 0, '''')"
  "oid_names ! 12 = (0xF2, True, 0, '''')"
  "oid_names ! 13 = (0x2C, True, 0, '''')"
  "oid_names ! 14 = (0x64, True, 0, ''pilot'')"
  "oid_names ! 15 = (0x01, True, 0, ''pilotAttributeType'')"
  "oid_names ! 16 = (0x01, False, 17, ''UID'')"
  "oid_names ! 17 = (0x19, False, 0, ''DC'')"
  "oid_names ! 18 = (0x55, True, 51, ''X.500'')"
  "oid_names ! 19 = (0x04, True, 36, ''X.509'')"
  "oid_names ! 20 = (0x03, False, 21, ''CN'')"
  "oid_names ! 21 = (0x04, False, 22, ''S'')"
  "oid_names ! 22 = (0x05, False, 23, ''SN'')"
  "oid_names ! 23 = (0x06, False, 24, ''C'')"
  "oid_names ! 24 = (0x07, False, 25, ''L'')"
  "oid_names ! 25 = (0x08, False, 26, ''ST'')"
  "oid_names ! 26 = (0x0A, False, 27, ''O'')"
  "oid_names ! 27 = (0x0B, False, 28, ''OU'')"
  "oid_names ! 28 = (0x0C, False, 29, ''T'')"
  "oid_names ! 29 = (0x0D, False, 30, ''D'')"
  "oid_names ! 30 = (0x24, False, 31, ''userCertificate'')"
  "oid_names ! 31 = (0x29, False, 32, ''N'')"
  "oid_names ! 32 = (0x2A, False, 33, ''G'')"
  "oid_names ! 33 = (0x2B, False, 34, ''I'')"
  "oid_names ! 34 = (0x2D, False, 35, ''ID'')"
  "oid_names ! 51 = (0x2A, True, 80, '''')"
  "oid_names ! 52 = (0x86, True, 0, '''')"
  "oid_names ! 53 = (0x48, True, 0, '''')"
  "oid_names ! 54 = (0x86, True, 0, '''')"
  "oid_names ! 55 = (0xF7, True, 0, '''')"
  "oid_names ! 56 = (0x0D, True, 0, ''RSADSI'')"
  "oid_names ! 57 = (0x01, True, 77, ''PKCS'')"
  "oid_names ! 58 = (0x01, True, 67, ''PKCS-1'')"
  "oid_names ! 67 = (0x07, True, 74, ''PKCS-7'')"
  "oid_names ! 74 = (0x09, True, 0, ''PKCS-9'')"
  "oid_names ! 75 = (0x01, False, 76, ''E'')"
  "oid_names ! 76 = (0x02, False, 0, ''unstructuredName'')"
  "oid_names ! 80 = (0x2B, True, 133, '''')"
  "oid_names ! 81 = (0x06, True, 121, ''dod'')"
  "oid_names ! 82 = (0x01, True, 0, ''internet'')"
  "oid_names ! 83 = (0x04, True, 92, ''private'')"
  "oid_names ! 84 = (0x01, True, 0, ''enterprise'')"
  "oid_names ! 85 = (0x89, True, 0, '''')"
  "oid_names ! 86 = (0x31, True, 0, '''')"
  "oid_names ! 87 = (0x01, True, 0, '''')"
  "oid_names ! 88 = (0x01, True, 0, '''')"
  "oid_names ! 89 = (0x02, True, 0, '''')"
  "oid_names ! 90 = (0x02, True, 0, '''')"
  "oid_names ! 91 = (0x4B, False, 0, ''TCGID'')"
  by (simp_all only: oid_names_def) (simp_all del: One_nat_def)

lemma keyword_oids:
  "oid_text [0x02, 0x82, 0x06, 0x01, 0x0A, 0x07, 0x14] = ''ND''"
  "oid_text [0x09, 0x92, 0x26, 0x89, 0x93, 0xF2, 0x2C, 0x64, 0x01, 0x01] = ''UID''"
  "oid_text [0x09, 0x92, 0x26, 0x89, 0x93, 0xF2, 0x2C, 0x64, 0x01, 0x19] = ''DC''"
  "oid_text [0x55, 0x04, 0x03] = ''CN''"
  "oid_text [0x55, 0x04, 0x04] = ''S''"
  "oid_text [0x55, 0x04, 0x05] = ''SN''"
  "oid_text [0x55, 0x04, 0x06] = ''C''"
  "oid_text [0x55, 0x04, 0x07] = ''L''"
  "oid_text [0x55, 0x04, 0x08] = ''ST''"
  "oid_text [0x55, 0x04, 0x0A] = ''O''"
  "oid_text [0x55, 0x04, 0x0B] = ''OU''"
  "oid_text [0x55, 0x04, 0x0C] = ''T''"
  "oid_text [0x55, 0x04, 0x0D] = ''D''"
  "oid_text [0x55, 0x04, 0x29] = ''N''"
  "oid_text [0x55, 0x04, 0x2A] = ''G''"
  "oid_text [0x55, 0x04, 0x2B] = ''I''"
  "oid_text [0x55, 0x04, 0x2D] = ''ID''"
  "oid_text [0x2A, 0x86, 0x48, 0x86, 0xF7, 0x0D, 0x01, 0x09, 0x01] = ''E''"
  "oid_text [0x2A, 0x86, 0x48, 0x86, 0xF7, 0x0D, 0x01, 0x09, 0x02] = ''unstructuredName''"
  "oid_text [0x2B, 0x06, 0x01, 0x04, 0x01, 0x89, 0x31, 0x01, 0x01, 0x02, 0x02, 0x4B] = ''TCGID''"
  by (simp_all add: oid_text_def oid_code_def known_oid_def known_oid_loop.simps oid_entry oid_names_length del: One_nat_def)

lemma canonical_keywords:
  "list_all (\<lambda>(k, ot). \<exists>k'. find_rdn_name (oid_text (fst ot)) = Some (k', ot)) x501rdns"
  by (simp add: x501rdns_def keyword_oids find_rdn_name_def strncaseeq_def tolower_def)

lemma canonical_keyword:
  assumes "find_rdn_name k \<noteq> None"
  shows "\<exists>k'. find_rdn_name (oid_text (fst (fst (rdn_of (k, val))))) = Some (k', fst (rdn_of (k, val)))"
proof -
  obtain k' ot where k: "find_rdn_name k = Some (k', ot)" using assms by auto
  then show ?thesis using find_rdn_name_Some [OF k] canonical_keywords rdn_of_found [OF k, of val]
    by (auto simp: list_all_iff)
qed

lemma entry_of_text:
  "nul \<notin> set val \<Longrightarrow> entry_text (entry_of (rdn_of (k, val))) = oid_text (fst (fst (rdn_of (k, val)))) @ CHR ''='' # val"
  using print_chars_ascii [of val] by (auto simp: entry_text_def entry_of_def rdn_of_def split: prod.splits)

lemma names_text_canonical:
  assumes "\<forall>p \<in> set ps. nul \<notin> set (snd (snd p))"
  shows "names_text first (map entry_of (parts_rdns ps)) = (if ps = [] \<or> first then [] else '', '') @ canonical_text ps"
  using assms
proof (induction ps arbitrary: first)
  case (Cons p ps)
  obtain sep k val where "p = (sep, k, val)" by (cases p) auto
  then show ?case using Cons entry_of_text [of val k] by (auto simp: canonical_text_def canonical_def)
qed (simp add: canonical_text_def)

text \<open>The canonical text in its own parts.\<close>

fun canonical_parts :: "string \<Rightarrow> (string \<times> string \<times> string) list \<Rightarrow> (string \<times> string \<times> string) list" where
  "canonical_parts sep [] = []"
| "canonical_parts sep (p # ps) = (sep, canonical p) # canonical_parts '', '' ps"

lemma canonical_parts_text: "parts_text (canonical_parts sep ps) = (if ps = [] then [] else sep @ canonical_text ps)"
  by (induction sep ps rule: canonical_parts.induct) (auto simp: canonical_text_def canonical_def split: prod.splits)

lemma canonical_parts_rdns: "list_all part_ok ps \<Longrightarrow> parts_rdns (canonical_parts sep ps) = parts_rdns ps"
proof (induction sep ps rule: canonical_parts.induct)
  case (2 sep p ps)
  obtain sep' k val where p: "p = (sep', k, val)" by (cases p) auto
  then have "find_rdn_name k \<noteq> None" using 2(2) by (simp add: part_ok_def)
  from canonical_keyword [OF this, of val] have "rdn_of (canonical p) = rdn_of (k, val)"
    using p rdn_of_found by (auto simp: canonical_def rdn_of_def)
  then show ?case using 2 p by simp
qed simp

lemma canonical_parts_ok:
  "list_all part_ok ps \<Longrightarrow> set sep \<subseteq> separators \<Longrightarrow>
     list_all part_ok (canonical_parts sep ps) \<and> list_all (\<lambda>p. between (fst p)) (tl (canonical_parts sep ps)) \<and>
     (between sep \<longrightarrow> list_all (\<lambda>p. between (fst p)) (canonical_parts sep ps))"
proof (induction sep ps rule: canonical_parts.induct)
  case (2 sep p ps)
  obtain sep' k val where p: "p = (sep', k, val)" by (cases p) auto
  have "part_ok (sep, canonical p)"
    using 2(2,3) canonical_keyword [of k val] p by (auto simp: part_ok_def canonical_def)
  moreover have "between '', ''" "set '', '' \<subseteq> separators" by (auto simp: between_def separators_def)
  ultimately show ?case using 2 by simp
qed simp

text \<open>
  C28: Reading and printing a distinguished name are inverse up to the form of the text. For a text of
  \<^verbatim>\<open>keyword=value\<close> parts whose keywords are known, in any case, whose values have no separator, no NUL and no
  blank at either end, and whose encoding fits the buffer, \<^verbatim>\<open>dntoa\<close> of the name that
  \<^verbatim>\<open>atodn\<close> encodes is the canonical text: the values in their order, each keyword replaced by the name
  of its object identifier, a comma and a blank between two parts, cut off only where the buffer ends.
  Reading the canonical text gives the same name again, and a text that is already canonical comes back
  as it is.
\<close>

theorem dntoa_inverts_atodn:
  assumes "parts_ok ps" "1 + ASN1_MAX_LEN_LEN + length (encode_dn (parts_rdns ps)) \<le> IDTOA_BUF" "0 < dstlen"
    and "t = canonical_text ps"
  shows "dntoa dstlen (Some (snd (atodn (parts_text ps)))) = Inr (Some (take (dstlen - 1) t), min dstlen (length t)) \<and>
    atodn t = atodn (parts_text ps) \<and> (ps = canonical_parts [] ps \<longrightarrow> t = parts_text ps)"
proof (intro conjI impI)
  have l: "length (encode_dn (parts_rdns ps)) < 2 ^ 24" "parts_rdns ps \<noteq> []" "ps \<noteq> []"
    using assms(1,2) by (simp_all add: IDTOA_BUF_def parts_ok_def)
  have ok: "list_all part_ok ps" using assms(1) by (simp add: parts_ok_def)
  then have "\<forall>p \<in> set ps. nul \<notin> set (snd (snd p))" by (fastforce simp: part_ok_def plain_value_def list_all_iff)
  from names_text_canonical [OF this, of True] have "names_text True (map entry_of (parts_rdns ps)) = t" using assms(4) by simp
  then show "dntoa dstlen (Some (snd (atodn (parts_text ps)))) = Inr (Some (take (dstlen - 1) t), min dstlen (length t))"
    using dntoa_encoded [OF l(1,2), of dstlen] atodn_parts [OF assms(1,2)] assms(3) by (auto simp: format_chunk_def)
  have t: "parts_text (canonical_parts [] ps) = t" using canonical_parts_text [of "[]" ps] l(3) assms(4) by simp
  have "parts_ok (canonical_parts [] ps)" using canonical_parts_ok [OF ok, of "[]"] l(3) by (cases ps) (auto simp: parts_ok_def)
  from atodn_parts [OF this] show "atodn t = atodn (parts_text ps)"
    using canonical_parts_rdns [OF ok, of "[]"] assms(2) atodn_parts [OF assms(1,2)] unfolding t by simp
  show "t = parts_text ps" if "ps = canonical_parts [] ps" using t that by simp
qed

lemma rdn_of_CO:
  "rdn_of (''C'', v) = (([0x55, 0x04, 0x06], ASN1_PRINTABLESTRING), ascii v)"
  "rdn_of (''O'', v) = (([0x55, 0x04, 0x0A], ASN1_PRINTABLESTRING), ascii v)"
  by (rule rdn_of_keyword, simp add: x501rdns_def)+

lemmas encode_eval = encode_rdn_def encode_body_def code_asn1_length_def ascii_def

theorem dntoa_inverts_atodn_witness:
  "dntoa 64 (Some (snd (atodn ''/c=CH,O=x''))) = Inr (Some ''C=CH, O=x'', 9) \<and> atodn ''C=CH, O=x'' = atodn ''/c=CH,O=x''"
proof -
  let ?ps = "[(''/'', ''c'', ''CH''), ('','', ''O'', ''x'')]"
  have f: "find_rdn_name ''c'' = Some (''C'', [0x55, 0x04, 0x06], ASN1_PRINTABLESTRING)"
      "find_rdn_name ''O'' = Some (''O'', [0x55, 0x04, 0x0A], ASN1_PRINTABLESTRING)" by code_simp+
  have r: "rdn_of (''c'', v) = (([0x55, 0x04, 0x06], ASN1_PRINTABLESTRING), ascii v)" for v by (rule rdn_of_found [OF f(1)])
  have "parts_ok ?ps" by (auto simp: parts_ok_def part_ok_def f plain_value_def nul_def separators_def between_def)
  moreover have "1 + ASN1_MAX_LEN_LEN + length (encode_dn (parts_rdns ?ps)) \<le> IDTOA_BUF"
    by (simp add: r rdn_of_CO encode_eval ASN1_MAX_LEN_LEN_def IDTOA_BUF_def)
  moreover have "canonical_text ?ps = ''C=CH, O=x''" by (simp add: canonical_text_def canonical_def r rdn_of_CO keyword_oids)
  ultimately show ?thesis using dntoa_inverts_atodn [of ?ps 64 "''C=CH, O=x''"] by simp
qed

section \<open>What the text does not tell\<close>

lemma print_chars_append: "0 \<notin> set v \<Longrightarrow> print_chars (v @ w) = print_chars v @ print_chars w"
  by (induction v) (auto simp: print_chars_def)

text \<open>One RDN whose value goes on with a separator, a keyword and a value, and the two RDNs.\<close>

lemma dntoa_separator:
  assumes "0 \<notin> set v" "nul \<notin> set (oid_text (fst ot2))"
    and "length (encode_dn [(ot1, v @ ascii ('', '' @ oid_text (fst ot2) @ ''='') @ w)]) < 2 ^ 24"
    and "length (encode_dn [(ot1, v), (ot2, w)]) < 2 ^ 24"
  shows "dntoa dstlen (Some (der_name [(ot1, v @ ascii ('', '' @ oid_text (fst ot2) @ ''='') @ w)])) =
    dntoa dstlen (Some (der_name [(ot1, v), (ot2, w)]))"
proof -
  let ?sep = "'', '' @ oid_text (fst ot2) @ ''=''"
  have n: "nul \<notin> set ?sep" using assms(2) by (auto simp: nul_def)
  have "0 \<notin> set (ascii ?sep)" using n of_char_nul unfolding ascii_def by (metis (no_types, lifting) imageE list.set_map)
  then have "print_chars (v @ ascii ?sep @ w) = print_chars v @ ?sep @ print_chars w"
    using print_chars_append [OF assms(1)] print_chars_append [of "ascii ?sep" w] print_chars_ascii [OF n] by simp
  moreover have "re_value (entry_of (ot, x)) = x" "re_oid (entry_of (ot, x)) = fst ot" for ot x
    by (simp_all add: entry_of_def split: prod.splits)
  ultimately have "names_text True (map entry_of [(ot1, v @ ascii ?sep @ w)]) = names_text True (map entry_of [(ot1, v), (ot2, w)])"
    by (simp add: entry_text_def)
  then show ?thesis using dntoa_encoded [OF assms(3)] dntoa_encoded [OF assms(4)] by simp
qed

end
