(* ===== verification/IdentityProps.thy ===== *)
theory IdentityProps
  imports Identity AddressFacts DnText
begin

text \<open>
  The properties of identities: what \<^verbatim>\<open>same_id\<close> compares, what matching names in any order accepts,
  and what the escaping of text for the shell guarantees and where its assertion fails.
\<close>

section \<open>Comparing identities\<close>

lemma tolower_octet_0 [simp]: "tolower_octet x = 0 \<longleftrightarrow> x = 0"
proof (cases "65 \<le> x \<and> x \<le> 90")
  case True
  then have "unat x + 32 < 256" by (simp add: word_le_nat_alt)
  then have "unat (x + 32) = unat x + 32" by (simp add: unat_word_ariths)
  then have "x + 32 \<noteq> 0" by (metis add_is_0 unat_0 zero_neq_numeral)
  moreover have "x \<noteq> 0" using True by auto
  ultimately show ?thesis by (simp add: tolower_octet_def)
qed (auto simp: tolower_octet_def)

lemma strncaseeq_text:
  "length a = length b \<Longrightarrow> strncaseeq_octets a b \<longleftrightarrow>
     map tolower_octet (takeWhile (\<lambda>c. c \<noteq> 0) a) = map tolower_octet (takeWhile (\<lambda>c. c \<noteq> 0) b)"
proof (induction a b rule: list_induct2)
  case (Cons x xs y ys)
  have "tolower_octet x = tolower_octet y \<Longrightarrow> x = 0 \<longleftrightarrow> y = 0" by (metis tolower_octet_0)
  then show ?case using Cons.IH by auto
qed simp

text \<open>
  The content that identities of a kind are compared by: the address, the text up to a NUL octet in
  lower case without the dots at the end (and its whole length), the octets of a key identifier.
\<close>

definition id_content :: "ident \<Rightarrow> nat \<times> byte list" where
  "id_content i =
     (if kind i = ID_IPV4_ADDR \<or> kind i = ID_IPV6_ADDR then (sin_family (ip_addr i), sin_bytes (ip_addr i))
      else if kind i = ID_FQDN \<or> kind i = ID_USER_FQDN then
        (length (strip_dots (id_name i)), map tolower_octet (takeWhile (\<lambda>c. c \<noteq> 0) (strip_dots (id_name i))))
      else if kind i = ID_KEY_ID then (0, id_name i) else (0, []))"

definition plain_id :: "ident \<Rightarrow> bool" where
  "plain_id i \<longleftrightarrow> kind i \<in> {ID_FQDN, ID_USER_FQDN, ID_KEY_ID, ID_NULL} \<or>
     (kind i = ID_IPV4_ADDR \<or> kind i = ID_IPV6_ADDR) \<and> wf_addr (ip_addr i)"

text \<open>
  C32: For identities other than wildcards and distinguished names, \<^verbatim>\<open>same_id\<close> compares kind and
  content, and so is an equivalence: addresses by family and octets, host and user names without
  the dots at the end and in any case, key identifiers by their octets, \<^verbatim>\<open>ID_NULL\<close> always.
\<close>

theorem same_id_compares_content:
  assumes "plain_id a" "plain_id b"
  shows "same_id my a b = Inr (kind a = kind b \<and> id_content a = id_content b)"
proof -
  have k: "kind i \<noteq> ID_MYID \<and> kind i \<noteq> ID_NONE" if "plain_id i" for i using that by (auto simp: plain_id_def id_kinds)
  have r: "resolve_myid my a = a" "resolve_myid my b = b" using k assms by (auto simp: resolve_myid_def)
  show ?thesis
  proof (cases "kind a = kind b")
    case True
    consider "kind a = ID_IPV4_ADDR \<or> kind a = ID_IPV6_ADDR" | "kind a = ID_FQDN \<or> kind a = ID_USER_FQDN"
      | "kind a = ID_KEY_ID" | "kind a = ID_NULL" using assms(1) by (auto simp: plain_id_def)
    then show ?thesis
    proof cases
      case 1
      then have "wf_addr (ip_addr a)" "wf_addr (ip_addr b)" using assms True by (auto simp: plain_id_def id_kinds)
      then show ?thesis using 1 True r by (auto simp: same_id_def id_content_def sameaddr_iff id_kinds)
    next
      case 2
      then show ?thesis using True r
        by (auto simp: same_id_def id_content_def same_fqdn_def strncaseeq_text id_kinds simp del: strip_dots.simps)
    qed (use True r in \<open>simp_all add: same_id_def id_content_def id_kinds\<close>)
  qed (use k assms r in \<open>simp add: same_id_def Let_def\<close>)
qed

definition fqdn_id :: "chunk \<Rightarrow> ident" where
  "fqdn_id n = empty_id\<lparr>kind := ID_FQDN, id_name := n\<rparr>"

theorem same_id_compares_content_witness:
  "same_id \<lparr>my_state = MYID_UNKNOWN, myids = (\<lambda>_. empty_id)\<rparr> (fqdn_id [0x41, 0x2E]) (fqdn_id [0x61]) = Inr True"
  by (subst same_id_compares_content)
    (simp_all add: fqdn_id_def plain_id_def id_content_def tolower_octet_def id_kinds)

section \<open>Names in any order\<close>

lemma match_ava_plain:
  "match_ava nss False b as = (\<exists>a \<in> set as. CERT_GetAVATag nss a = CERT_GetAVATag nss b \<and> CERT_CompareAVA nss a b, False)"
  by (induction as) auto

text \<open>An RDN is within another when each of its parts is equal to a part of the other.\<close>

definition rdn_within :: "'ava nss \<Rightarrow> 'ava list \<Rightarrow> 'ava list \<Rightarrow> bool" where
  "rdn_within nss rdn_b rdn_a \<longleftrightarrow> rdn_b \<noteq> [] \<and>
     (\<forall>b \<in> set rdn_b. \<exists>a \<in> set rdn_a. CERT_GetAVATag nss a = CERT_GetAVATag nss b \<and> CERT_CompareAVA nss a b)"

lemma all_matched: "length (filter P xs) = length xs \<longleftrightarrow> (\<forall>x \<in> set xs. P x)"
  by (metis filter_True length_filter_less nat_neq_iff)

lemma match_rdn_plain: "match_rdn nss False rdn_a rdn_b = (rdn_within nss rdn_b rdn_a, False)"
proof -
  let ?rs = "map (\<lambda>b. match_ava nss False b rdn_a) rdn_b"
  have "length (filter fst ?rs) = length rdn_b \<longleftrightarrow>
      (\<forall>b \<in> set rdn_b. \<exists>a \<in> set rdn_a. CERT_GetAVATag nss a = CERT_GetAVATag nss b \<and> CERT_CompareAVA nss a b)"
    using all_matched [of fst ?rs] by (simp add: match_ava_plain)
  moreover have "\<not> list_ex snd ?rs" by (simp add: match_ava_plain list_ex_iff)
  ultimately show ?thesis unfolding match_rdn_def Let_def rdn_within_def by auto
qed

lemma match_one_rdn_plain: "match_one_rdn nss False rdn_b as = (\<exists>rdn_a \<in> set as. rdn_within nss rdn_b rdn_a, False)"
  by (induction as) (auto simp: match_rdn_plain split: bool.splits)

text \<open>
  C33: \<^verbatim>\<open>match_dn_unordered\<close> without wildcards accepts exactly when the second name has an RDN and
  each of its RDNs is within some RDN of the first. Nothing asks for the converse: a first name
  with any further RDNs, in any number, is accepted as well.
\<close>

theorem match_dn_unordered_accepts:
  assumes "dntoa ASN1_BUF_LEN (Some a) = Inr (Some abuf, na)" "dntoa ASN1_BUF_LEN (Some b) = Inr (Some bbuf, nb)"
    and "CERT_AsciiToName nss abuf = Some as" "CERT_AsciiToName nss bbuf = Some bs"
  shows "match_dn_unordered nss a b None =
    Inr (bs \<noteq> [] \<and> (\<forall>rdn_b \<in> set bs. \<exists>rdn_a \<in> set as. rdn_within nss rdn_b rdn_a), None)"
proof -
  let ?rs = "map (\<lambda>rdn_b. match_one_rdn nss False rdn_b as) bs"
  have "length (filter fst ?rs) = length bs \<longleftrightarrow> (\<forall>rdn_b \<in> set bs. \<exists>rdn_a \<in> set as. rdn_within nss rdn_b rdn_a)"
    using all_matched [of fst ?rs] by (simp add: match_one_rdn_plain)
  then have m: "0 < length (filter fst ?rs) \<and> 0 < length bs \<and> length (filter fst ?rs) = length bs \<longleftrightarrow>
      bs \<noteq> [] \<and> (\<forall>rdn_b \<in> set bs. \<exists>rdn_a \<in> set as. rdn_within nss rdn_b rdn_a)"
    by (metis length_greater_0_conv)
  show ?thesis using assms m by (simp only: match_dn_unordered_def Let_def) simp
qed

text \<open>A library that reads the two texts below, with the values of the parts as its AVAs.\<close>

definition sample_nss :: "(int \<times> chunk) nss" where
  "sample_nss = \<lparr>CERT_AsciiToName = (\<lambda>t. if t = ''C=CH, O=x'' then Some [[(6, [0x43, 0x48])], [(10, [0x78])]]
       else if t = ''O=x'' then Some [[(10, [0x78])]] else None),
     CERT_GetAVATag = fst, CERT_DecodeAVAValue = (\<lambda>a. Some (snd a)), CERT_CompareAVA = (=)\<rparr>"

definition co_name :: "(chunk \<times> byte) \<times> chunk" where
  "co_name = (([0x55, 0x04, 0x0A], ASN1_PRINTABLESTRING), ascii ''x'')"

lemma sample_texts:
  "dntoa ASN1_BUF_LEN (Some (der_name [(([0x55, 0x04, 0x06], ASN1_PRINTABLESTRING), ascii ''CH''), co_name])) = Inr (Some ''C=CH, O=x'', 9)"
  "dntoa ASN1_BUF_LEN (Some (der_name [co_name])) = Inr (Some ''O=x'', 3)"
  by (subst dntoa_encoded, simp add: encode_eval co_name_def, simp, simp add: entry_of_def entry_text_def keyword_oids print_chars_ascii nul_def co_name_def format_chunk_def ASN1_BUF_LEN_def)+

theorem match_dn_unordered_accepts_witness:
  "match_dn_unordered sample_nss (der_name [(([0x55, 0x04, 0x06], ASN1_PRINTABLESTRING), ascii ''CH''), co_name])
     (der_name [co_name]) None = Inr (True, None)"
proof -
  have "CERT_AsciiToName sample_nss ''C=CH, O=x'' = Some [[(6, [0x43, 0x48])], [(10, [0x78])]]"
    "CERT_AsciiToName sample_nss ''O=x'' = Some [[(10, [0x78])]]" by (simp_all add: sample_nss_def)
  from match_dn_unordered_accepts [OF sample_texts this] show ?thesis
    by (simp add: rdn_within_def) (simp add: sample_nss_def)
qed

text \<open>
  C26: The comparison in any order goes through the printed text, in which a separator within a
  value is not marked. A name with one RDN whose value holds a separator, a keyword and
  another value is compared like the name with the two RDNs, whatever the library does with the text.
\<close>

theorem match_dn_unordered_separator:
  assumes "0 \<notin> set v" "nul \<notin> set (oid_text (fst ot2))"
    and "length (encode_dn [(ot1, v @ ascii ('', '' @ oid_text (fst ot2) @ ''='') @ w)]) < 2 ^ 24"
    and "length (encode_dn [(ot1, v), (ot2, w)]) < 2 ^ 24"
  shows "match_dn_unordered nss (der_name [(ot1, v @ ascii ('', '' @ oid_text (fst ot2) @ ''='') @ w)]) b wild =
    match_dn_unordered nss (der_name [(ot1, v), (ot2, w)]) b wild"
  unfolding match_dn_unordered_def by (simp only: dntoa_separator [OF assms])

theorem match_dn_unordered_separator_witness:
  "match_dn_unordered sample_nss (der_name [(([0x55, 0x04, 0x0A], ASN1_PRINTABLESTRING), ascii ''x, C=CH'')]) (der_name [co_name]) None =
   match_dn_unordered sample_nss (der_name [(([0x55, 0x04, 0x0A], ASN1_PRINTABLESTRING), ascii ''x''),
     (([0x55, 0x04, 0x06], ASN1_PRINTABLESTRING), ascii ''CH'')]) (der_name [co_name]) None"
proof -
  have a: "ascii ''x, C=CH'' = ascii ''x'' @ ascii ('', '' @ oid_text [0x55, 0x04, 0x06] @ ''='') @ ascii ''CH''"
    by (simp add: ascii_def keyword_oids)
  show ?thesis unfolding a
    using match_dn_unordered_separator [of "ascii ''x''" "([0x55, 0x04, 0x06], ASN1_PRINTABLESTRING)"
      "([0x55, 0x04, 0x0A], ASN1_PRINTABLESTRING)" "ascii ''CH''" sample_nss "der_name [co_name]" None]
    by (simp add: encode_eval keyword_oids nul_def)
qed

text \<open>
  C25: A name without an RDN is compared through an uninitialised buffer. If the name of the first identity is
  a SEQUENCE of length zero, which a peer may send, and the second is a distinguished name that has an
  RDN or cannot be parsed, the exact comparison fails, \<^verbatim>\<open>dntoa\<close> writes nothing for the first, and
  \<^verbatim>\<open>match_dn_unordered\<close> hands the local array, to which nothing was written, to the library.
\<close>

theorem empty_name_uninitialised:
  assumes "kind a = ID_DER_ASN1_DN" "kind b = ID_DER_ASN1_DN" "id_name b \<noteq> []"
    and "dn_entries (id_name a) = Ok []" "dn_entries (id_name b) \<noteq> Ok []"
  shows "match_id nss my a b = Inl Uninitialised"
proof -
  let ?a = "id_name a" and ?b = "id_name b"
  have ne: "?a \<noteq> []" using assms(4) by (auto simp: dn_entries_def init_rdn_def)
  obtain ra where ia: "init_rdn ?a = Ok (ra, False)" using dn_entries_empty assms(4) by blast
  have "match_dn ?a ?b True = Inr (False, Some 0)"
  proof (cases "init_rdn ?b")
    case (Ok r)
    then have "snd r" using assms(5) dn_entries_empty [of ?b] by (cases r) (metis snd_conv)
    then show ?thesis using ia Ok by (cases r) (simp add: match_dn_def match_rdns.simps [of ra])
  qed (use ia init_rdn_safe [OF assms(3)] in \<open>simp_all add: match_dn_def\<close>)
  moreover obtain na where "dntoa ASN1_BUF_LEN (Some ?a) = Inr (None, na)"
    using dntoa_fits [OF ne, of ASN1_BUF_LEN] assms(4) by auto
  moreover obtain r where "dntoa ASN1_BUF_LEN (Some ?b) = Inr r" using dntoa_fits [OF assms(3), of ASN1_BUF_LEN] by blast
  ultimately have "match_dn_any_order_wild nss ?a ?b = Inl Uninitialised"
    by (cases r) (simp add: match_dn_any_order_wild_def match_dn_unordered_def)
  then show ?thesis using assms(1,2) by (simp add: match_id_def id_kinds)
qed

theorem empty_name_uninitialised_witness:
  "match_id sample_nss \<lparr>my_state = MYID_UNKNOWN, myids = (\<lambda>_. empty_id)\<rparr>
     (empty_id\<lparr>kind := ID_DER_ASN1_DN, id_name := [0x30, 0]\<rparr>)
     (empty_id\<lparr>kind := ID_DER_ASN1_DN, id_name := der_name [co_name]\<rparr>) = Inl Uninitialised"
proof -
  have "dn_entries [0x30, 0] = Ok []"
    by (simp add: dn_entries_def init_rdn_def asn1_length_def asn1_types rdn_entries.simps [of _ _ False])
  moreover have "dn_entries (der_name [co_name]) \<noteq> Ok []"
    using dn_entries_encoded [of "[co_name]"] by (simp add: co_name_def encode_eval)
  ultimately show ?thesis by (intro empty_name_uninitialised) simp_all
qed

section \<open>Text for the shell\<close>

definition shell_active :: "char \<Rightarrow> bool" where
  "shell_active c \<longleftrightarrow> c = CHR 0x27 \<or> c = CHR 0x22 \<or> c = CHR 0x60 \<or> c = CHR ''$''"

lemma escape_inactive: "is_metachar c \<Longrightarrow> d \<in> set (metachar_escape c) \<Longrightarrow> \<not> shell_active d"
  unfolding is_metachar_def
  by (elim disjE) (auto simp: metachar_escape_def octal_def shell_active_def char_of_def)

lemma escape_length:
  "is_metachar c \<Longrightarrow> length (metachar_escape c) = (if c = CHR 0x5C \<or> c = CHR 0x60 then 6 else 5)"
  unfolding is_metachar_def
  by (elim disjE) (simp_all add: metachar_escape_def octal_def)

lemma escape_metachar_inactive:
  "escape_metachar src dstlen = Ok s \<Longrightarrow> length s < dstlen \<and> (\<forall>c \<in> set s. \<not> shell_active c)"
proof (induction src dstlen arbitrary: s rule: escape_metachar.induct)
  case step: (2 c src dstlen)
  show ?case
  proof (cases "dstlen > 5 \<and> is_metachar c")
    case True
    then obtain s' where "length (metachar_escape c) < dstlen"
        "escape_metachar src (dstlen - length (metachar_escape c)) = Ok s'" "s = metachar_escape c @ s'"
      using step.prems by (auto simp: Let_def bind_outcome_Ok_iff split: if_splits)
    moreover from this have "length s' < dstlen - length (metachar_escape c) \<and> (\<forall>d \<in> set s'. \<not> shell_active d)"
      using True by (intro step.IH(1) [OF _ _ refl refl]) auto
    ultimately show ?thesis using True escape_inactive [of c] by auto
  next
    case False
    note no = this
    show ?thesis
    proof (cases "dstlen > 5")
      case True
      then obtain s' where s: "escape_metachar src (dstlen - 1) = Ok s'" "s = c # s'"
        using step.prems no by (auto simp: bind_outcome_Ok_iff)
      then have "length s' < dstlen - 1 \<and> (\<forall>d \<in> set s'. \<not> shell_active d)"
        using True no by (intro step.IH(2)) auto
      moreover have "\<not> shell_active c" using no True by (auto simp: shell_active_def is_metachar_def)
      ultimately show ?thesis using s(2) by auto
    qed (use step.prems in \<open>auto split: if_splits\<close>)
  qed
qed (auto split: if_splits)

lemma escape_metachar_total:
  "1 \<le> dstlen \<Longrightarrow> CHR 0x5C \<notin> set src \<Longrightarrow> CHR 0x60 \<notin> set src \<Longrightarrow> \<exists>s. escape_metachar src dstlen = Ok s"
proof (induction src arbitrary: dstlen)
  case (Cons c src)
  show ?case
  proof (cases "dstlen > 5 \<and> is_metachar c")
    case True
    then have n: "length (metachar_escape c) = 5" using Cons.prems by (auto simp: escape_length)
    then obtain s where "escape_metachar src (dstlen - 5) = Ok s" using Cons.IH [of "dstlen - 5"] Cons.prems True by fastforce
    then show ?thesis using True n by (simp add: Let_def)
  next
    case False
    show ?thesis
    proof (cases "dstlen > 5")
      case True
      then obtain s where "escape_metachar src (dstlen - 1) = Ok s" using Cons.IH [of "dstlen - 1"] Cons.prems by fastforce
      then show ?thesis using True False by simp
    qed (use Cons.prems in simp)
  qed
qed auto

text \<open>
  C34: Text that \<^verbatim>\<open>escape_metachar\<close> returns fits the buffer with its NUL and has no quote, backquote or
  dollar sign, so the shell expands nothing in it; without a backslash or a backquote in
  the source, it always returns.
\<close>

theorem escape_metachar_safe_text:
  "(\<forall>s. escape_metachar src dstlen = Ok s \<longrightarrow> length s < dstlen \<and> (\<forall>c \<in> set s. \<not> shell_active c)) \<and>
   (1 \<le> dstlen \<and> CHR 0x5C \<notin> set src \<and> CHR 0x60 \<notin> set src \<longrightarrow> (\<exists>s. escape_metachar src dstlen = Ok s))"
  using escape_metachar_inactive escape_metachar_total by blast

theorem escape_metachar_safe_text_witness:
  "\<exists>s. escape_metachar ''$(id)'' 512 = Ok s \<and> length s < 512 \<and> CHR ''$'' \<notin> set s"
proof -
  have "CHR 0x5C \<notin> set ''$(id)''" "CHR 0x60 \<notin> set ''$(id)''" "1 \<le> (512 :: nat)" by simp_all
  with escape_metachar_safe_text [of "''$(id)''" 512] obtain s where "escape_metachar ''$(id)'' 512 = Ok s" by blast
  moreover from this have "length s < 512 \<and> (\<forall>c \<in> set s. \<not> shell_active c)"
    using escape_metachar_safe_text [of "''$(id)''" 512] by blast
  ultimately show ?thesis unfolding shell_active_def by blast
qed

lemma escape_metachar_plain:
  "\<forall>c \<in> set p. \<not> is_metachar c \<Longrightarrow> 5 < n \<Longrightarrow>
     escape_metachar (p @ src) (length p + n) = bind_outcome (escape_metachar src n) (\<lambda>s. Ok (p @ s))"
proof (induction p)
  case Nil
  then show ?case by (cases "escape_metachar src n") auto
next
  case (Cons c p)
  then show ?case by (cases "escape_metachar src n") auto
qed

text \<open>
  C24: A backslash or a backquote that finds exactly six octets of the buffer left brings the
  daemon down: the loop admits it (more than five are left), its escape takes six characters
  where five were planned for, and the assertion that the text was not truncated fails. An
  identity sent by a peer chooses that position.
\<close>

theorem escape_metachar_aborts:
  assumes "\<forall>c \<in> set p. \<not> is_metachar c" "c = CHR 0x5C \<or> c = CHR 0x60"
  shows "escape_metachar (p @ c # src) (length p + 6) = Abort Passert"
proof -
  have "is_metachar c" using assms(2) by (auto simp: is_metachar_def)
  then have "escape_metachar (c # src) 6 = Abort Passert" using assms(2) by (simp add: escape_length)
  then show ?thesis using escape_metachar_plain [OF assms(1), of 6 "c # src"] by simp
qed

theorem escape_metachar_aborts_witness:
  "escape_metachar (replicate 506 (CHR ''a'') @ [CHR 0x60]) 512 = Abort Passert"
  using escape_metachar_aborts [of "replicate 506 (CHR ''a'')" "CHR 0x60" "[]"] by (simp add: is_metachar_def)

end
