(* ===== verification/AddressPool.thy ===== *)
theory AddressPool
  imports AddressFacts Identity
begin

text \<open>
  Address pools, \<^verbatim>\<open>programs/pluto/addresspool.c\<close>: a pool is a range of IPv4 addresses with the
  list of its leases in increasing order of their index. A connection carries what the pool
  code reads of it: the identity of the peer, whether it has a lease, the leased address and its
  pool. Pools are told apart by a number that stands for their address in memory. The counts of
  references are \<^verbatim>\<open>unsigned\<close> and wrap at 32 bits, as the code increments them without a bound.
\<close>

section \<open>Leases and pools\<close>

record lease_addr =
  index :: u32
  thatid :: ident
  refcnt :: u32
  lingering_since :: int

record ip_pool =
  pool_ptr :: nat
  pool_refcount :: u32
  pool_range :: ip_range
  pool_size :: u32
  used :: u32
  lingering :: u32
  leases :: "lease_addr list"

record connection =
  that_id :: ident
  has_lease :: bool
  client_addr :: ip_address
  conn_pool :: "nat option"

text \<open>\<^verbatim>\<open>ID_NONE\<close> is the constant 0, so \<^verbatim>\<open>(ID_NONE && uniqueIDs)\<close> is false.\<close>

definition could_share_lease :: "connection \<Rightarrow> bool" where
  "could_share_lease c \<longleftrightarrow> kind (that_id c) \<noteq> ID_NULL \<or> (ID_NONE \<noteq> 0)"

definition ntohl_addr :: "ip_address \<Rightarrow> u32" where
  "ntohl_addr a = of_nat (be_nat (take 4 (sin_bytes a)))"

definition range_start :: "ip_pool \<Rightarrow> u32" where
  "range_start pool = ntohl_addr (r_start (pool_range pool))"

text \<open>\<^verbatim>\<open>ref_to_lease\<close>: the lease with an index and the leases before and after it.\<close>

fun ref_to_lease :: "lease_addr list \<Rightarrow> u32 \<Rightarrow> (lease_addr list \<times> lease_addr \<times> lease_addr list) option" where
  "ref_to_lease [] i = None"
| "ref_to_lease (p # ps) i =
     (if index p = i then Some ([], p, ps)
      else map_option (\<lambda>(before, q, after). (p # before, q, after)) (ref_to_lease ps i))"

section \<open>Releasing\<close>

definition rel_lease_addr :: "int \<Rightarrow> connection \<Rightarrow> ip_pool \<Rightarrow> (string, connection \<times> ip_pool) outcome" where
  "rel_lease_addr now c pool =
     (if \<not> has_lease c then Ok (c, pool)
      else if addrtypeof (client_addr c) \<noteq> AF_INET then Abort Passert
      else
        let i = ntohl_addr (client_addr c) - range_start pool in
        if \<not> i < pool_size pool then Abort Passert
        else (case ref_to_lease (leases pool) i of
            None \<Rightarrow> Abort Passert
          | Some (before, p, after) \<Rightarrow>
              bind_outcome
                (if could_share_lease c then
                   (if \<not> refcnt p > 0 then Abort Passert
                    else if refcnt p - 1 = 0 then
                      Ok (pool\<lparr>lingering := lingering pool + 1,
                        leases := before @ p\<lparr>refcnt := 0, lingering_since := now\<rparr> # after\<rparr>)
                    else Ok (pool\<lparr>leases := before @ p\<lparr>refcnt := refcnt p - 1\<rparr> # after\<rparr>))
                 else
                   (if \<not> refcnt p = 1 then Abort Passert
                    else Ok (pool\<lparr>used := used pool - 1, leases := before @ after\<rparr>)))
                (\<lambda>pool'. Ok (c\<lparr>has_lease := False\<rparr>, pool'))))"

section \<open>Leasing\<close>

text \<open>\<^verbatim>\<open>share_lease\<close>: the first lease held by the same identity, with one reference more.\<close>

fun share_scan :: "myid_vars \<Rightarrow> ident \<Rightarrow> lease_addr list \<Rightarrow>
    fault + (lease_addr list \<times> lease_addr \<times> lease_addr list) option" where
  "share_scan my i [] = Inr None"
| "share_scan my i (p # ps) =
     (case same_id my (thatid p) i of
        Inl f \<Rightarrow> Inl f
      | Inr True \<Rightarrow> Inr (Some ([], p, ps))
      | Inr False \<Rightarrow>
          map_sum id (map_option (\<lambda>(before, q, after). (p # before, q, after))) (share_scan my i ps))"

definition share_lease :: "myid_vars \<Rightarrow> connection \<Rightarrow> ip_pool \<Rightarrow> fault + (u32 \<times> ip_pool) option" where
  "share_lease my c pool =
     (if \<not> could_share_lease c then Inr None
      else case share_scan my (that_id c) (leases pool) of
        Inl f \<Rightarrow> Inl f
      | Inr None \<Rightarrow> Inr None
      | Inr (Some (before, p, after)) \<Rightarrow>
          let pool' = (if refcnt p = 0
                then pool\<lparr>lingering := lingering pool - 1, used := used pool + 1\<rparr> else pool)
          in Inr (Some (index p, pool'\<lparr>leases := before @ p\<lparr>refcnt := refcnt p + 1\<rparr> # after\<rparr>)))"

text \<open>
  The search for the first index without a lease. \<open>ll\<close> is the lingering lease remembered on the
  way; \<open>passed\<close> are the leases before the gap.
\<close>

definition monobefore :: "int \<Rightarrow> int \<Rightarrow> bool" where
  "monobefore a b \<longleftrightarrow> a < b"

fun scan_gap :: "lease_addr list \<Rightarrow> u32 \<Rightarrow> lease_addr option \<Rightarrow> lease_addr list \<Rightarrow>
    fault + u32 \<times> lease_addr option \<times> lease_addr list \<times> lease_addr list" where
  "scan_gap [] i ll passed = Inr (i, ll, passed, [])"
| "scan_gap (p # ps) i ll passed =
     (if \<not> index p \<ge> i then Inl Passert
      else if index p > i then Inr (i, ll, passed, p # ps)
      else
        let ll' = (if refcnt p = 0 \<and> (case ll of None \<Rightarrow> True
                     | Some l \<Rightarrow> monobefore (lingering_since l) (lingering_since p))
                   then Some p else ll)
        in scan_gap ps (index p + 1) ll' (passed @ [p]))"

definition new_lease :: "u32 \<Rightarrow> ident \<Rightarrow> lease_addr" where
  "new_lease i who = \<lparr>index = i, thatid = who, refcnt = 1, lingering_since = 0\<rparr>"

text \<open>\<^verbatim>\<open>duplicate_id\<close> on the taken-over lease frees the identity it had.\<close>

definition take_over :: "ident \<Rightarrow> lease_addr \<Rightarrow> lease_addr list \<Rightarrow> fault + lease_addr list" where
  "take_over who ll ls =
     (case duplicate_id (thatid ll) who of
        Inl f \<Rightarrow> Inl f
      | Inr i \<Rightarrow> Inr (map (\<lambda>p. if index p = index ll
          then p\<lparr>thatid := i, refcnt := refcnt p + 1\<rparr> else p) ls))"

definition allocate_lease :: "connection \<Rightarrow> ip_pool \<Rightarrow> (string, u32 \<times> ip_pool) outcome" where
  "allocate_lease c pool =
     (case scan_gap (leases pool) 0 None [] of
        Inl f \<Rightarrow> Abort f
      | Inr (i, ll, before, after) \<Rightarrow>
          if i < pool_size pool then
            Ok (i, pool\<lparr>used := used pool + 1, leases := before @ new_lease i (that_id c) # after\<rparr>)
          else (case ll of
              Some l \<Rightarrow>
                (case take_over (that_id c) l (leases pool) of
                   Inl f \<Rightarrow> Abort f
                 | Inr ls \<Rightarrow> Ok (index l, pool\<lparr>lingering := lingering pool - 1, leases := ls\<rparr>))
            | None \<Rightarrow>
                if pool_size pool = used pool then Err ''no free address in addresspool''
                else Abort Passert))"

definition addr_of_index :: "ip_pool \<Rightarrow> u32 \<Rightarrow> ip_address err" where
  "addr_of_index pool i = initaddr (be_bytes 4 (range_start pool + i)) AF_INET"

definition lease_an_address :: "myid_vars \<Rightarrow> connection \<Rightarrow> ip_pool \<Rightarrow> (string, ip_address \<times> ip_pool) outcome" where
  "lease_an_address my c pool =
     bind_outcome
       (case share_lease my c pool of
          Inl f \<Rightarrow> Abort f
        | Inr (Some r) \<Rightarrow> Ok r
        | Inr None \<Rightarrow> allocate_lease c pool)
       (\<lambda>(i, pool'). bind_outcome (outcome_of (addr_of_index pool' i)) (\<lambda>ipa. Ok (ipa, pool')))"

section \<open>The list of pools\<close>

fun free_addresspool :: "nat \<Rightarrow> ip_pool list \<Rightarrow> ip_pool list" where
  "free_addresspool ptr [] = []"
| "free_addresspool ptr (p # ps) = (if pool_ptr p = ptr then ps else p # free_addresspool ptr ps)"

definition update_pool :: "nat \<Rightarrow> (ip_pool \<Rightarrow> ip_pool) \<Rightarrow> ip_pool list \<Rightarrow> ip_pool list" where
  "update_pool ptr f ps = map (\<lambda>p. if pool_ptr p = ptr then f p else p) ps"

definition find_pool :: "nat \<Rightarrow> ip_pool list \<Rightarrow> ip_pool option" where
  "find_pool ptr ps = find (\<lambda>p. pool_ptr p = ptr) ps"

definition unreference_addresspool :: "connection \<Rightarrow> ip_pool list \<Rightarrow> (string, connection \<times> ip_pool list) outcome" where
  "unreference_addresspool c ps =
     (case conn_pool c of
        None \<Rightarrow> Abort Out_of_bounds
      | Some ptr \<Rightarrow>
          (case find_pool ptr ps of
             None \<Rightarrow> Abort Out_of_bounds
           | Some pool \<Rightarrow>
               if \<not> pool_refcount pool > 0 then Abort Passert
               else if pool_refcount pool - 1 = 0 then Ok (c\<lparr>conn_pool := None\<rparr>, free_addresspool ptr ps)
               else Ok (c\<lparr>conn_pool := None\<rparr>,
                 update_pool ptr (\<lambda>p. p\<lparr>pool_refcount := pool_refcount p - 1\<rparr>) ps)))"

definition reference_addresspool :: "nat \<Rightarrow> ip_pool list \<Rightarrow> ip_pool list" where
  "reference_addresspool ptr ps = update_pool ptr (\<lambda>p. p\<lparr>pool_refcount := pool_refcount p + 1\<rparr>) ps"

fun find_addresspool :: "ip_range \<Rightarrow> ip_pool list \<Rightarrow> ip_pool option err" where
  "find_addresspool a [] = Inr None"
| "find_addresspool a (h # hs) =
     (let b = pool_range h; sc = addrcmp (r_start a) (r_start b) in
      if sc = 0 \<and> addrcmp (r_end a) (r_end b) = 0 then Inr (Some h)
      else if (if sc < 0 then addrcmp (r_end a) (r_start b) < 0 else addrcmp (r_start a) (r_end b) > 0)
        then find_addresspool a hs
      else Inl ''ERROR: partial overlap of addresspool'')"

text \<open>The number of a new pool is a parameter: an address no other pool has.\<close>

definition install_addresspool :: "nat \<Rightarrow> ip_range \<Rightarrow> ip_pool list \<Rightarrow> ip_pool option \<times> ip_pool list" where
  "install_addresspool fresh a ps =
     (case find_addresspool a ps of
        Inl _ \<Rightarrow> (None, ps)
      | Inr (Some p) \<Rightarrow> (Some p, ps)
      | Inr None \<Rightarrow>
          let p = \<lparr>pool_ptr = fresh, pool_refcount = 0, pool_range = a,
                pool_size = ntohl_addr (r_end a) - ntohl_addr (r_start a) + 1,
                used = 0, lingering = 0, leases = []\<rparr>
          in (Some p, p # ps))"

section \<open>Granting an address to a peer\<close>

text \<open>
  What \<^verbatim>\<open>ikev2_cp_reply_state\<close> does with a lease: the connection takes the address as its client
  address and is marked as having a lease. It does not ask whether the connection has one already, so
  each further request of the same peer adds a reference. The child state it makes in between is not part of
  this model.
\<close>

definition grant_lease :: "myid_vars \<Rightarrow> connection \<Rightarrow> ip_pool \<Rightarrow> (string, connection \<times> ip_pool) outcome" where
  "grant_lease my c pool =
     bind_outcome (lease_an_address my c pool)
       (\<lambda>(ipa, pool'). Ok (c\<lparr>has_lease := True, client_addr := ipa\<rparr>, pool'))"

end
