(* ===== verification/Transitions.thy ===== *)
theory Transitions
  imports Main
begin

text \<open>
  The interface between a component that changes state in steps and what holds of the states it
  reaches: an initial predicate, a step relation, and an invariant that the first establishes and
  the second keeps for a bounded number of steps, as with a counter of bounded width. The components
  that run as state machines interpret it on their own steps.
\<close>

locale counted_system =
  fixes init :: "'s \<Rightarrow> bool"
    and step :: "'s \<Rightarrow> 's \<Rightarrow> bool"
    and inv :: "nat \<Rightarrow> 's \<Rightarrow> bool"
    and bound :: nat
  assumes init_counted: "init s \<Longrightarrow> inv 0 s"
    and step_counted: "inv n s \<Longrightarrow> step s t \<Longrightarrow> Suc n < bound \<Longrightarrow> inv (Suc n) t"
begin

lemma counted_inv: "(step ^^ n) s t \<Longrightarrow> init s \<Longrightarrow> n < bound \<Longrightarrow> inv n t"
  by (induction n arbitrary: t) (auto intro: init_counted step_counted)

end

end
