(* ===== verification/AddressPoolFacts.thy ===== *)
theory AddressPoolFacts
  imports AddressPool DnProps Transitions
begin

text \<open>
  Facts of address pools: the invariant of one pool, the abstract table of leases that it
  implements, what connections and their pool can get into together, and the list of pools.
\<close>

section \<open>Addresses of a pool\<close>

lemma be_nat_be_bytes: "be_nat (be_bytes k n) = unat n mod 2 ^ (8 * k)"
proof (induction k arbitrary: n)
  case (Suc k)
  have u: "unat (drop_bit 8 n) = unat n div 256" "unat (ucast n :: byte) = unat n mod 256"
    by (simp_all only: unat_drop_bit_eq unsigned_ucast_eq) (simp_all add: drop_bit_eq_div take_bit_eq_mod)
  have "be_nat (be_bytes (Suc k) n) = be_nat (be_bytes k (drop_bit 8 n)) * 256 + unat (ucast n :: byte)"
    by (simp add: be_nat_append)
  also have "\<dots> = unat n mod (256 * 2 ^ (8 * k))"
    unfolding Suc u by (simp add: mod_mult2_eq)
  finally show ?case by (simp add: power_add)
qed simp

lemma addr_of_index_value:
  "addr_of_index pool i = Inr \<lparr>sin_family = AF_INET, sin_bytes = be_bytes 4 (range_start pool + i), sin_port = 0\<rparr>"
  by (simp add: addr_of_index_def initaddr_def)

lemma ntohl_addr_be_bytes:
  assumes "sin_bytes a = be_bytes 4 w"
  shows "ntohl_addr a = w"
proof -
  have "take 4 (be_bytes 4 w) = be_bytes 4 w" by (rule take_all) (simp only: length_be_bytes)
  then have "ntohl_addr a = of_nat (unat w mod 2 ^ 32)"
    unfolding ntohl_addr_def assms by (simp only: be_nat_be_bytes) simp
  then show ?thesis using unat_u32_bound [of w] by simp
qed

section \<open>The invariant of a pool\<close>

definition pool_ok :: "ip_pool \<Rightarrow> bool" where
  "pool_ok pool \<longleftrightarrow> sorted_wrt (<) (map index (leases pool)) \<and>
     (\<forall>p \<in> set (leases pool). index p < pool_size pool) \<and>
     lingering pool = of_nat (length (filter (\<lambda>p. refcnt p = 0) (leases pool)))"

lemma ref_to_lease_Some:
  "ref_to_lease ls i = Some (before, p, after) \<Longrightarrow> ls = before @ p # after \<and> index p = i"
  by (induction ls arbitrary: before) (auto split: if_splits)

lemma ref_to_lease_None: "ref_to_lease ls i = None \<longleftrightarrow> i \<notin> index ` set ls"
  by (induction ls) auto

lemma map_sum_Inr_iff: "map_sum id f r = Inr x \<longleftrightarrow> (\<exists>y. r = Inr y \<and> f y = x)"
  by (cases r) auto

lemma share_scan_Some:
  "share_scan my i ls = Inr (Some (before, p, after)) \<Longrightarrow> ls = before @ p # after \<and> same_id my (thatid p) i = Inr True"
  by (induction ls arbitrary: before)
    (auto simp: map_sum_Inr_iff split: sum.splits bool.splits)

lemma share_scan_None:
  "share_scan my i ls = Inr None \<Longrightarrow> p \<in> set ls \<Longrightarrow> same_id my (thatid p) i = Inr False"
  by (induction ls) (auto simp: map_sum_Inr_iff split: sum.splits bool.splits)

text \<open>The scan of a sorted list finds the first index without a lease.\<close>

lemma word_Suc:
  assumes "(i :: u32) < n"
  shows "unat (i + 1) = Suc (unat i)"
proof -
  have "unat i < unat n" using assms by (simp add: word_less_nat_alt)
  then have "unat i + 1 < 2 ^ 32" using unat_u32_bound [of n] by simp
  then show ?thesis by (simp add: unat_word_ariths)
qed

lemma scan_gap_sorted:
  assumes "sorted_wrt (<) (map index ls)" "\<forall>p \<in> set ls. index p < n \<and> i \<le> index p"
    "map (\<lambda>p. unat (index p)) passed = [0..<unat i]" "i \<le> n"
  shows "\<exists>j ll' xs ys. scan_gap ls i ll passed = Inr (j, ll', passed @ xs, ys) \<and> ls = xs @ ys \<and>
    map (\<lambda>p. unat (index p)) (passed @ xs) = [0..<unat j] \<and> j \<le> n \<and> (\<forall>p \<in> set ys. j < index p) \<and>
    (ll' = None \<longrightarrow> ll = None \<and> (\<forall>p \<in> set xs. refcnt p \<noteq> 0)) \<and>
    (\<forall>l. ll' = Some l \<longrightarrow> ll = Some l \<or> l \<in> set xs \<and> refcnt l = 0)"
  using assms
proof (induction ls arbitrary: i ll passed)
  case (Cons p ps)
  show ?case
  proof (cases "index p = i")
    case False
    then have "i < index p" using Cons.prems(2) by auto
    moreover have "\<forall>q \<in> set (p # ps). i < index q" using calculation Cons.prems(1) by auto
    ultimately show ?thesis using Cons.prems(3,4)
      by (intro exI [of _ i] exI [of _ ll] exI [of _ "[]"] exI [of _ "p # ps"]) auto
  next
    case True
    define l2 where "l2 = (if refcnt p = 0 \<and> (case ll of None \<Rightarrow> True
                     | Some l \<Rightarrow> monobefore (lingering_since l) (lingering_since p)) then Some p else ll)"
    have lt: "index p < n" using Cons.prems(2) by simp
    have u: "unat (index p + 1) = Suc (unat i)" using word_Suc [OF lt] True by simp
    have "index p + 1 \<le> index q" if "q \<in> set ps" for q
      using that Cons.prems(1) u True by (auto simp: word_le_nat_alt word_less_nat_alt Suc_le_eq)
    moreover have "index p + 1 \<le> n" using lt u True by (simp add: word_le_nat_alt word_less_nat_alt)
    moreover have "map (\<lambda>p. unat (index p)) (passed @ [p]) = [0..<unat (index p + 1)]"
      using Cons.prems(3) True u by simp
    ultimately obtain j ll' xs ys where r: "scan_gap ps (index p + 1) l2 (passed @ [p]) = Inr (j, ll', (passed @ [p]) @ xs, ys)"
        "ps = xs @ ys" "map (\<lambda>p. unat (index p)) ((passed @ [p]) @ xs) = [0..<unat j]" "j \<le> n"
        "\<forall>p \<in> set ys. j < index p" "ll' = None \<longrightarrow> l2 = None \<and> (\<forall>p \<in> set xs. refcnt p \<noteq> 0)"
        "\<forall>l. ll' = Some l \<longrightarrow> l2 = Some l \<or> l \<in> set xs \<and> refcnt l = 0"
      using Cons.IH [of "index p + 1" "passed @ [p]" l2] Cons.prems(1,2)
      by (simp only: sorted_wrt.simps list.map list.set_intros ball_simps list.set insert_iff) blast
    have "scan_gap (p # ps) i ll passed = Inr (j, ll', passed @ p # xs, ys)"
      using r(1) True by (simp add: Let_def l2_def)
    moreover have "ll' = None \<longrightarrow> ll = None \<and> (\<forall>q \<in> set (p # xs). refcnt q \<noteq> 0)"
      using r(6) by (auto simp: l2_def split: if_splits)
    moreover have "\<forall>l. ll' = Some l \<longrightarrow> ll = Some l \<or> l \<in> set (p # xs) \<and> refcnt l = 0"
      using r(7) by (auto simp: l2_def split: if_splits)
    ultimately show ?thesis
      using r(2-5) by (intro exI [of _ j] exI [of _ ll'] exI [of _ "p # xs"] exI [of _ ys]) simp
  qed
qed auto

text \<open>The first free index of a pool, from the code's own scan.\<close>

lemma allocate_scan:
  assumes "pool_ok pool"
  obtains j ll xs ys where "scan_gap (leases pool) 0 None [] = Inr (j, ll, xs, ys)" "leases pool = xs @ ys"
    "map (\<lambda>p. unat (index p)) xs = [0..<unat j]" "j \<le> pool_size pool" "\<forall>p \<in> set ys. j < index p"
    "ll = None \<longrightarrow> (\<forall>p \<in> set xs. refcnt p \<noteq> 0)" "\<forall>l. ll = Some l \<longrightarrow> l \<in> set xs \<and> refcnt l = 0"
  using scan_gap_sorted [of "leases pool" "pool_size pool" 0 "[]" None] assms
  by (auto simp: pool_ok_def)

lemma prefix_indices:
  assumes "map (\<lambda>p. unat (index p)) xs = [0..<unat j]"
  shows "index ` set xs = {i. i < j}"
proof -
  have e: "(\<lambda>p. unat (index p)) ` set xs = {0..<unat j}" using arg_cong [OF assms, of set] by simp
  show ?thesis
  proof (intro set_eqI iffI)
    fix i assume "i \<in> index ` set xs"
    then have "unat i \<in> (\<lambda>p. unat (index p)) ` set xs" by auto
    then show "i \<in> {i. i < j}" unfolding e by (simp add: word_less_nat_alt)
  next
    fix i assume "i \<in> {i. i < j}"
    then have "unat i \<in> (\<lambda>p. unat (index p)) ` set xs" unfolding e by (simp add: word_less_nat_alt)
    then show "i \<in> index ` set xs" by (auto simp: word_unat_eq_iff)
  qed
qed

lemma count_refs_replace:
  "of_nat (length (filter P (xs @ p # ys))) = (of_nat (length (filter P xs)) + of_nat (length (filter P ys)) + of_bool (P p) :: u32)"
  by (simp add: algebra_simps)

lemma distinct_index:
  "sorted_wrt (<) (map index ls) \<Longrightarrow> p \<in> set ls \<Longrightarrow> q \<in> set ls \<Longrightarrow> index p = index q \<Longrightarrow> p = q"
proof -
  assume s: "sorted_wrt (<) (map index ls)" and "p \<in> set ls" "q \<in> set ls" "index p = index q"
  have "distinct (map index ls)" using s strict_sorted_iff by blast
  then show ?thesis using \<open>p \<in> set ls\<close> \<open>q \<in> set ls\<close> \<open>index p = index q\<close>
    by (metis distinct_map inj_onD)
qed

section \<open>The abstract table\<close>

text \<open>
  What a pool promises: a table from indices to the identity that holds the address and the
  number of its references, counted modulo \<open>2 ^ 32\<close>.
\<close>

definition lease_table :: "ip_pool \<Rightarrow> u32 \<rightharpoonup> ident \<times> u32" where
  "lease_table pool = map_of (map (\<lambda>p. (index p, (thatid p, refcnt p))) (leases pool))"

definition lease_spec :: "myid_vars \<Rightarrow> connection \<Rightarrow> u32 \<Rightarrow> (u32 \<rightharpoonup> ident \<times> u32) \<Rightarrow> u32 \<Rightarrow> (u32 \<rightharpoonup> ident \<times> u32) \<Rightarrow> bool" where
  "lease_spec my c n m i m' \<longleftrightarrow>
     (\<exists>who k. could_share_lease c \<and> m i = Some (who, k) \<and> same_id my who (that_id c) = Inr True \<and>
        m' = m(i \<mapsto> (who, k + 1))) \<or>
     ((could_share_lease c \<longrightarrow> (\<forall>j who k. m j = Some (who, k) \<longrightarrow> same_id my who (that_id c) = Inr False)) \<and>
      m' = m(i \<mapsto> (that_id c, 1)) \<and>
      (if \<exists>j<n. m j = None then i < n \<and> m i = None \<and> (\<forall>j<i. m j \<noteq> None)
       else \<exists>who. m i = Some (who, 0)))"

lemma lease_table_Some:
  assumes "sorted_wrt (<) (map index (leases pool))"
  shows "lease_table pool i = Some (who, k) \<longleftrightarrow> (\<exists>p \<in> set (leases pool). index p = i \<and> thatid p = who \<and> refcnt p = k)"
proof -
  have "distinct (map fst (map (\<lambda>p. (index p, (thatid p, refcnt p))) (leases pool)))"
    using assms strict_sorted_iff by (auto simp: comp_def)
  then show ?thesis unfolding lease_table_def by (auto simp: map_of_eq_Some_iff)
qed

lemma lease_table_None: "lease_table pool i = None \<longleftrightarrow> i \<notin> index ` set (leases pool)"
  by (force simp: lease_table_def map_of_eq_None_iff)

lemma lease_table_middle:
  assumes "leases pool = xs @ p # ys" "sorted_wrt (<) (map index (leases pool))" "index q = index p"
    "leases pool' = xs @ q # ys"
  shows "lease_table pool' = (lease_table pool)(index p \<mapsto> (thatid q, refcnt q))"
proof -
  have "index p \<notin> index ` set xs" using assms(1,2) by (auto simp: sorted_wrt_append)
  then show ?thesis using assms
    by (auto simp: lease_table_def map_add_def fun_eq_iff split: option.splits dest!: map_of_SomeD)
qed

lemma lease_table_insert:
  assumes "leases pool = xs @ ys" "index q \<notin> index ` set xs" "leases pool' = xs @ q # ys"
  shows "lease_table pool' = (lease_table pool)(index q \<mapsto> (thatid q, refcnt q))"
  using assms
  by (auto simp: lease_table_def map_add_def fun_eq_iff split: option.splits dest!: map_of_SomeD)

lemma share_lease_cases:
  assumes "share_lease my c pool = Inr r"
  shows "(r = None \<and> (could_share_lease c \<longrightarrow> (\<forall>p \<in> set (leases pool). same_id my (thatid p) (that_id c) = Inr False))) \<or>
    (\<exists>xs p ys. leases pool = xs @ p # ys \<and> could_share_lease c \<and> same_id my (thatid p) (that_id c) = Inr True \<and>
      r = Some (index p, (if refcnt p = 0 then pool\<lparr>lingering := lingering pool - 1, used := used pool + 1\<rparr> else pool)
        \<lparr>leases := xs @ p\<lparr>refcnt := refcnt p + 1\<rparr> # ys\<rparr>))"
proof (cases "could_share_lease c")
  case True
  show ?thesis
  proof (cases "share_scan my (that_id c) (leases pool)")
    case (Inr q)
    then show ?thesis
      using assms True share_scan_None [of my "that_id c" "leases pool"] share_scan_Some [of my "that_id c" "leases pool"]
      by (cases q) (fastforce simp: share_lease_def Let_def)+
  qed (use assms True in \<open>simp add: share_lease_def\<close>)
qed (use assms in \<open>simp add: share_lease_def\<close>)

lemma allocate_lease_cases:
  assumes "pool_ok pool" "allocate_lease c pool = Ok (i, pool')"
  shows "(\<exists>xs ys. leases pool = xs @ ys \<and> map (\<lambda>p. unat (index p)) xs = [0..<unat i] \<and> i < pool_size pool \<and>
      (\<forall>p \<in> set ys. i < index p) \<and>
      pool' = pool\<lparr>used := used pool + 1, leases := xs @ new_lease i (that_id c) # ys\<rparr>) \<or>
    (\<exists>xs p ys who. leases pool = xs @ p # ys \<and> index p = i \<and> refcnt p = 0 \<and>
      index ` set (leases pool) = {i. i < pool_size pool} \<and> duplicate_id (thatid p) (that_id c) = Inr who \<and>
      pool' = pool\<lparr>lingering := lingering pool - 1, leases := xs @ p\<lparr>thatid := who, refcnt := 1\<rparr> # ys\<rparr>)"
proof -
  obtain j ll xs ys where g: "scan_gap (leases pool) 0 None [] = Inr (j, ll, xs, ys)" "leases pool = xs @ ys"
    "map (\<lambda>p. unat (index p)) xs = [0..<unat j]" "j \<le> pool_size pool" "\<forall>p \<in> set ys. j < index p"
    "ll = None \<longrightarrow> (\<forall>p \<in> set xs. refcnt p \<noteq> 0)" "\<forall>l. ll = Some l \<longrightarrow> l \<in> set xs \<and> refcnt l = 0"
    by (rule allocate_scan [OF assms(1)])
  show ?thesis
  proof (cases "j < pool_size pool")
    case True
    then show ?thesis using assms(2) g by (auto simp: allocate_lease_def)
  next
    case False
    then have j: "j = pool_size pool" using g(4) by simp
    have "ys = []" using g(2,5) j assms(1) by (cases ys) (auto simp: pool_ok_def)
    then have all: "leases pool = xs" using g(2) by simp
    obtain l ls where l: "ll = Some l" "take_over (that_id c) l (leases pool) = Inr ls"
        "i = index l" "pool' = pool\<lparr>lingering := lingering pool - 1, leases := ls\<rparr>"
      using assms(2) g(1) False by (auto simp: allocate_lease_def split: option.splits sum.splits if_splits)
    have lin: "l \<in> set xs" "refcnt l = 0" using g(7) l(1) by auto
    obtain us vs where uv: "xs = us @ l # vs" using split_list [OF lin(1)] by blast
    obtain who where who: "duplicate_id (thatid l) (that_id c) = Inr who"
        "ls = map (\<lambda>p. if index p = index l then p\<lparr>thatid := who, refcnt := refcnt p + 1\<rparr> else p) xs"
      using l(2) all by (auto simp: take_over_def split: sum.splits)
    have s: "sorted_wrt (<) (map index xs)" using assms(1) all by (simp add: pool_ok_def)
    then have "index l \<notin> index ` set us" "index l \<notin> index ` set vs"
      unfolding uv by (auto simp: sorted_wrt_append)
    then have "ls = us @ l\<lparr>thatid := who, refcnt := 1\<rparr> # vs"
      unfolding who(2) uv using lin(2) by (auto intro!: map_idI) (metis image_eqI)+
    moreover have "index ` set (leases pool) = {i. i < pool_size pool}"
      using prefix_indices [OF g(3)] all j by simp
    ultimately show ?thesis using l(3,4) uv all lin(2) who(1) by blast
  qed
qed

section \<open>The operations keep the invariant\<close>

lemma pool_ok_replace:
  assumes "pool_ok pool" "leases pool = xs @ p # ys" "index q = index p" "pool_size pool' = pool_size pool"
    "leases pool' = xs @ q # ys"
    "lingering pool' = lingering pool + of_bool (refcnt q = 0) - of_bool (refcnt p = 0)"
  shows "pool_ok pool'"
  using assms by (cases "refcnt p = 0"; cases "refcnt q = 0") (auto simp: pool_ok_def algebra_simps)

lemma pool_ok_share:
  assumes "pool_ok pool" "share_lease my c pool = Inr (Some (i, pool'))" "\<forall>p \<in> set (leases pool'). index p = i \<longrightarrow> refcnt p \<noteq> 0"
  shows "pool_ok pool'"
proof -
  from share_lease_cases [OF assms(2)] obtain xs p ys where p: "leases pool = xs @ p # ys" "i = index p"
      "pool' = (if refcnt p = 0 then pool\<lparr>lingering := lingering pool - 1, used := used pool + 1\<rparr> else pool)
        \<lparr>leases := xs @ p\<lparr>refcnt := refcnt p + 1\<rparr> # ys\<rparr>"
    by auto
  have "refcnt p + 1 \<noteq> 0" using assms(3) p(2) by (simp add: p(3))
  then show ?thesis by (intro pool_ok_replace [OF assms(1) p(1), of "p\<lparr>refcnt := refcnt p + 1\<rparr>"]) (auto simp: p(3))
qed

text \<open>A count that wraps to zero leaves a lease that looks as if it lingered, uncounted.\<close>

lemma pool_not_ok_share:
  assumes "pool_ok pool" "share_lease my c pool = Inr (Some (i, pool'))" "p \<in> set (leases pool')" "index p = i" "refcnt p = 0"
  shows "\<not> pool_ok pool'"
proof -
  from share_lease_cases [OF assms(2)] obtain xs q ys where q: "leases pool = xs @ q # ys" "i = index q"
      "pool' = (if refcnt q = 0 then pool\<lparr>lingering := lingering pool - 1, used := used pool + 1\<rparr> else pool)
        \<lparr>leases := xs @ q\<lparr>refcnt := refcnt q + 1\<rparr> # ys\<rparr>"
    by auto
  have s: "sorted_wrt (<) (map index (leases pool'))" using assms(1) q(1) by (simp add: q(3) pool_ok_def)
  have "p = q\<lparr>refcnt := refcnt q + 1\<rparr>" by (rule distinct_index [OF s assms(3)]) (simp_all add: q(3) assms(4) q(2))
  then have z: "refcnt q + 1 = 0" "refcnt q \<noteq> 0" using assms(5) by auto
  have "lingering pool' = of_nat (length (filter (\<lambda>p. refcnt p = 0) (xs @ ys)))"
    using assms(1) q(1) z(2) by (simp add: q(3) pool_ok_def)
  then show ?thesis using z(1) by (simp add: pool_ok_def q(3))
qed

lemma pool_ok_allocate:
  assumes "pool_ok pool" "allocate_lease c pool = Ok (i, pool')"
  shows "pool_ok pool'"
  using allocate_lease_cases [OF assms]
proof (elim disjE exE conjE)
  fix xs ys
  assume g: "leases pool = xs @ ys" "map (\<lambda>p. unat (index p)) xs = [0..<unat i]" "i < pool_size pool"
    "\<forall>p \<in> set ys. i < index p" "pool' = pool\<lparr>used := used pool + 1, leases := xs @ new_lease i (that_id c) # ys\<rparr>"
  have "\<forall>p \<in> set xs. index p < i" using prefix_indices [OF g(2)] by blast
  then show ?thesis using assms(1) g by (auto simp: pool_ok_def new_lease_def sorted_wrt_append)
next
  fix xs p ys who
  assume g: "leases pool = xs @ p # ys" "refcnt p = 0"
    "pool' = pool\<lparr>lingering := lingering pool - 1, leases := xs @ p\<lparr>thatid := who, refcnt := 1\<rparr> # ys\<rparr>"
  show ?thesis
    by (rule pool_ok_replace [OF assms(1) g(1), of "p\<lparr>thatid := who, refcnt := 1\<rparr>"]) (use g in auto)
qed

lemma lease_an_address_cases:
  assumes "lease_an_address my c pool = Ok (ipa, pool')"
  obtains i where "share_lease my c pool = Inr (Some (i, pool')) \<or>
      share_lease my c pool = Inr None \<and> allocate_lease c pool = Ok (i, pool')"
    "ipa = \<lparr>sin_family = AF_INET, sin_bytes = be_bytes 4 (range_start pool' + i), sin_port = 0\<rparr>"
  using assms
  by (auto simp: lease_an_address_def bind_outcome_Ok_iff addr_of_index_value split: sum.splits option.splits)

lemma allocate_count:
  assumes "pool_ok pool" "allocate_lease c pool = Ok (i, pool')"
  shows "\<exists>q \<in> set (leases pool'). index q = i \<and> refcnt q = 1" "set (leases pool') \<subseteq> set (leases pool) \<union> {q. index q = i \<and> refcnt q = 1}"
  using allocate_lease_cases [OF assms] by (auto simp: new_lease_def)

lemma rel_lease_addr_cases:
  assumes "rel_lease_addr now c pool = Ok (c', pool')" "has_lease c"
  obtains xs p ys where "leases pool = xs @ p # ys" "index p = ntohl_addr (client_addr c) - range_start pool"
    "c' = c\<lparr>has_lease := False\<rparr>"
    "could_share_lease c \<and> 0 < refcnt p \<and> (\<exists>q. index q = index p \<and> thatid q = thatid p \<and> refcnt q = refcnt p - 1 \<and>
      pool' = pool\<lparr>lingering := lingering pool + of_bool (refcnt q = 0), leases := xs @ q # ys\<rparr>) \<or>
     \<not> could_share_lease c \<and> refcnt p = 1 \<and> pool' = pool\<lparr>used := used pool - 1, leases := xs @ ys\<rparr>"
proof -
  let ?i = "ntohl_addr (client_addr c) - range_start pool"
  obtain xs p ys where r: "ref_to_lease (leases pool) ?i = Some (xs, p, ys)"
    using assms by (auto simp: rel_lease_addr_def Let_def split: if_splits option.splits)
  have l: "leases pool = xs @ p # ys" "index p = ?i" using ref_to_lease_Some [OF r] by auto
  show ?thesis
  proof (cases "could_share_lease c")
    case True
    let ?q = "if refcnt p - 1 = 0 then p\<lparr>refcnt := 0, lingering_since := now\<rparr> else p\<lparr>refcnt := refcnt p - 1\<rparr>"
    have "0 < refcnt p \<and> c' = c\<lparr>has_lease := False\<rparr> \<and>
        pool' = pool\<lparr>lingering := lingering pool + of_bool (refcnt ?q = 0), leases := xs @ ?q # ys\<rparr>"
      using assms True r by (auto simp: rel_lease_addr_def Let_def bind_outcome_Ok_iff split: if_splits)
    then show ?thesis using True l by (intro that [OF l]) (auto intro!: exI [of _ ?q])
  next
    case False
    then show ?thesis using assms r l
      by (intro that [OF l]) (auto simp: rel_lease_addr_def Let_def bind_outcome_Ok_iff split: if_splits)
  qed
qed

lemma pool_ok_release:
  assumes "pool_ok pool" "rel_lease_addr now c pool = Ok (c', pool')"
  shows "pool_ok pool'"
proof (cases "has_lease c")
  case True
  from rel_lease_addr_cases [OF assms(2) this] obtain xs p ys where l: "leases pool = xs @ p # ys"
    and d: "0 < refcnt p \<and> (\<exists>q. index q = index p \<and> thatid q = thatid p \<and> refcnt q = refcnt p - 1 \<and>
      pool' = pool\<lparr>lingering := lingering pool + of_bool (refcnt q = 0), leases := xs @ q # ys\<rparr>) \<or>
     refcnt p = 1 \<and> pool' = pool\<lparr>used := used pool - 1, leases := xs @ ys\<rparr>" by metis
  from d show ?thesis
  proof (elim disjE conjE exE)
    fix q assume "0 < refcnt p" "index q = index p"
      "pool' = pool\<lparr>lingering := lingering pool + of_bool (refcnt q = 0), leases := xs @ q # ys\<rparr>"
    then show ?thesis by (intro pool_ok_replace [OF assms(1) l, of q]) auto
  next
    assume "refcnt p = 1" "pool' = pool\<lparr>used := used pool - 1, leases := xs @ ys\<rparr>"
    then show ?thesis using assms(1) l by (auto simp: pool_ok_def sorted_wrt_append)
  qed
qed (use assms in \<open>simp add: rel_lease_addr_def\<close>)

section \<open>Identities of clients\<close>

text \<open>
  The identity of an authenticated peer: of a known kind that is not a wildcard, and a
  distinguished name has octets.
\<close>

definition proper_id :: "ident \<Rightarrow> bool" where
  "proper_id i \<longleftrightarrow> kind i \<in> {ID_IPV4_ADDR, ID_IPV6_ADDR, ID_FQDN, ID_USER_FQDN, ID_KEY_ID, ID_NULL} \<or>
     kind i = ID_DER_ASN1_DN \<and> id_name i \<noteq> []"

lemma strncaseeq_octets_refl [simp]: "strncaseeq_octets a a"
  by (induction a) auto

lemma memcmp_refl [simp]: "memcmp a a = 0"
  by (induction a) auto

lemma sameaddr_refl [simp]: "sameaddr a a"
  by (simp add: sameaddr_def addrcmp_def)

lemma proper_id_kinds: "proper_id i \<Longrightarrow> kind i \<noteq> ID_MYID \<and> kind i \<noteq> ID_NONE \<and> kind i \<noteq> ID_FROMCERT"
  by (auto simp: proper_id_def id_kinds)

lemma resolve_proper: "proper_id i \<Longrightarrow> resolve_myid my i = i"
  by (simp add: resolve_myid_def proper_id_kinds)

lemma same_dn_total: "a \<noteq> [] \<Longrightarrow> b \<noteq> [] \<Longrightarrow> \<exists>r. same_dn a b = Inr r"
  using match_dn_safe [of a b False] by (cases "match_dn a b False") (auto simp: same_dn_def)

lemma same_id_kind:
  assumes "proper_id a" "proper_id b" "same_id my a b = Inr True"
  shows "kind a = kind b"
  using assms by (rule_tac ccontr) (simp add: same_id_def resolve_proper Let_def proper_id_kinds)

lemma same_id_total:
  assumes "proper_id a" "proper_id b"
  obtains r where "same_id my a b = Inr r"
proof (cases "kind a = kind b")
  case True
  have "kind a = ID_DER_ASN1_DN \<or> kind a \<in> {ID_IPV4_ADDR, ID_IPV6_ADDR, ID_FQDN, ID_USER_FQDN, ID_KEY_ID, ID_NULL}"
    using assms(1) by (auto simp: proper_id_def)
  then have "\<not> isl (same_id my a b)"
  proof
    assume dn: "kind a = ID_DER_ASN1_DN"
    then have "id_name a \<noteq> []" "id_name b \<noteq> []" using assms True by (auto simp: proper_id_def id_kinds)
    from same_dn_total [OF this] dn True assms show ?thesis
      by (auto simp: same_id_def resolve_proper Let_def id_kinds)
  qed (use True assms in \<open>auto simp: same_id_def resolve_proper Let_def id_kinds\<close>)
  then show ?thesis using that by (cases "same_id my a b") auto
next
  case False
  then show ?thesis using that assms by (simp add: same_id_def resolve_proper Let_def proper_id_kinds)
qed

lemma same_id_refl:
  assumes "proper_id a"
  shows "same_id my a a = Inr True"
proof -
  have "kind a \<in> {ID_IPV4_ADDR, ID_IPV6_ADDR, ID_FQDN, ID_USER_FQDN, ID_KEY_ID, ID_NULL, ID_DER_ASN1_DN}"
    using assms by (auto simp: proper_id_def)
  then show ?thesis using assms proper_id_kinds [OF assms]
    by (auto simp: same_id_def resolve_proper Let_def same_fqdn_def same_dn_def match_dn_def)
qed

lemma duplicate_id_eq: "duplicate_id a b = Inr d \<Longrightarrow> d = (b :: ident)"
  by (cases b) (auto simp: duplicate_id_def free_id_content_def split: sum.splits if_splits)

lemma duplicate_id_proper: "proper_id a \<Longrightarrow> duplicate_id a b = Inr b"
proof -
  assume "proper_id a"
  then have "has_name (kind a) \<or> no_name (kind a)" by (auto simp: proper_id_def has_name_def no_name_def)
  then show ?thesis by (cases b) (auto simp: duplicate_id_def free_id_content_def)
qed

section \<open>Connections and their pool\<close>

type_synonym pool_world = "ip_pool \<times> connection list"

inductive pool_step :: "myid_vars \<Rightarrow> pool_world \<Rightarrow> pool_world \<Rightarrow> bool" for my where
  grant: "k < length cs \<Longrightarrow> grant_lease my (cs ! k) pool = Ok (c', pool') \<Longrightarrow>
    pool_step my (pool, cs) (pool', cs[k := c'])"
| release: "k < length cs \<Longrightarrow> rel_lease_addr now (cs ! k) pool = Ok (c', pool') \<Longrightarrow>
    pool_step my (pool, cs) (pool', cs[k := c'])"

definition world_init :: "pool_world \<Rightarrow> bool" where
  "world_init = (\<lambda>(pool, cs). leases pool = [] \<and> used pool = 0 \<and> lingering pool = 0 \<and>
     (\<forall>c \<in> set cs. proper_id (that_id c) \<and> \<not> has_lease c))"

definition holds :: "ip_pool \<Rightarrow> u32 \<Rightarrow> connection \<Rightarrow> bool" where
  "holds pool i c \<longleftrightarrow> has_lease c \<and> ntohl_addr (client_addr c) - range_start pool = i"

definition lease_fits :: "myid_vars \<Rightarrow> ip_pool \<Rightarrow> connection list \<Rightarrow> lease_addr \<Rightarrow> bool" where
  "lease_fits my pool cs p \<longleftrightarrow> proper_id (thatid p) \<and> length (filter (holds pool (index p)) cs) \<le> unat (refcnt p) \<and>
     (\<forall>c \<in> set cs. holds pool (index p) c \<longrightarrow> same_id my (thatid p) (that_id c) = Inr True) \<and>
     (kind (thatid p) = ID_NULL \<longrightarrow> refcnt p = 1)"

definition conn_fits :: "ip_pool \<Rightarrow> connection \<Rightarrow> bool" where
  "conn_fits pool c \<longleftrightarrow> proper_id (that_id c) \<and>
     (has_lease c \<longrightarrow> addrtypeof (client_addr c) = AF_INET \<and> (\<exists>p \<in> set (leases pool). holds pool (index p) c))"

definition world_ok :: "myid_vars \<Rightarrow> pool_world \<Rightarrow> bool" where
  "world_ok my = (\<lambda>(pool, cs). pool_ok pool \<and> (\<forall>p \<in> set (leases pool). lease_fits my pool cs p) \<and>
     (\<forall>c \<in> set cs. conn_fits pool c))"

text \<open>Each step adds at most one reference to a lease.\<close>

definition counts_upto :: "nat \<Rightarrow> ip_pool \<Rightarrow> bool" where
  "counts_upto n pool \<longleftrightarrow> (\<forall>p \<in> set (leases pool). unat (refcnt p) \<le> n)"

lemma could_share_iff: "could_share_lease c \<longleftrightarrow> kind (that_id c) \<noteq> ID_NULL"
  by (simp add: could_share_lease_def ID_NONE_def)

lemma filter_update:
  assumes "k < length cs"
  shows "length (filter P (cs[k := c])) + of_bool (P (cs ! k)) = length (filter P cs) + of_bool (P c)"
proof -
  have "cs = take k cs @ cs ! k # drop (Suc k) cs" using assms by (rule id_take_nth_drop)
  from arg_cong [OF this, of "\<lambda>xs. length (filter P xs)"]
  have "length (filter P cs) = length (filter P (take k cs)) + of_bool (P (cs ! k)) + length (filter P (drop (Suc k) cs))"
    by simp
  moreover have "length (filter P (cs[k := c])) =
      length (filter P (take k cs)) + of_bool (P c) + length (filter P (drop (Suc k) cs))"
    using assms by (simp add: upd_conv_take_nth_drop)
  ultimately show ?thesis by simp
qed

lemma holds_range: "pool_range pool' = pool_range pool \<Longrightarrow> holds pool' = holds pool"
  by (simp add: holds_def range_start_def fun_eq_iff)

lemma count_le: "k < length cs \<Longrightarrow> \<not> P c \<Longrightarrow> length (filter P (cs[k := c])) \<le> length (filter P cs)"
  using filter_update [of k cs P c] by simp

lemma count_pred: "(q :: u32) + 1 = p \<Longrightarrow> 0 < p \<Longrightarrow> unat p = Suc (unat q)"
  using unatSuc [of q] by (auto simp: add.commute word_neq_0_conv)

text \<open>A connection that gives up its lease.\<close>

lemma world_ok_drop:
  assumes w: "world_ok my (pool, cs)" and k: "k < length cs" and c': "\<not> has_lease c'" "that_id c' = that_id (cs ! k)"
    and r: "pool_range pool' = pool_range pool" and ok: "pool_ok pool'"
    and new: "\<forall>q \<in> set (leases pool'). \<exists>p \<in> set (leases pool). index q = index p \<and> thatid q = thatid p \<and>
      (q = p \<or> holds pool (index p) (cs ! k) \<and> refcnt q + 1 = refcnt p \<and> 0 < refcnt p \<and> kind (thatid p) \<noteq> ID_NULL)"
    and old: "\<forall>c \<in> set (cs[k := c']). has_lease c \<longrightarrow> (\<exists>p \<in> set (leases pool'). holds pool (index p) c)"
  shows "world_ok my (pool', cs[k := c'])"
proof -
  note h = holds_range [OF r]
  have nc: "\<not> holds pool i c'" for i using c'(1) by (simp add: holds_def)
  have mem: "c \<in> set (cs[k := c']) \<Longrightarrow> c = c' \<or> c \<in> set cs" for c using set_update_subset_insert [of cs k c'] by auto
  have "lease_fits my pool' (cs[k := c']) q" if qin: "q \<in> set (leases pool')" for q
  proof -
    obtain p where p: "p \<in> set (leases pool)" "index q = index p" "thatid q = thatid p"
        "q = p \<or> holds pool (index p) (cs ! k) \<and> refcnt q + 1 = refcnt p \<and> 0 < refcnt p \<and> kind (thatid p) \<noteq> ID_NULL"
      using bspec [OF new qin] by (elim bexE conjE) (rule that)
    have f: "lease_fits my pool cs p" using w p(1) by (auto simp: world_ok_def)
    let ?n = "length (filter (holds pool (index p)) (cs[k := c']))"
    have n: "length (filter (holds pool (index p)) cs) \<le> unat (refcnt p)" using f by (simp add: lease_fits_def)
    from p(4) have "?n \<le> unat (refcnt q)"
    proof
      assume "q = p"
      then show ?thesis using n count_le [OF k, of "holds pool (index p)" c', OF nc] by simp
    next
      assume a: "holds pool (index p) (cs ! k) \<and> refcnt q + 1 = refcnt p \<and> 0 < refcnt p \<and> kind (thatid p) \<noteq> ID_NULL"
      then have "?n + 1 = length (filter (holds pool (index p)) cs)"
        using filter_update [OF k, of "holds pool (index p)" c'] nc by simp
      moreover have "unat (refcnt p) = Suc (unat (refcnt q))" using a count_pred by blast
      ultimately show ?thesis using n by linarith
    qed
    moreover have "\<forall>c \<in> set (cs[k := c']). holds pool (index p) c \<longrightarrow> same_id my (thatid p) (that_id c) = Inr True"
      using f mem nc unfolding lease_fits_def by blast
    moreover have "proper_id (thatid p)" "kind (thatid p) = ID_NULL \<longrightarrow> refcnt q = 1"
      using f p(4) unfolding lease_fits_def by auto
    ultimately show ?thesis using p(2,3) by (simp add: lease_fits_def h)
  qed
  moreover have "conn_fits pool' c" if c: "c \<in> set (cs[k := c'])" for c
    using mem [OF c]
  proof
    assume "c = c'"
    moreover have "conn_fits pool (cs ! k)" using w k by (simp add: world_ok_def)
    ultimately show ?thesis using c' by (simp add: conn_fits_def)
  next
    assume "c \<in> set cs"
    then have "conn_fits pool c" using w by (simp add: world_ok_def)
    then show ?thesis using old [rule_format, OF c] by (simp add: conn_fits_def h)
  qed
  ultimately show ?thesis using ok by (simp add: world_ok_def)
qed

lemma world_ok_release:
  assumes w: "world_ok my (pool, cs)" and k: "k < length cs"
    and r: "rel_lease_addr now (cs ! k) pool = Ok (c', pool')"
  shows "world_ok my (pool', cs[k := c'])"
proof (cases "has_lease (cs ! k)")
  case False
  then have "c' = cs ! k" "pool' = pool" using r by (auto simp: rel_lease_addr_def)
  then show ?thesis using w by simp
next
  case True
  have ok: "pool_ok pool" "pool_ok pool'" using w r pool_ok_release by (auto simp: world_ok_def)
  have ck: "conn_fits pool (cs ! k)" using w k by (auto simp: world_ok_def)
  from rel_lease_addr_cases [OF r True] obtain xs p ys where l: "leases pool = xs @ p # ys"
    "index p = ntohl_addr (client_addr (cs ! k)) - range_start pool" and c': "c' = (cs ! k)\<lparr>has_lease := False\<rparr>"
    and d: "could_share_lease (cs ! k) \<and> 0 < refcnt p \<and> (\<exists>q. index q = index p \<and> thatid q = thatid p \<and> refcnt q = refcnt p - 1 \<and>
      pool' = pool\<lparr>lingering := lingering pool + of_bool (refcnt q = 0), leases := xs @ q # ys\<rparr>) \<or>
     \<not> could_share_lease (cs ! k) \<and> refcnt p = 1 \<and> pool' = pool\<lparr>used := used pool - 1, leases := xs @ ys\<rparr>"
    by metis
  have hk: "holds pool (index p) (cs ! k)" using l(2) True by (simp add: holds_def)
  have fp: "lease_fits my pool cs p" using w l(1) by (auto simp: world_ok_def)
  have kd: "kind (thatid p) = kind (that_id (cs ! k))"
    using fp hk k ck same_id_kind [of "thatid p" "that_id (cs ! k)"] by (auto simp: lease_fits_def conn_fits_def)
  have old: "\<exists>p \<in> set (leases pool). holds pool (index p) c" if "c \<in> set (cs[k := c'])" "has_lease c" for c
    using that set_update_subset_insert [of cs k c'] w c' by (auto simp: world_ok_def conn_fits_def)
  from d show ?thesis
  proof (elim disjE conjE exE)
    fix q assume q: "index q = index p" "thatid q = thatid p" "refcnt q = refcnt p - 1" "0 < refcnt p" "could_share_lease (cs ! k)"
      "pool' = pool\<lparr>lingering := lingering pool + of_bool (refcnt q = 0), leases := xs @ q # ys\<rparr>"
    show ?thesis
    proof (rule world_ok_drop [OF w k _ _ _ ok(2)])
      show "\<forall>q \<in> set (leases pool'). \<exists>p \<in> set (leases pool). index q = index p \<and> thatid q = thatid p \<and>
          (q = p \<or> holds pool (index p) (cs ! k) \<and> refcnt q + 1 = refcnt p \<and> 0 < refcnt p \<and> kind (thatid p) \<noteq> ID_NULL)"
        using q l(1) hk kd by (auto simp: could_share_iff)
      show "\<forall>c \<in> set (cs[k := c']). has_lease c \<longrightarrow> (\<exists>p \<in> set (leases pool'). holds pool (index p) c)"
        using old q l(1) by fastforce
    qed (use q c' in auto)
  next
    assume q: "\<not> could_share_lease (cs ! k)" "refcnt p = 1" "pool' = pool\<lparr>used := used pool - 1, leases := xs @ ys\<rparr>"
    have "\<not> holds pool (index p) c'" using c' by (simp add: holds_def)
    then have "length (filter (holds pool (index p)) (cs[k := c'])) + 1 = length (filter (holds pool (index p)) cs)"
      using filter_update [OF k, of "holds pool (index p)" c'] hk by simp
    moreover have "length (filter (holds pool (index p)) cs) \<le> 1" using fp q(2) by (simp add: lease_fits_def)
    ultimately have "length (filter (holds pool (index p)) (cs[k := c'])) = 0" by linarith
    then have none: "\<not> holds pool (index p) c" if "c \<in> set (cs[k := c'])" for c
      using that by (auto simp: filter_empty_conv)
    show ?thesis
    proof (rule world_ok_drop [OF w k _ _ _ ok(2)])
      show "\<forall>c \<in> set (cs[k := c']). has_lease c \<longrightarrow> (\<exists>p \<in> set (leases pool'). holds pool (index p) c)"
        using old none q l(1) by fastforce
    qed (use q c' l(1) in auto)
  qed
qed

text \<open>A connection that gets the address with index \<open>i\<close>.\<close>

lemma world_ok_take:
  assumes w: "world_ok my (pool, cs)" and k: "k < length cs" and r: "pool_range pool' = pool_range pool"
    and ok: "pool_ok pool'"
    and c': "has_lease c'" "that_id c' = that_id (cs ! k)" "addrtypeof (client_addr c') = AF_INET"
      "ntohl_addr (client_addr c') = range_start pool + i"
    and q: "q \<in> set (leases pool')" "index q = i" "lease_fits my pool cs (q\<lparr>refcnt := refcnt q - 1\<rparr>) \<or> (\<forall>c \<in> set cs. \<not> holds pool i c)"
      "proper_id (thatid q)" "0 < refcnt q" "same_id my (thatid q) (that_id c') = Inr True" "kind (thatid q) = ID_NULL \<longrightarrow> refcnt q = 1"
    and new: "\<forall>p \<in> set (leases pool'). p = q \<or> p \<in> set (leases pool) \<and> index p \<noteq> i"
    and old: "index ` set (leases pool) \<subseteq> index ` set (leases pool')"
  shows "world_ok my (pool', cs[k := c'])"
proof -
  note h = holds_range [OF r]
  have hc: "holds pool j c' \<longleftrightarrow> j = i" for j using c' by (auto simp: holds_def)
  have mem: "c \<in> set (cs[k := c']) \<Longrightarrow> c = c' \<or> c \<in> set cs" for c using set_update_subset_insert [of cs k c'] by auto
  have "length (filter (holds pool i) cs) \<le> unat (refcnt q - 1)"
    using q(2,3) by (auto simp: lease_fits_def filter_empty_conv)
  moreover have "unat (refcnt q) = Suc (unat (refcnt q - 1))" using q(5) by (intro count_pred) simp_all
  ultimately have "length (filter (holds pool i) (cs[k := c'])) \<le> unat (refcnt q)"
    using filter_update [OF k, of "holds pool i" c'] q(5) hc [of i] by (cases "holds pool i (cs ! k)") auto
  moreover have "\<forall>c \<in> set cs. holds pool i c \<longrightarrow> same_id my (thatid q) (that_id c) = Inr True"
    using q(2,3) by (auto simp: lease_fits_def)
  ultimately have fq: "lease_fits my pool' (cs[k := c']) q"
    using q mem by (auto simp: lease_fits_def h)
  have "lease_fits my pool' (cs[k := c']) p" if "p \<in> set (leases pool')" for p
  proof (cases "p = q")
    case False
    then have p: "p \<in> set (leases pool)" "index p \<noteq> i" using new that by auto
    then have f: "lease_fits my pool cs p" using w by (auto simp: world_ok_def)
    then have "length (filter (holds pool (index p)) (cs[k := c'])) \<le> unat (refcnt p)"
      using count_le [OF k, of "holds pool (index p)" c'] hc p(2) by (auto simp: lease_fits_def)
    then show ?thesis using f p mem hc by (auto simp: lease_fits_def h)
  qed (use fq in simp)
  moreover have "conn_fits pool' c" if "c \<in> set (cs[k := c'])" for c
    using mem [OF that]
  proof
    assume "c = c'"
    then show ?thesis using c' q(1,2) w k hc by (auto simp: conn_fits_def world_ok_def h)
  next
    assume "c \<in> set cs"
    then have "conn_fits pool c" using w by (auto simp: world_ok_def)
    then show ?thesis using old by (force simp: conn_fits_def h)
  qed
  ultimately show ?thesis using ok by (auto simp: world_ok_def)
qed

lemma share_range: "share_lease my c pool = Inr (Some (i, pool')) \<Longrightarrow> pool_range pool' = pool_range pool"
  using share_lease_cases [of my c pool] by fastforce

lemma allocate_range: "pool_ok pool \<Longrightarrow> allocate_lease c pool = Ok (i, pool') \<Longrightarrow> pool_range pool' = pool_range pool"
  using allocate_lease_cases [of pool c i pool'] by auto

lemma share_counts:
  assumes "pool_ok pool" "share_lease my c pool = Inr (Some (i, pool'))" "counts_upto n pool" "Suc n < 2 ^ 32"
  shows "counts_upto (Suc n) pool' \<and> (\<forall>p \<in> set (leases pool'). index p = i \<longrightarrow> refcnt p \<noteq> 0)"
proof -
  from share_lease_cases [OF assms(2)] obtain xs p ys where p: "leases pool = xs @ p # ys" "i = index p"
      "leases pool' = xs @ p\<lparr>refcnt := refcnt p + 1\<rparr> # ys"
    by auto
  have "unat (refcnt p) \<le> n" using assms(3) p(1) by (simp add: counts_upto_def)
  then have u: "unat (refcnt p + 1) = Suc (unat (refcnt p))" using assms(4) by (simp add: unat_word_ariths)
  have "index q \<noteq> i" if "q \<in> set xs \<union> set ys" for q
    using assms(1) p(1,2) that by (auto simp: pool_ok_def sorted_wrt_append)
  moreover have "counts_upto (Suc n) pool'" using assms(3) p(1,3) u by (auto simp: counts_upto_def intro: le_SucI)
  moreover have "refcnt p + 1 \<noteq> 0" using u by auto
  ultimately show ?thesis using p(3) by auto
qed

lemma lease_counts:
  assumes "pool_ok pool" "counts_upto n pool" "Suc n < 2 ^ 32"
    "share_lease my c pool = Inr (Some (i, pool')) \<or> share_lease my c pool = Inr None \<and> allocate_lease c pool = Ok (i, pool')"
  shows "pool_ok pool' \<and> counts_upto (Suc n) pool'"
  using assms(4)
proof (elim disjE conjE)
  assume s: "share_lease my c pool = Inr (Some (i, pool'))"
  show ?thesis using share_counts [OF assms(1) s assms(2,3)] pool_ok_share [OF assms(1) s] by blast
next
  assume a: "allocate_lease c pool = Ok (i, pool')"
  have "counts_upto (Suc n) pool'"
    unfolding counts_upto_def
  proof
    fix q assume "q \<in> set (leases pool')"
    then have "q \<in> set (leases pool) \<or> refcnt q = 1" using allocate_count(2) [OF assms(1) a] by blast
    then show "unat (refcnt q) \<le> Suc n"
    proof
      assume "q \<in> set (leases pool)"
      then have "unat (refcnt q) \<le> n" using assms(2) by (simp add: counts_upto_def)
      then show ?thesis by simp
    qed simp
  qed
  then show ?thesis using pool_ok_allocate [OF assms(1) a] by simp
qed

lemma world_ok_grant:
  assumes w: "world_ok my (pool, cs)" and k: "k < length cs"
    and g: "grant_lease my (cs ! k) pool = Ok (c', pool')" and n: "counts_upto n pool" "Suc n < 2 ^ 32"
  shows "world_ok my (pool', cs[k := c']) \<and> counts_upto (Suc n) pool'"
proof -
  let ?c = "cs ! k"
  have po: "pool_ok pool" and ck: "proper_id (that_id ?c)" using w k by (auto simp: world_ok_def conn_fits_def)
  obtain ipa where l: "lease_an_address my ?c pool = Ok (ipa, pool')"
      and c': "c' = ?c\<lparr>has_lease := True, client_addr := ipa\<rparr>"
    using g by (auto simp: grant_lease_def bind_outcome_Ok_iff)
  obtain i where i: "share_lease my ?c pool = Inr (Some (i, pool')) \<or>
      share_lease my ?c pool = Inr None \<and> allocate_lease ?c pool = Ok (i, pool')"
    and ipa: "ipa = \<lparr>sin_family = AF_INET, sin_bytes = be_bytes 4 (range_start pool' + i), sin_port = 0\<rparr>"
    by (rule lease_an_address_cases [OF l])
  have ok: "pool_ok pool'" "counts_upto (Suc n) pool'" using lease_counts [OF po n i] by auto
  have r: "pool_range pool' = pool_range pool" using i share_range allocate_range [OF po] by blast
  then have rs: "range_start pool' = range_start pool" by (simp add: range_start_def)
  have cf: "has_lease c'" "that_id c' = that_id ?c" "addrtypeof (client_addr c') = AF_INET"
      "ntohl_addr (client_addr c') = range_start pool + i"
    using c' ipa rs ntohl_addr_be_bytes [of ipa "range_start pool + i"] by (simp_all add: addrtypeof_def)
  have s: "sorted_wrt (<) (map index (leases pool))" using po by (simp add: pool_ok_def)
  note take = world_ok_take [OF w k r ok(1) cf]
  from i have "world_ok my (pool', cs[k := c'])"
  proof (elim disjE conjE)
    assume sh: "share_lease my ?c pool = Inr (Some (i, pool'))"
    from share_lease_cases [OF sh] obtain xs p ys where p: "leases pool = xs @ p # ys" "could_share_lease ?c"
        "same_id my (thatid p) (that_id ?c) = Inr True" "i = index p" "leases pool' = xs @ p\<lparr>refcnt := refcnt p + 1\<rparr> # ys"
      by auto
    let ?q = "p\<lparr>refcnt := refcnt p + 1\<rparr>"
    have fp: "lease_fits my pool cs p" using w p(1) by (auto simp: world_ok_def)
    then have pp: "proper_id (thatid p)" by (simp add: lease_fits_def)
    have "kind (thatid p) \<noteq> ID_NULL" using same_id_kind [OF pp ck p(3)] p(2) by (simp add: could_share_iff)
    moreover have "0 < refcnt p + 1" using share_counts [OF po sh n] p(4,5) by (simp add: word_neq_0_conv)
    ultimately show ?thesis using p cf(2) fp pp s
      by (intro take [of ?q]) (auto simp: sorted_wrt_append)
  next
    assume al: "allocate_lease ?c pool = Ok (i, pool')"
    have hold: "\<exists>p \<in> set (leases pool). index p = j" if "c \<in> set cs" "holds pool j c" for c j
      using that w by (fastforce simp: world_ok_def conn_fits_def holds_def)
    from allocate_lease_cases [OF po al] show ?thesis
    proof (elim disjE exE conjE)
      fix xs ys assume g: "leases pool = xs @ ys" "map (\<lambda>p. unat (index p)) xs = [0..<unat i]"
        "\<forall>p \<in> set ys. i < index p" "pool' = pool\<lparr>used := used pool + 1, leases := xs @ new_lease i (that_id ?c) # ys\<rparr>"
      have ni: "\<forall>p \<in> set (leases pool). index p \<noteq> i" using prefix_indices [OF g(2)] g(1,3) by auto
      then have "\<forall>c \<in> set cs. \<not> holds pool i c" using hold by blast
      then show ?thesis using g ni ck cf(2) same_id_refl [OF ck]
        by (intro take [of "new_lease i (that_id ?c)"]) (auto simp: new_lease_def)
    next
      fix xs p ys who assume g: "leases pool = xs @ p # ys" "index p = i" "refcnt p = 0"
        "duplicate_id (thatid p) (that_id ?c) = Inr who"
        "pool' = pool\<lparr>lingering := lingering pool - 1, leases := xs @ p\<lparr>thatid := who, refcnt := 1\<rparr> # ys\<rparr>"
      have "who = that_id ?c" using duplicate_id_eq [OF g(4)] .
      moreover have "lease_fits my pool cs p" using w g(1) by (auto simp: world_ok_def)
      then have "\<forall>c \<in> set cs. \<not> holds pool i c" using g(2,3) by (auto simp: lease_fits_def filter_empty_conv)
      ultimately show ?thesis using g s ck cf(2) same_id_refl [OF ck]
        by (intro take [of "p\<lparr>thatid := who, refcnt := 1\<rparr>"]) (auto simp: sorted_wrt_append)
    qed
  qed
  then show ?thesis using ok(2) by simp
qed

lemma counts_release:
  assumes "counts_upto n pool" "rel_lease_addr now c pool = Ok (c', pool')"
  shows "counts_upto n pool'"
proof (cases "has_lease c")
  case True
  have le: "unat (w - 1) \<le> unat w" if "0 < (w :: u32)" for w
    using count_pred [of "w - 1" w] that by simp
  from rel_lease_addr_cases [OF assms(2) True] show ?thesis
  proof cases
    case (1 xs p ys)
    have old: "\<forall>q \<in> set xs \<union> {p} \<union> set ys. unat (refcnt q) \<le> n" using assms(1) 1(1) by (auto simp: counts_upto_def)
    from 1(4) show ?thesis
    proof (elim disjE conjE exE)
      fix q assume q: "0 < refcnt p" "refcnt q = refcnt p - 1"
        "pool' = pool\<lparr>lingering := lingering pool + of_bool (refcnt q = 0), leases := xs @ q # ys\<rparr>"
      then have "unat (refcnt q) \<le> n" using le [OF q(1)] old by (auto intro: le_trans)
      then show ?thesis using old q(3) by (auto simp: counts_upto_def)
    qed (use old in \<open>auto simp: counts_upto_def\<close>)
  qed
qed (use assms in \<open>auto simp: rel_lease_addr_def\<close>)

definition world_counted :: "myid_vars \<Rightarrow> nat \<Rightarrow> pool_world \<Rightarrow> bool" where
  "world_counted my n w \<longleftrightarrow> world_ok my w \<and> counts_upto n (fst w)"

lemma world_counted_init: "world_init w \<Longrightarrow> world_counted my 0 w"
  by (auto simp: world_init_def world_counted_def world_ok_def pool_ok_def conn_fits_def counts_upto_def)

lemma counts_mono: "counts_upto n pool \<Longrightarrow> counts_upto (Suc n) pool"
  by (auto simp: counts_upto_def)

lemma world_counted_step: "world_counted my n v \<Longrightarrow> pool_step my v w \<Longrightarrow> Suc n < 2 ^ 32 \<Longrightarrow> world_counted my (Suc n) w"
proof -
  assume w: "world_counted my n v" "pool_step my v w" "Suc n < 2 ^ 32"
  from w(2) show ?thesis
  proof cases
    case (grant k cs pool c' pool')
    then show ?thesis using world_ok_grant [of my pool cs k c' pool' n] w(1,3) by (simp add: world_counted_def)
  next
    case (release k cs now pool c' pool')
    then show ?thesis using world_ok_release [of my pool cs k now c' pool'] counts_release [of n pool now "cs ! k" c' pool'] w(1)
      by (simp add: world_counted_def counts_mono)
  qed
qed

text \<open>A run of fewer than \<open>2 ^ 32\<close> steps keeps every count below its bound.\<close>

interpretation pool_run: counted_system world_init "pool_step my" "world_counted my" "2 ^ 32" for my
  by unfold_locales (rule world_counted_init, assumption, rule world_counted_step, assumption+)

lemma run_world_ok:
  "world_init w \<Longrightarrow> (pool_step my ^^ n) w v \<Longrightarrow> n < 2 ^ 32 \<Longrightarrow> world_ok my v"
  using pool_run.counted_inv by (simp add: world_counted_def)

end
