(* ===== verification/AddressPoolProps.thy ===== *)
theory AddressPoolProps
  imports AddressPoolFacts
begin

text \<open>
  The properties of address pools: leasing refines the abstract table, an address is found whenever
  there is one, releasing never fails and nobody gets the address of somebody else before a count
  of references can wrap, which it does in the end, the ranges of the installed pools stay apart, and how the count of used addresses drifts.
\<close>

section \<open>Leasing refines the table\<close>

lemma share_refines:
  assumes "pool_ok pool" "share_lease my c pool = Inr (Some (i, pool'))"
  shows "i < pool_size pool \<and> lease_spec my c (pool_size pool) (lease_table pool) i (lease_table pool')"
proof -
  have s: "sorted_wrt (<) (map index (leases pool))" using assms(1) by (simp add: pool_ok_def)
  from share_lease_cases [OF assms(2)] obtain xs p ys where p: "leases pool = xs @ p # ys" "could_share_lease c"
      "same_id my (thatid p) (that_id c) = Inr True" "i = index p" "leases pool' = xs @ p\<lparr>refcnt := refcnt p + 1\<rparr> # ys"
    by auto
  have "lease_table pool' = (lease_table pool)(i \<mapsto> (thatid p, refcnt p + 1))"
    using lease_table_middle [OF p(1) s _ p(5)] p(4) by simp
  moreover have "lease_table pool i = Some (thatid p, refcnt p)"
    using lease_table_Some [OF s] p(1,4) by simp
  moreover have "i < pool_size pool" using assms(1) p(1,4) by (simp add: pool_ok_def)
  ultimately show ?thesis using p(2,3) by (auto simp: lease_spec_def)
qed

lemma allocate_refines:
  assumes "pool_ok pool" "share_lease my c pool = Inr None" "allocate_lease c pool = Ok (i, pool')"
  shows "i < pool_size pool \<and> lease_spec my c (pool_size pool) (lease_table pool) i (lease_table pool')"
proof -
  let ?m = "lease_table pool"
  have s: "sorted_wrt (<) (map index (leases pool))" using assms(1) by (simp add: pool_ok_def)
  have no: "could_share_lease c \<longrightarrow> (\<forall>j who k. ?m j = Some (who, k) \<longrightarrow> same_id my who (that_id c) = Inr False)"
    using share_lease_cases [OF assms(2)] by (auto simp: lease_table_Some [OF s])
  from allocate_lease_cases [OF assms(1,3)] show ?thesis
  proof (elim disjE exE conjE)
    fix xs ys assume g: "leases pool = xs @ ys" "map (\<lambda>p. unat (index p)) xs = [0..<unat i]" "i < pool_size pool"
      "\<forall>p \<in> set ys. i < index p" "pool' = pool\<lparr>used := used pool + 1, leases := xs @ new_lease i (that_id c) # ys\<rparr>"
    note x = prefix_indices [OF g(2)]
    have "lease_table pool' = ?m(i \<mapsto> (that_id c, 1))"
      using lease_table_insert [OF g(1), of "new_lease i (that_id c)" pool'] g(5) x by (simp add: new_lease_def)
    moreover have n: "?m i = None" using g(1,4) x by (auto simp: lease_table_None)
    moreover have "\<forall>j<i. ?m j \<noteq> None" using g(1) x by (auto simp: lease_table_None)
    ultimately show ?thesis unfolding lease_spec_def using no g(3) by auto
  next
    fix xs p ys who assume g: "leases pool = xs @ p # ys" "index p = i" "refcnt p = 0"
      "index ` set (leases pool) = {i. i < pool_size pool}" "duplicate_id (thatid p) (that_id c) = Inr who"
      "pool' = pool\<lparr>lingering := lingering pool - 1, leases := xs @ p\<lparr>thatid := who, refcnt := 1\<rparr> # ys\<rparr>"
    have "lease_table pool' = ?m(i \<mapsto> (that_id c, 1))"
      using lease_table_middle [OF g(1) s, of "p\<lparr>thatid := who, refcnt := 1\<rparr>" pool'] g(2,6) duplicate_id_eq [OF g(5)]
      by simp
    moreover have "\<nexists>j. j < pool_size pool \<and> ?m j = None" using g(4) by (auto simp: lease_table_None)
    moreover have "?m i = Some (thatid p, 0)" using lease_table_Some [OF s] g(1-3) by auto
    moreover have "i < pool_size pool" using assms(1) g(1,2) by (auto simp: pool_ok_def)
    ultimately show ?thesis unfolding lease_spec_def using no by auto
  qed
qed

lemma lease_keeps_ok:
  assumes "pool_ok pool" "share_lease my c pool = Inr (Some (i, pool')) \<or> share_lease my c pool = Inr None \<and> allocate_lease c pool = Ok (i, pool')"
  shows "pool_ok pool' \<longleftrightarrow> (\<nexists>who. lease_table pool' i = Some (who, 0))"
  using assms(2)
proof (elim disjE conjE)
  assume sh: "share_lease my c pool = Inr (Some (i, pool'))"
  from share_lease_cases [OF sh] obtain xs p ys where "leases pool = xs @ p # ys" "leases pool' = xs @ p\<lparr>refcnt := refcnt p + 1\<rparr> # ys"
    by auto
  then have s: "sorted_wrt (<) (map index (leases pool'))" using assms(1) by (simp add: pool_ok_def)
  show ?thesis using pool_ok_share [OF assms(1) sh] pool_not_ok_share [OF assms(1) sh] lease_table_Some [OF s, of i] by auto
next
  assume al: "allocate_lease c pool = Ok (i, pool')"
  note ok = pool_ok_allocate [OF assms(1) al]
  then have s: "sorted_wrt (<) (map index (leases pool'))" by (simp add: pool_ok_def)
  obtain q where "q \<in> set (leases pool')" "index q = i" "refcnt q = 1" using allocate_count(1) [OF assms(1) al] by blast
  then have "lease_table pool' i = Some (thatid q, 1)" using lease_table_Some [OF s] by blast
  then show ?thesis using ok by simp
qed

text \<open>
  C6: \<^verbatim>\<open>lease_an_address\<close> refines the table of leases. The address it returns is the start of
  the range plus an index within the pool, and the table changes as specified: one reference
  more, modulo \<open>2 ^ 32\<close>, on a lease of the same identity; if there is none, a first reference at the
  least free index, and with no free index at a lease that nobody references. The pool's invariant (sorted
  indices within the size, the number of lingering leases) is kept if and only if the count of
  the lease has not wrapped around to zero.
\<close>

theorem lease_an_address_refines:
  assumes "pool_ok pool" "lease_an_address my c pool = Ok (ipa, pool')"
  shows "\<exists>i < pool_size pool. addrtypeof ipa = AF_INET \<and> ntohl_addr ipa = range_start pool + i \<and>
    lease_spec my c (pool_size pool) (lease_table pool) i (lease_table pool') \<and>
    (pool_ok pool' \<longleftrightarrow> (\<nexists>who. lease_table pool' i = Some (who, 0)))"
proof -
  obtain i where i: "share_lease my c pool = Inr (Some (i, pool')) \<or>
      share_lease my c pool = Inr None \<and> allocate_lease c pool = Ok (i, pool')"
    and ipa: "ipa = \<lparr>sin_family = AF_INET, sin_bytes = be_bytes 4 (range_start pool' + i), sin_port = 0\<rparr>"
    by (rule lease_an_address_cases [OF assms(2)])
  have "range_start pool' = range_start pool"
    using i share_range [of my c pool i pool'] allocate_range [OF assms(1), of c i pool'] by (auto simp: range_start_def)
  then have "addrtypeof ipa = AF_INET" "ntohl_addr ipa = range_start pool + i"
    using ipa ntohl_addr_be_bytes [of ipa] by (auto simp: addrtypeof_def)
  moreover have "i < pool_size pool \<and> lease_spec my c (pool_size pool) (lease_table pool) i (lease_table pool')"
    using i share_refines [OF assms(1)] allocate_refines [OF assms(1)] by blast
  ultimately show ?thesis using lease_keeps_ok [OF assms(1) i] by blast
qed

text \<open>A pool of two addresses and two clients, for the witnesses.\<close>

definition fqdn_conn :: "chunk \<Rightarrow> connection" where
  "fqdn_conn n = \<lparr>that_id = empty_id\<lparr>kind := ID_FQDN, id_name := n\<rparr>, has_lease = False,
     client_addr = ip_addr empty_id, conn_pool = Some 1\<rparr>"

definition fresh_pool :: "u32 \<Rightarrow> ip_pool" where
  "fresh_pool n = \<lparr>pool_ptr = 1, pool_refcount = 1,
     pool_range = \<lparr>r_start = \<lparr>sin_family = AF_INET, sin_bytes = [192, 0, 2, 4], sin_port = 0\<rparr>,
       r_end = \<lparr>sin_family = AF_INET, sin_bytes = [192, 0, 2, 5], sin_port = 0\<rparr>\<rparr>,
     pool_size = n, used = 0, lingering = 0, leases = []\<rparr>"

definition no_myid :: myid_vars where
  "no_myid = \<lparr>my_state = MYID_UNKNOWN, myids = (\<lambda>_. empty_id)\<rparr>"

lemmas pool_eval = fqdn_conn_def fresh_pool_def no_myid_def empty_id_def id_kinds proper_id_def
  could_share_iff

lemma proper_fqdn_conn [simp]: "proper_id (that_id (fqdn_conn n))" "\<not> has_lease (fqdn_conn n)"
  by (simp_all add: pool_eval)

lemma same_id_fqdn [simp]:
  "same_id my (that_id (fqdn_conn a)) (that_id (fqdn_conn b)) = Inr (same_fqdn a b)"
  by (simp add: same_id_def resolve_myid_def pool_eval)

lemma first_lease:
  assumes "leases pool = []" "0 < pool_size pool"
  shows "grant_lease my c pool = Ok (c\<lparr>has_lease := True,
      client_addr := \<lparr>sin_family = AF_INET, sin_bytes = be_bytes 4 (range_start pool), sin_port = 0\<rparr>\<rparr>,
    pool\<lparr>used := used pool + 1, leases := [new_lease 0 (that_id c)]\<rparr>)"
proof -
  have "share_lease my c pool = Inr None" using assms(1) by (simp add: share_lease_def)
  moreover have "allocate_lease c pool = Ok (0, pool\<lparr>used := used pool + 1, leases := [new_lease 0 (that_id c)]\<rparr>)"
    using assms by (simp add: allocate_lease_def)
  ultimately show ?thesis
    by (simp add: grant_lease_def lease_an_address_def addr_of_index_value range_start_def)
qed

theorem lease_an_address_refines_witness:
  "\<exists>ipa pool' i. lease_an_address no_myid (fqdn_conn [0x61]) (fresh_pool 2) = Ok (ipa, pool') \<and>
    i < 2 \<and> ntohl_addr ipa = 0xC0000204 + i \<and>
    lease_spec no_myid (fqdn_conn [0x61]) 2 (lease_table (fresh_pool 2)) i (lease_table pool') \<and>
    (pool_ok pool' \<longleftrightarrow> (\<nexists>who. lease_table pool' i = Some (who, 0)))"
proof -
  let ?c = "fqdn_conn [0x61]" and ?p = "fresh_pool 2"
  have ok: "pool_ok ?p" by (simp add: pool_eval pool_ok_def)
  obtain ipa pool' where l: "lease_an_address no_myid ?c ?p = Ok (ipa, pool')"
    using first_lease [of ?p no_myid ?c] by (auto simp: grant_lease_def bind_outcome_Ok_iff fresh_pool_def)
  have r: "range_start ?p = 0xC0000204" "pool_size ?p = 2" by (simp_all add: range_start_def fresh_pool_def ntohl_addr_def)
  from lease_an_address_refines [OF ok l] l show ?thesis unfolding r by blast
qed

section \<open>An address is found\<close>

lemma share_scan_total:
  "proper_id i \<Longrightarrow> \<forall>p \<in> set ls. proper_id (thatid p) \<Longrightarrow> \<exists>r. share_scan my i ls = Inr r"
proof (induction ls)
  case (Cons p ps)
  obtain r where "same_id my (thatid p) i = Inr r" using same_id_total Cons.prems by (metis list.set_intros(1))
  then show ?case using Cons by (cases r) auto
qed simp

lemma share_lease_total:
  "proper_id (that_id c) \<Longrightarrow> \<forall>p \<in> set (leases pool). proper_id (thatid p) \<Longrightarrow> \<exists>r. share_lease my c pool = Inr r"
  using share_scan_total [of "that_id c" "leases pool" my]
  by (auto simp: share_lease_def Let_def split: option.splits)

lemma allocate_lease_total:
  assumes "pool_ok pool" "\<forall>p \<in> set (leases pool). proper_id (thatid p)"
    "(\<exists>i < pool_size pool. i \<notin> index ` set (leases pool)) \<or> (\<exists>p \<in> set (leases pool). refcnt p = 0)"
  shows "\<exists>r. allocate_lease c pool = Ok r"
proof -
  obtain j ll xs ys where g: "scan_gap (leases pool) 0 None [] = Inr (j, ll, xs, ys)" "leases pool = xs @ ys"
    "map (\<lambda>p. unat (index p)) xs = [0..<unat j]" "j \<le> pool_size pool" "\<forall>p \<in> set ys. j < index p"
    "ll = None \<longrightarrow> (\<forall>p \<in> set xs. refcnt p \<noteq> 0)" "\<forall>l. ll = Some l \<longrightarrow> l \<in> set xs \<and> refcnt l = 0"
    by (rule allocate_scan [OF assms(1)])
  show ?thesis
  proof (cases "j < pool_size pool")
    case False
    then have j: "j = pool_size pool" using g(4) by simp
    have "ys = []" using g(2,5) j assms(1) by (cases ys) (auto simp: pool_ok_def)
    then have all: "leases pool = xs" using g(2) by simp
    have "\<exists>p \<in> set xs. refcnt p = 0" using assms(3) prefix_indices [OF g(3)] j all by auto
    then obtain l where l: "ll = Some l" "l \<in> set xs" using g(6,7) by fastforce
    then have "take_over (that_id c) l (leases pool) \<noteq> Inl f" for f
      using assms(2) all by (simp add: take_over_def duplicate_id_proper)
    then show ?thesis using g(1) l(1) False by (auto simp: allocate_lease_def split: sum.splits)
  qed (use g(1) in \<open>simp add: allocate_lease_def\<close>)
qed

text \<open>
  C9: A pool gives an address whenever it has one to give: when some index has no lease, or some
  lease is lingering, or a lease is held by the client's own identity, \<^verbatim>\<open>lease_an_address\<close>
  returns an address and neither fails nor aborts.
\<close>

theorem lease_an_address_succeeds:
  assumes "pool_ok pool" "proper_id (that_id c)" "\<forall>p \<in> set (leases pool). proper_id (thatid p)"
    and "(\<exists>i < pool_size pool. lease_table pool i = None) \<or> (\<exists>p \<in> set (leases pool). refcnt p = 0) \<or>
      could_share_lease c \<and> (\<exists>p \<in> set (leases pool). same_id my (thatid p) (that_id c) = Inr True)"
  shows "\<exists>ipa pool'. lease_an_address my c pool = Ok (ipa, pool')"
proof -
  obtain r where r: "share_lease my c pool = Inr r" using share_lease_total assms(2,3) by metis
  show ?thesis
  proof (cases r)
    case None
    then have "\<not> (could_share_lease c \<and> (\<exists>p \<in> set (leases pool). same_id my (thatid p) (that_id c) = Inr True))"
      using share_lease_cases [OF r] by fastforce
    then have "\<exists>q. allocate_lease c pool = Ok q"
      using assms(4) by (intro allocate_lease_total [OF assms(1,3)]) (simp only: lease_table_None, blast)
    then show ?thesis using r None by (auto simp: lease_an_address_def addr_of_index_value)
  qed (use r in \<open>auto simp: lease_an_address_def addr_of_index_value\<close>)
qed

theorem lease_an_address_succeeds_witness:
  "\<exists>ipa pool'. lease_an_address no_myid (fqdn_conn [0x62])
    ((fresh_pool 1)\<lparr>leases := [(new_lease 0 (that_id (fqdn_conn [0x61])))\<lparr>refcnt := 0\<rparr>], lingering := 1\<rparr>) = Ok (ipa, pool')"
  by (rule lease_an_address_succeeds)
    (simp_all add: pool_ok_def new_lease_def lease_table_def fresh_pool_def)

section \<open>Runs of a pool and its connections\<close>

lemma world_ok_rel_lease_addr:
  assumes w: "world_ok my (pool, cs)" and c: "c \<in> set cs"
  shows "\<exists>r. rel_lease_addr now c pool = Ok r"
proof (cases "has_lease c")
  case True
  have f: "conn_fits pool c" using w c by (simp add: world_ok_def)
  then obtain p where p: "p \<in> set (leases pool)" "holds pool (index p) c" and i: "proper_id (that_id c)"
      "addrtypeof (client_addr c) = AF_INET"
    using True by (auto simp: conn_fits_def)
  have lf: "lease_fits my pool cs p" and sz: "index p < pool_size pool" and s: "sorted_wrt (<) (map index (leases pool))"
    using w p(1) by (auto simp: world_ok_def pool_ok_def)
  let ?i = "ntohl_addr (client_addr c) - range_start pool"
  have ix: "?i = index p" using p(2) by (simp add: holds_def)
  obtain xs q ys where r: "ref_to_lease (leases pool) ?i = Some (xs, q, ys)"
    using p(1) ix ref_to_lease_None [of "leases pool" ?i] by (cases "ref_to_lease (leases pool) ?i") force+
  then have "q = p" using ref_to_lease_Some [OF r] distinct_index [OF s _ p(1), of q] ix by auto
  moreover have "0 < length (filter (holds pool (index p)) cs)" using c p(2) by (auto simp: filter_empty_conv)
  then have "0 < unat (refcnt p)" using lf unfolding lease_fits_def by linarith
  then have "0 < refcnt p" by (simp add: word_less_nat_alt)
  moreover have "kind (thatid p) = kind (that_id c)"
    using lf c p(2) i(1) same_id_kind by (auto simp: lease_fits_def)
  then have "\<not> could_share_lease c \<Longrightarrow> refcnt p = 1" using lf by (simp add: could_share_iff lease_fits_def)
  ultimately show ?thesis using r i(2) ix sz True by (simp add: rel_lease_addr_def)
qed (simp add: rel_lease_addr_def)

text \<open>
  C8: Whatever sequence of fewer than \<open>2 ^ 32\<close> grants and releases a fresh pool and its connections go
  through, in any order, releasing a connection's lease returns: none of the assertions of
  \<^verbatim>\<open>rel_lease_addr\<close> (a lease with that index exists, its count of references is positive, an unshared
  lease has exactly one) can fail. The bound is that of the count, which is an unsigned int.
\<close>

theorem release_never_aborts:
  assumes "world_init w" "(pool_step my ^^ n) w (pool, cs)" "n < 2 ^ 32" "c \<in> set cs"
  shows "\<exists>c' pool'. rel_lease_addr now c pool = Ok (c', pool')"
  using world_ok_rel_lease_addr [OF run_world_ok [OF assms(1-3)] assms(4)] by (metis surj_pair)

definition granted :: "connection \<Rightarrow> ip_pool \<Rightarrow> u32 \<Rightarrow> connection" where
  "granted c pool i = c\<lparr>has_lease := True,
     client_addr := \<lparr>sin_family = AF_INET, sin_bytes = be_bytes 4 (range_start pool + i), sin_port = 0\<rparr>\<rparr>"

lemma world_init_clients: "\<forall>c \<in> set cs. proper_id (that_id c) \<and> \<not> has_lease c \<Longrightarrow> world_init (fresh_pool n, cs)"
  by (simp add: world_init_def fresh_pool_def)

lemma first_grant_step:
  "0 < n \<Longrightarrow> pool_step my (fresh_pool n, c # cs)
     ((fresh_pool n)\<lparr>used := 1, leases := [new_lease 0 (that_id c)]\<rparr>, granted c (fresh_pool n) 0 # cs)"
  using pool_step.grant [of 0 "c # cs" my "fresh_pool n"] first_lease [of "fresh_pool n" my c]
  by (simp add: granted_def fresh_pool_def)

theorem release_never_aborts_witness:
  "\<exists>c' pool'. rel_lease_addr 7 (granted (fqdn_conn [0x61]) (fresh_pool 2) 0)
     ((fresh_pool 2)\<lparr>used := 1, leases := [new_lease 0 (that_id (fqdn_conn [0x61]))]\<rparr>) = Ok (c', pool')"
proof -
  let ?c = "fqdn_conn [0x61]"
  have "(pool_step no_myid ^^ 1) (fresh_pool 2, [?c])
      ((fresh_pool 2)\<lparr>used := 1, leases := [new_lease 0 (that_id ?c)]\<rparr>, [granted ?c (fresh_pool 2) 0])"
    using first_grant_step [of 2 no_myid ?c "[]"] by (simp only: relpowp_1) simp
  from release_never_aborts [OF world_init_clients this, of "granted ?c (fresh_pool 2) 0" 7] show ?thesis by simp
qed

lemma two_in_filter:
  assumes "k < length xs" "l < length xs" "k \<noteq> l" "P (xs ! k)" "P (xs ! l)"
  shows "2 \<le> length (filter P xs)"
proof -
  have "{k, l} \<subseteq> {i. i < length xs \<and> P (xs ! i)}" using assms by auto
  then have "card {k, l} \<le> length (filter P xs)" unfolding length_filter_conv_card by (rule card_mono [rotated]) simp
  then show ?thesis using assms(3) by simp
qed

text \<open>
  C7: Nobody gets the address of somebody else. In every state that fewer than \<open>2 ^ 32\<close> grants and
  releases reach, two connections that have leases on the same address are of the same kind of identity, that kind can
  share a lease, and both are the identity the lease was made for.
\<close>

theorem leases_not_shared:
  assumes "world_init w" "(pool_step my ^^ n) w (pool, cs)" "n < 2 ^ 32"
    and "k < length cs" "l < length cs" "k \<noteq> l" "has_lease (cs ! k)" "has_lease (cs ! l)"
    and "ntohl_addr (client_addr (cs ! k)) = ntohl_addr (client_addr (cs ! l))"
  shows "kind (that_id (cs ! k)) = kind (that_id (cs ! l)) \<and> could_share_lease (cs ! k) \<and>
    (\<exists>p \<in> set (leases pool). range_start pool + index p = ntohl_addr (client_addr (cs ! k)) \<and>
      same_id my (thatid p) (that_id (cs ! k)) = Inr True \<and> same_id my (thatid p) (that_id (cs ! l)) = Inr True)"
proof -
  have w: "world_ok my (pool, cs)" by (rule run_world_ok [OF assms(1-3)])
  have f: "conn_fits pool (cs ! k)" "conn_fits pool (cs ! l)" using w assms(4,5) by (auto simp: world_ok_def)
  then obtain p where p: "p \<in> set (leases pool)" "holds pool (index p) (cs ! k)" using assms(7) by (auto simp: conn_fits_def)
  then have h: "holds pool (index p) (cs ! l)" using assms(8,9) by (simp add: holds_def)
  have lf: "lease_fits my pool cs p" using w p(1) by (auto simp: world_ok_def)
  then have s: "same_id my (thatid p) (that_id (cs ! k)) = Inr True" "same_id my (thatid p) (that_id (cs ! l)) = Inr True"
    using p(2) h assms(4,5) by (auto simp: lease_fits_def)
  have kd: "kind (thatid p) = kind (that_id (cs ! k))" "kind (thatid p) = kind (that_id (cs ! l))"
    using same_id_kind s lf f by (auto simp: lease_fits_def conn_fits_def)
  have "2 \<le> unat (refcnt p)" using two_in_filter [OF assms(4-6), of "holds pool (index p)"] p(2) h lf by (simp add: lease_fits_def)
  then have "kind (thatid p) \<noteq> ID_NULL" using lf by (auto simp: lease_fits_def)
  moreover have "range_start pool + index p = ntohl_addr (client_addr (cs ! k))"
    using p(2) unfolding holds_def by (metis add_diff_cancel_left' diff_add_cancel add.commute)
  ultimately show ?thesis using s kd p(1) by (auto simp: could_share_iff)
qed

lemma second_grant_step:
  "0 < n \<Longrightarrow> pool_step my
     ((fresh_pool n)\<lparr>used := 1, leases := [new_lease 0 (that_id (fqdn_conn a))]\<rparr>, [c, fqdn_conn a])
     ((fresh_pool n)\<lparr>used := 1, leases := [(new_lease 0 (that_id (fqdn_conn a)))\<lparr>refcnt := 2\<rparr>]\<rparr>,
      [c, granted (fqdn_conn a) (fresh_pool n) 0])"
proof -
  let ?p = "(fresh_pool n)\<lparr>used := 1, leases := [new_lease 0 (that_id (fqdn_conn a))]\<rparr>"
  have "share_lease my (fqdn_conn a) ?p =
      Inr (Some (0, ?p\<lparr>leases := [(new_lease 0 (that_id (fqdn_conn a)))\<lparr>refcnt := 2\<rparr>]\<rparr>))"
    by (simp add: share_lease_def new_lease_def same_fqdn_def) (simp add: could_share_iff fqdn_conn_def id_kinds)
  then have "grant_lease my (fqdn_conn a) ?p =
      Ok (granted (fqdn_conn a) (fresh_pool n) 0, ?p\<lparr>leases := [(new_lease 0 (that_id (fqdn_conn a)))\<lparr>refcnt := 2\<rparr>]\<rparr>)"
    by (simp add: grant_lease_def lease_an_address_def addr_of_index_value granted_def range_start_def)
  then show ?thesis using pool_step.grant [of 1 "[c, fqdn_conn a]" my ?p] by simp
qed

theorem leases_not_shared_witness:
  "could_share_lease (granted (fqdn_conn [0x61]) (fresh_pool 2) 0)"
proof -
  let ?c = "fqdn_conn [0x61]" and ?g = "granted (fqdn_conn [0x61]) (fresh_pool 2) 0"
  have "(pool_step no_myid ^^ Suc (Suc 0)) (fresh_pool 2, [?c, ?c])
      ((fresh_pool 2)\<lparr>used := 1, leases := [(new_lease 0 (that_id ?c))\<lparr>refcnt := 2\<rparr>]\<rparr>, [?g, ?g])"
    using first_grant_step [of 2 no_myid ?c "[?c]"] second_grant_step [of 2 no_myid "[0x61]" ?g]
    by (intro relpowp_Suc_I relpowp_0_I) simp_all
  from leases_not_shared [OF world_init_clients this _, of 0 1] show ?thesis by (simp add: granted_def)
qed

section \<open>The width of the count\<close>

text \<open>A pool with one address, after \<open>n\<close> grants to its first connection.\<close>

definition regranted :: "ip_pool \<Rightarrow> connection \<Rightarrow> nat \<Rightarrow> ip_pool" where
  "regranted pool c n = pool\<lparr>used := used pool + 1, leases := [(new_lease 0 (that_id c))\<lparr>refcnt := of_nat n\<rparr>]\<rparr>"

lemma granted_simps [simp]:
  "that_id (granted c pool i) = that_id c" "could_share_lease (granted c pool i) = could_share_lease c"
  "granted (granted c pool i) pool i = granted c pool i" "has_lease (granted c pool i)"
  "range_start (regranted pool c n) = range_start pool"
  by (simp_all add: granted_def could_share_iff regranted_def range_start_def)

lemma regrant:
  assumes "proper_id (that_id c)" "could_share_lease c" "0 < n" "n < 2 ^ 32"
  shows "grant_lease my (granted c pool 0) (regranted pool c n) = Ok (granted c pool 0, regranted pool c (Suc n))"
proof -
  have "unat (of_nat n :: u32) = n" unfolding unat_of_nat using assms(4) by simp
  then have "(of_nat n :: u32) \<noteq> 0" using assms(3) by (metis less_irrefl unat_0)
  then have "share_lease my (granted c pool 0) (regranted pool c n) = Inr (Some (0, regranted pool c (Suc n)))"
    using assms same_id_refl [OF assms(1)] by (simp add: share_lease_def regranted_def new_lease_def add.commute)
  then show ?thesis
    by (simp add: grant_lease_def lease_an_address_def addr_of_index_value) (simp add: granted_def)
qed

lemma regrants:
  assumes "leases pool = []" "0 < pool_size pool" "proper_id (that_id c)" "could_share_lease c" "n < 2 ^ 32"
  shows "(pool_step my ^^ Suc n) (pool, c # cs) (regranted pool c (Suc n), granted c pool 0 # cs)"
  using assms(5)
proof (induction n)
  case 0
  have "pool_step my (pool, c # cs) (regranted pool c 1, granted c pool 0 # cs)"
    using pool_step.grant [of 0 "c # cs" my pool] first_lease [OF assms(1,2), of my c]
    by (simp add: granted_def regranted_def new_lease_def)
  then show ?case by (intro relpowp_Suc_I [OF relpowp_0_I]) simp
next
  case (Suc n)
  then have run: "(pool_step my ^^ Suc n) (pool, c # cs) (regranted pool c (Suc n), granted c pool 0 # cs)" by simp
  have "pool_step my (regranted pool c (Suc n), granted c pool 0 # cs) (regranted pool c (Suc (Suc n)), granted c pool 0 # cs)"
    using pool_step.grant [of 0 "granted c pool 0 # cs" my "regranted pool c (Suc n)"] regrant [OF assms(3,4), of "Suc n" my pool] Suc.prems
    by simp
  then show ?case by (rule relpowp_Suc_I [OF run])
qed

lemma wrapped_grant:
  assumes "pool_size pool = 1" "proper_id (that_id c)" "same_id my (that_id c) (that_id d) = Inr False" "of_nat n = (0 :: u32)"
  shows "\<exists>pool'. grant_lease my d (regranted pool c n) = Ok (granted d pool 0, pool')"
proof -
  let ?p = "regranted pool c n"
  have "share_lease my d ?p = Inr None" using assms(3) by (simp add: share_lease_def regranted_def new_lease_def)
  moreover have "\<exists>pool'. allocate_lease d ?p = Ok (0, pool') \<and> range_start pool' = range_start pool"
    using assms(1,2,4)
    by (simp add: allocate_lease_def regranted_def new_lease_def take_over_def duplicate_id_proper range_start_def)
  ultimately show ?thesis
    by (auto simp: grant_lease_def lease_an_address_def addr_of_index_value granted_def)
qed

text \<open>
  C23: The bound is sharp: the count of references wraps. In a pool of one address, when a client has
  asked \<open>2 ^ 32\<close> times and been granted the address each time, the count is zero, and a client
  of another identity is granted the address that the first one still holds.
\<close>

theorem refcnt_wrap_shares_address:
  assumes "leases pool = []" "pool_size pool = 1" "proper_id (that_id c)" "could_share_lease c"
    and "same_id my (that_id c) (that_id d) = Inr False"
  shows "\<exists>pool' c' d'. (pool_step my ^^ Suc (2 ^ 32)) (pool, [c, d]) (pool', [c', d']) \<and>
    that_id c' = that_id c \<and> that_id d' = that_id d \<and> has_lease c' \<and> has_lease d' \<and> client_addr c' = client_addr d'"
proof -
  define n :: nat where "n = 2 ^ 32 - 1"
  have n: "n < 2 ^ 32" "2 ^ 32 = Suc n" "of_nat (Suc n) = (0 :: u32)" unfolding n_def by simp_all
  have run: "(pool_step my ^^ Suc n) (pool, [c, d]) (regranted pool c (Suc n), [granted c pool 0, d])"
    by (rule regrants) (use assms n(1) in simp_all)
  obtain pool' where "grant_lease my d (regranted pool c (Suc n)) = Ok (granted d pool 0, pool')"
    using wrapped_grant [OF assms(2,3,5) n(3)] by blast
  then have "pool_step my (regranted pool c (Suc n), [granted c pool 0, d]) (pool', [granted c pool 0, granted d pool 0])"
    using pool_step.grant [of 1 "[granted c pool 0, d]" my] by simp
  then have "(pool_step my ^^ Suc (2 ^ 32)) (pool, [c, d]) (pool', [granted c pool 0, granted d pool 0])"
    unfolding n(2) by (rule relpowp_Suc_I [OF run])
  moreover have "client_addr (granted c pool 0) = client_addr (granted d pool 0)" by (simp add: granted_def)
  ultimately show ?thesis using granted_simps(1,4) by blast
qed

theorem refcnt_wrap_shares_address_witness:
  "\<exists>pool' c' d'. (pool_step no_myid ^^ Suc (2 ^ 32)) (fresh_pool 1, [fqdn_conn [0x61], fqdn_conn [0x62]]) (pool', [c', d']) \<and>
    that_id c' = that_id (fqdn_conn [0x61]) \<and> that_id d' = that_id (fqdn_conn [0x62]) \<and>
    has_lease c' \<and> has_lease d' \<and> client_addr c' = client_addr d'"
proof -
  have "could_share_lease (fqdn_conn [0x61])" "leases (fresh_pool 1) = []" "pool_size (fresh_pool 1) = 1"
    by (simp_all add: pool_eval)
  moreover have "same_id no_myid (that_id (fqdn_conn [0x61])) (that_id (fqdn_conn [0x62])) = Inr False"
    by (simp add: same_fqdn_def tolower_octet_def)
  ultimately show ?thesis by (intro refcnt_wrap_shares_address) simp_all
qed

section \<open>The list of pools\<close>

definition range4 :: "ip_range \<Rightarrow> bool" where
  "range4 r \<longleftrightarrow> wf_addr (r_start r) \<and> wf_addr (r_end r) \<and> sin_family (r_start r) = AF_INET \<and>
     sin_family (r_end r) = AF_INET \<and> addr_val (r_start r) \<le> addr_val (r_end r)"

definition range_addrs :: "ip_range \<Rightarrow> nat set" where
  "range_addrs r = {addr_val (r_start r)..addr_val (r_end r)}"

definition pools_apart :: "ip_pool list \<Rightarrow> bool" where
  "pools_apart ps \<longleftrightarrow> (\<forall>p \<in> set ps. range4 (pool_range p)) \<and>
     pairwise (\<lambda>p q. range_addrs (pool_range p) \<inter> range_addrs (pool_range q) = {}) (set ps)"

lemma addrcmp4:
  assumes "range4 a" "range4 b" "x \<in> {r_start a, r_end a}" "y \<in> {r_start b, r_end b}"
  shows "addrcmp x y = sgn (int (addr_val x) - int (addr_val y))"
proof -
  have "wf_addr x" "wf_addr y" "sin_family x = sin_family y" using assms by (auto simp: range4_def)
  then show ?thesis by (simp add: addrcmp_value)
qed

lemma find_addresspool_cases:
  assumes "range4 a" "\<forall>p \<in> set ps. range4 (pool_range p)"
  shows "(case find_addresspool a ps of
      Inl _ \<Rightarrow> \<exists>p \<in> set ps. range_addrs (pool_range p) \<inter> range_addrs a \<noteq> {} \<and> range_addrs (pool_range p) \<noteq> range_addrs a
    | Inr None \<Rightarrow> \<forall>p \<in> set ps. range_addrs (pool_range p) \<inter> range_addrs a = {}
    | Inr (Some p) \<Rightarrow> p \<in> set ps \<and> range_addrs (pool_range p) = range_addrs a)"
  using assms(2)
proof (induction ps)
  case (Cons h hs)
  let ?b = "pool_range h"
  have h: "range4 ?b" using Cons.prems by simp
  have le: "addr_val (r_start a) \<le> addr_val (r_end a)" "addr_val (r_start ?b) \<le> addr_val (r_end ?b)"
    using assms(1) h by (auto simp: range4_def)
  note c = addrcmp4 [OF assms(1) h]
  let ?same = "addrcmp (r_start a) (r_start ?b) = 0 \<and> addrcmp (r_end a) (r_end ?b) = 0"
  let ?off = "if addrcmp (r_start a) (r_start ?b) < 0 then addrcmp (r_end a) (r_start ?b) < 0 else addrcmp (r_start a) (r_end ?b) > 0"
  have same: "?same \<longleftrightarrow> range_addrs ?b = range_addrs a"
    using c [of "r_start a" "r_start ?b"] c [of "r_end a" "r_end ?b"] le
    by (auto simp: range_addrs_def sgn_if)
  have off: "?off \<longleftrightarrow> range_addrs ?b \<inter> range_addrs a = {}"
    using c [of "r_start a" "r_start ?b"] c [of "r_end a" "r_start ?b"] c [of "r_start a" "r_end ?b"] le
    by (auto simp: range_addrs_def sgn_if)
  have IH: "(case find_addresspool a hs of
      Inl _ \<Rightarrow> \<exists>p \<in> set hs. range_addrs (pool_range p) \<inter> range_addrs a \<noteq> {} \<and> range_addrs (pool_range p) \<noteq> range_addrs a
    | Inr None \<Rightarrow> \<forall>p \<in> set hs. range_addrs (pool_range p) \<inter> range_addrs a = {}
    | Inr (Some p) \<Rightarrow> p \<in> set hs \<and> range_addrs (pool_range p) = range_addrs a)"
    using Cons by simp
  consider "?same" | "\<not> ?same" "?off" | "\<not> ?same" "\<not> ?off" by blast
  then show ?case
  proof cases
    case 1
    then have "find_addresspool a (h # hs) = Inr (Some h)" by simp
    then show ?thesis using same 1 by simp
  next
    case 2
    then have "find_addresspool a (h # hs) = find_addresspool a hs" by (auto simp: Let_def)
    then show ?thesis using IH off 2(2) by (auto split: sum.splits option.splits)
  next
    case 3
    then have "isl (find_addresspool a (h # hs))" by (auto simp: Let_def)
    then show ?thesis using same off 3 by (auto simp: isl_def)
  qed
qed simp

text \<open>
  C20: Installing a pool keeps the ranges of the installed pools apart. A range that no pool meets
  becomes a new pool; the range of an installed pool gives that pool, and the list stays; a range
  that overlaps a pool without being its range is refused, and the list stays.
\<close>

theorem install_addresspool_apart:
  assumes "pools_apart ps" "range4 a" "install_addresspool fresh a ps = (r, ps')"
  shows "pools_apart ps' \<and> set ps \<subseteq> set ps' \<and>
    (case r of
       Some p \<Rightarrow> p \<in> set ps' \<and> range_addrs (pool_range p) = range_addrs a
     | None \<Rightarrow> ps' = ps \<and> (\<exists>p \<in> set ps. range_addrs (pool_range p) \<inter> range_addrs a \<noteq> {} \<and>
         range_addrs (pool_range p) \<noteq> range_addrs a))"
proof -
  have f: "\<forall>p \<in> set ps. range4 (pool_range p)" using assms(1) by (simp add: pools_apart_def)
  show ?thesis
  proof (cases "find_addresspool a ps")
    case (Inl e)
    then show ?thesis using find_addresspool_cases [OF assms(2) f] assms by (auto simp: install_addresspool_def)
  next
    case (Inr q)
    show ?thesis
    proof (cases q)
      case None
      then have "\<forall>p \<in> set ps. range_addrs (pool_range p) \<inter> range_addrs a = {}"
        using find_addresspool_cases [OF assms(2) f] Inr by simp
      then show ?thesis using assms Inr None
        by (auto simp: install_addresspool_def Let_def pools_apart_def pairwise_insert Int_commute)
    next
      case (Some p)
      then show ?thesis using find_addresspool_cases [OF assms(2) f] assms Inr by (auto simp: install_addresspool_def)
    qed
  qed
qed

definition v4range :: "byte list \<Rightarrow> byte list \<Rightarrow> ip_range" where
  "v4range a b = \<lparr>r_start = \<lparr>sin_family = AF_INET, sin_bytes = a, sin_port = 0\<rparr>,
     r_end = \<lparr>sin_family = AF_INET, sin_bytes = b, sin_port = 0\<rparr>\<rparr>"

theorem install_addresspool_apart_witness:
  "install_addresspool 2 (v4range [192, 0, 2, 5] [192, 0, 2, 9]) [fresh_pool 2] = (None, [fresh_pool 2]) \<and>
   (\<exists>p \<in> set [fresh_pool 2]. range_addrs (pool_range p) \<noteq> range_addrs (v4range [192, 0, 2, 5] [192, 0, 2, 9]))"
proof -
  let ?a = "v4range [192, 0, 2, 5] [192, 0, 2, 9]"
  have i: "install_addresspool 2 ?a [fresh_pool 2] = (None, [fresh_pool 2])"
    by (simp add: install_addresspool_def v4range_def fresh_pool_def addrcmp_def addrtypeof_def addrbytesptr_def af_defs)
  have "pools_apart [fresh_pool 2]" "range4 ?a"
    by (simp_all add: pools_apart_def range4_def fresh_pool_def v4range_def wf_addr_def addr_val_def)
  from install_addresspool_apart [OF this i] show ?thesis using i by auto
qed

section \<open>The count of used addresses\<close>

lemma same_fqdn_lease:
  assumes "leases pool = [p]" "refcnt p = 0" "thatid p = that_id c" "proper_id (that_id c)" "could_share_lease c"
    "lingering pool = 1"
  shows "grant_lease my c pool = Ok (granted c pool (index p),
    pool\<lparr>lingering := 0, used := used pool + 1, leases := [p\<lparr>refcnt := 1\<rparr>]\<rparr>)"
proof -
  have "share_lease my c pool = Inr (Some (index p, pool\<lparr>lingering := 0, used := used pool + 1, leases := [p\<lparr>refcnt := 1\<rparr>]\<rparr>))"
    using assms same_id_refl [OF assms(4)] by (simp add: share_lease_def)
  then show ?thesis
    by (simp add: grant_lease_def lease_an_address_def addr_of_index_value granted_def range_start_def)
qed

text \<open>
  C22: Reviving a lingering lease counts its address as used a second time. In a pool of one address, a
  client that leases, releases and leases again leaves \<^verbatim>\<open>used\<close> at two; the next client is not
  told that the pool is full: the assertion \<^verbatim>\<open>pool->size == pool->used\<close> fails.
\<close>

theorem revived_lease_overcounts:
  assumes "leases pool = []" "used pool = 0" "lingering pool = 0" "pool_size pool = 1"
    and "proper_id (that_id c)" "proper_id (that_id d)" "could_share_lease c"
    and "same_id my (that_id c) (that_id d) = Inr False"
  shows "bind_outcome (grant_lease my c pool) (\<lambda>(c, pool).
      bind_outcome (rel_lease_addr now c pool) (\<lambda>(c, pool).
        bind_outcome (grant_lease my c pool) (\<lambda>(c, pool). grant_lease my d pool))) = Abort Passert"
proof -
  let ?l = "\<lparr>index = 0, thatid = that_id c, refcnt = 0, lingering_since = now\<rparr>"
  let ?p1 = "pool\<lparr>used := 1, leases := [new_lease 0 (that_id c)]\<rparr>" and ?p2 = "pool\<lparr>used := 1, lingering := 1, leases := [?l]\<rparr>"
  let ?p3 = "pool\<lparr>used := 2, leases := [?l\<lparr>refcnt := 1\<rparr>]\<rparr>" and ?c2 = "(granted c pool 0)\<lparr>has_lease := False\<rparr>"
  have g1: "grant_lease my c pool = Ok (granted c pool 0, ?p1)"
    using first_lease [OF assms(1), of my c] assms(2-4) by (simp add: granted_def)
  have n: "ntohl_addr (client_addr (granted c pool 0)) = range_start pool"
    using ntohl_addr_be_bytes [of "client_addr (granted c pool 0)" "range_start pool"] by (simp add: granted_def)
  have g2: "rel_lease_addr now (granted c pool 0) ?p1 = Ok (?c2, ?p2)"
    using assms n by (simp add: rel_lease_addr_def new_lease_def range_start_def could_share_iff) (simp add: granted_def addrtypeof_def)
  have g3: "grant_lease my ?c2 ?p2 = Ok (granted ?c2 ?p2 0, ?p3)"
    using same_fqdn_lease [of ?p2 ?l ?c2 my] assms by (simp add: granted_def could_share_iff)
  have sh: "share_lease my d ?p3 = Inr None" using assms(8) by (simp add: share_lease_def)
  have "allocate_lease d ?p3 = Abort Passert" using assms(4) by (simp add: allocate_lease_def)
  then have "grant_lease my d ?p3 = Abort Passert" using sh by (simp add: grant_lease_def lease_an_address_def)
  then show ?thesis using g1 g2 g3 by simp
qed

theorem revived_lease_overcounts_witness:
  "bind_outcome (grant_lease no_myid (fqdn_conn [0x61]) (fresh_pool 1)) (\<lambda>(c, pool).
      bind_outcome (rel_lease_addr 7 c pool) (\<lambda>(c, pool).
        bind_outcome (grant_lease no_myid c pool) (\<lambda>(c, pool). grant_lease no_myid (fqdn_conn [0x62]) pool))) = Abort Passert"
  by (rule revived_lease_overcounts) (simp_all add: same_fqdn_def tolower_octet_def, simp_all add: pool_eval)

end
