(* ===== verification/ReplayWindow.thy ===== *)
theory ReplayWindow
  imports Prelude
begin

text \<open>
  The anti-replay window of the KLIPS kernel module, \<^verbatim>\<open>linux/net/ipsec/ipsec_rcv.c\<close>, and the two
  steps of the receive machine that use it: the check before a packet is authenticated and the
  update after. A security association carries the fields that these functions use, with the
  widths of \<^verbatim>\<open>struct ipsec_sa\<close>. The calculation of the authenticator is the function pointer
  \<^verbatim>\<open>rcv_calc_auth\<close> of the protocol and a parameter.
\<close>

section \<open>The window\<close>

record ipsec_sa =
  ips_auth_errs :: u32
  ips_replaywin_errs :: u32
  ips_replaywin :: byte
  ips_replaywin_lastseq :: u32
  ips_replaywin_bitmap :: u64
  ips_replaywin_maxdiff :: u32

text \<open>\<^verbatim>\<open>pfkey_sa_process\<close> sets the window and starts with an empty bitmap.\<close>

definition new_replaywin :: "byte \<Rightarrow> ipsec_sa \<Rightarrow> ipsec_sa" where
  "new_replaywin win sa = sa\<lparr>ips_replaywin := win, ips_replaywin_lastseq := 0, ips_replaywin_bitmap := 0\<rparr>"

definition override_window :: "int \<Rightarrow> ipsec_sa \<Rightarrow> ipsec_sa" where
  "override_window ov sa = (if ov \<ge> 0 then sa\<lparr>ips_replaywin := word_of_int ov\<rparr> else sa)"

text \<open>
  The mask \<^verbatim>\<open>1 << diff\<close> as an operand of a 64-bit operation: the shift is one of \<^verbatim>\<open>int\<close>, so a count
  of 31 gives the negative number whose extension to 64 bits has all the high bits, and a larger
  count is undefined.
\<close>

definition int_one_shl :: "u32 \<Rightarrow> fault + u64" where
  "int_one_shl diff =
     (if unat diff < 31 then Inr (push_bit (unat diff) 1)
      else if unat diff = 31 then Inr (NOT (mask 31))
      else Inl Bad_shift)"

definition shl64 :: "u64 \<Rightarrow> u32 \<Rightarrow> fault + u64" where
  "shl64 w diff = (if unat diff < 64 then Inr (push_bit (unat diff) w) else Inl Bad_shift)"

definition ipsec_checkreplaywindow :: "int \<Rightarrow> ipsec_sa \<Rightarrow> u32 \<Rightarrow> fault + bool \<times> ipsec_sa" where
  "ipsec_checkreplaywindow ov sa0 seq =
     (let sa = override_window ov sa0 in
      if ips_replaywin sa = 0 then Inr (True, sa)
      else if seq = 0 then Inr (False, sa)
      else if seq > ips_replaywin_lastseq sa then Inr (True, sa)
      else
        let diff = ips_replaywin_lastseq sa - seq in
        if diff \<ge> ucast (ips_replaywin sa) then Inr (False, sa)
        else (case int_one_shl diff of
            Inl f \<Rightarrow> Inl f
          | Inr m \<Rightarrow> Inr (ips_replaywin_bitmap sa AND m = 0, sa)))"

definition ipsec_updatereplaywindow :: "int \<Rightarrow> ipsec_sa \<Rightarrow> u32 \<Rightarrow> fault + bool \<times> ipsec_sa" where
  "ipsec_updatereplaywindow ov sa0 seq =
     (let sa = override_window ov sa0 in
      if ips_replaywin sa = 0 then Inr (True, sa)
      else if seq = 0 then Inr (False, sa)
      else if seq > ips_replaywin_lastseq sa then
        let diff = seq - ips_replaywin_lastseq sa in
        (case (if diff < ucast (ips_replaywin sa)
               then map_sum id (\<lambda>w. w OR 1) (shl64 (ips_replaywin_bitmap sa) diff) else Inr 1) of
           Inl f \<Rightarrow> Inl f
         | Inr bitmap \<Rightarrow>
             Inr (True, sa\<lparr>ips_replaywin_bitmap := bitmap,
               ips_replaywin_maxdiff :=
                 (if seq - ips_replaywin_lastseq sa - 1 > ips_replaywin_maxdiff sa
                  then seq - ips_replaywin_lastseq sa - 1 else ips_replaywin_maxdiff sa),
               ips_replaywin_lastseq := seq\<rparr>))
      else
        let diff = ips_replaywin_lastseq sa - seq in
        if diff \<ge> ucast (ips_replaywin sa) then Inr (False, sa)
        else (case int_one_shl diff of
            Inl f \<Rightarrow> Inl f
          | Inr m \<Rightarrow>
              if ips_replaywin_bitmap sa AND m \<noteq> 0 then Inr (False, sa)
              else Inr (True, sa\<lparr>ips_replaywin_bitmap := ips_replaywin_bitmap sa OR m\<rparr>)))"

section \<open>Receiving\<close>

datatype ipsec_rcv_value = IPSEC_RCV_PENDING | IPSEC_RCV_LASTPROTO | IPSEC_RCV_OK | IPSEC_RCV_BADPROTO
  | IPSEC_RCV_BADLEN | IPSEC_RCV_ESP_BADALG | IPSEC_RCV_3DES_BADBLOCKING | IPSEC_RCV_ESP_DECAPFAIL
  | IPSEC_RCV_DECAPFAIL | IPSEC_RCV_SAIDNOTFOUND | IPSEC_RCV_IPCOMPALONE | IPSEC_RCV_IPCOMPFAILED
  | IPSEC_RCV_SAIDNOTLIVE | IPSEC_RCV_FAILEDINBOUND | IPSEC_RCV_LIFETIMEFAILED | IPSEC_RCV_BADAUTH
  | IPSEC_RCV_REPLAYFAILED | IPSEC_RCV_AUTHFAILED | IPSEC_RCV_REPLAYROLLED | IPSEC_RCV_BAD_DECRYPT
  | IPSEC_RCV_REALLYBAD | IPSEC_RCV_ERRMEMALLOC

text \<open>
  \<open>irs_auth\<close> says that the association has an authentication algorithm, whichever of the
  configured providers does it; \<open>rx_dropped\<close> is the counter of the interface's statistics, if it has any;
  \<open>irs_removed\<close> that \<^verbatim>\<open>ipsec_sa_rm\<close> took the association out of the table.
\<close>

record ipsec_rcv_state =
  ipsp :: ipsec_sa
  irs_auth :: bool
  authenticator :: "byte list option"
  hash :: "byte list"
  authlen :: nat
  replay :: u32
  auth_checked :: bool
  rx_dropped :: "nat option"
  irs_removed :: bool

definition drop_packet :: "ipsec_rcv_state \<Rightarrow> ipsec_rcv_state" where
  "drop_packet irs = irs\<lparr>rx_dropped := map_option Suc (rx_dropped irs)\<rparr>"

definition count_replay :: "ipsec_sa \<Rightarrow> ipsec_sa" where
  "count_replay sa = sa\<lparr>ips_replaywin_errs := ips_replaywin_errs sa + 1\<rparr>"

definition count_auth :: "ipsec_sa \<Rightarrow> ipsec_sa" where
  "count_auth sa = sa\<lparr>ips_auth_errs := ips_auth_errs sa + 1\<rparr>"

type_synonym rcv_calc_auth = "ipsec_rcv_state \<Rightarrow> ipsec_rcv_value \<times> ipsec_rcv_state"

definition ipsec_rcv_auth_calc ::
  "int \<Rightarrow> rcv_calc_auth option \<Rightarrow> ipsec_rcv_state \<Rightarrow> fault + ipsec_rcv_value \<times> ipsec_rcv_state" where
  "ipsec_rcv_auth_calc ov calc irs =
     (if \<not> irs_auth irs then Inr (IPSEC_RCV_OK, irs)
      else if authenticator irs = None then
        Inr (IPSEC_RCV_BADAUTH, drop_packet (irs\<lparr>ipsp := count_auth (ipsp irs)\<rparr>))
      else (case ipsec_checkreplaywindow ov (ipsp irs) (replay irs) of
          Inl f \<Rightarrow> Inl f
        | Inr (False, sa) \<Rightarrow> Inr (IPSEC_RCV_REPLAYFAILED, drop_packet (irs\<lparr>ipsp := count_replay sa\<rparr>))
        | Inr (True, sa) \<Rightarrow>
            (case calc of
               None \<Rightarrow> Inr (IPSEC_RCV_BADAUTH, irs\<lparr>ipsp := sa\<rparr>)
             | Some f \<Rightarrow> Inr (f (irs\<lparr>ipsp := sa\<rparr>)))))"

definition ipsec_rcv_auth_chk ::
  "int \<Rightarrow> ipsec_rcv_state \<Rightarrow> fault + ipsec_rcv_value \<times> ipsec_rcv_state" where
  "ipsec_rcv_auth_chk ov irs =
     (if auth_checked irs then Inr (IPSEC_RCV_OK, irs)
      else if \<not> irs_auth irs then Inr (IPSEC_RCV_OK, irs)
      else (case authenticator irs of
          None \<Rightarrow> Inl Out_of_bounds
        | Some auth \<Rightarrow>
            if take (authlen irs) (hash irs) \<noteq> take (authlen irs) auth then
              Inr (IPSEC_RCV_AUTHFAILED, drop_packet (irs\<lparr>ipsp := count_auth (ipsp irs)\<rparr>))
            else
              let irs = irs\<lparr>hash := replicate (authlen irs) 0 @ drop (authlen irs) (hash irs)\<rparr> in
              if ips_replaywin (ipsp irs) \<noteq> 0 \<and> replay irs = 0 then
                Inr (IPSEC_RCV_REPLAYROLLED, drop_packet (irs\<lparr>irs_removed := True\<rparr>))
              else (case ipsec_updatereplaywindow ov (ipsp irs) (replay irs) of
                  Inl f \<Rightarrow> Inl f
                | Inr (False, sa) \<Rightarrow>
                    Inr (IPSEC_RCV_REPLAYROLLED, drop_packet (irs\<lparr>ipsp := count_replay sa\<rparr>))
                | Inr (True, sa) \<Rightarrow> Inr (IPSEC_RCV_OK, irs\<lparr>ipsp := sa, auth_checked := True\<rparr>))))"

text \<open>The two steps in the order of the receive machine: a packet that fails the first stops there.\<close>

definition rcv_authenticate ::
  "int \<Rightarrow> rcv_calc_auth option \<Rightarrow> ipsec_rcv_state \<Rightarrow> fault + ipsec_rcv_value \<times> ipsec_rcv_state" where
  "rcv_authenticate ov calc irs =
     (case ipsec_rcv_auth_calc ov calc irs of
        Inl f \<Rightarrow> Inl f
      | Inr (IPSEC_RCV_OK, irs') \<Rightarrow> ipsec_rcv_auth_chk ov irs'
      | Inr r \<Rightarrow> Inr r)"

end
