(* ===== verification/ReplayProps.thy ===== *)
theory ReplayProps
  imports ReplayWindow
begin

text \<open>
  The properties of the anti-replay window: that it implements the set of numbers seen for windows
  up to 31, that windows up to 32 accept no number twice, and what the mask of type
  \<^verbatim>\<open>int\<close> does to the wider windows.
\<close>

section \<open>The set of numbers seen\<close>

text \<open>The abstract window of width \<open>w\<close>: the highest number and the set of accepted ones.\<close>

definition window_accepts :: "nat \<Rightarrow> nat \<Rightarrow> nat \<times> nat set \<Rightarrow> bool" where
  "window_accepts w s = (\<lambda>(newest, seen). s \<noteq> 0 \<and> s \<notin> seen \<and> newest < s + w)"

definition window_add :: "nat \<Rightarrow> nat \<times> nat set \<Rightarrow> nat \<times> nat set" where
  "window_add s = (\<lambda>(newest, seen). (max newest s, insert s seen))"

definition window_rel :: "ipsec_sa \<Rightarrow> nat \<times> nat set \<Rightarrow> bool" where
  "window_rel sa = (\<lambda>(newest, seen). newest = unat (ips_replaywin_lastseq sa) \<and> seen \<subseteq> {1..newest} \<and>
     (\<forall>d < unat (ips_replaywin sa). bit (ips_replaywin_bitmap sa) d \<longleftrightarrow> d < newest \<and> newest - d \<in> seen))"

lemma and_exp_eq_0: "n < 64 \<Longrightarrow> (w :: u64) AND 2 ^ n = 0 \<longleftrightarrow> \<not> bit w n"
  by (simp add: and_exp_eq_0_iff_not_bit)

lemma unat_diff_u32: "(b :: u32) \<le> a \<Longrightarrow> unat (a - b) = unat a - unat b"
  by (rule unat_sub)

lemma unat_ucast_byte: "unat (ucast (b :: byte) :: u32) = unat b"
  by (simp add: unsigned_ucast_eq take_bit_nat_eq_self order_less_trans [OF unat_byte_bound])

lemma int_one_shl_small: "unat diff < 31 \<Longrightarrow> int_one_shl diff = Inr (2 ^ unat diff)"
  by (simp add: int_one_shl_def)

text \<open>The window shifts when a packet is newer than all before.\<close>

lemma shifted_window:
  assumes "\<forall>d < w. bit (b :: u64) d \<longleftrightarrow> d < newest \<and> newest - d \<in> seen" "seen \<subseteq> {1..newest}" "newest < s" "w \<le> 64" "d < w"
  shows "bit ((if s - newest < w then push_bit (s - newest) b OR 1 else 1)) d \<longleftrightarrow> d < s \<and> s - d \<in> insert s seen"
proof (cases "s - newest < w")
  case True
  show ?thesis
  proof (cases "d < s - newest")
    case True
    then have "\<not> s - d \<le> newest" by simp
    then have "s - d \<notin> seen" using assms(2) by auto
    then show ?thesis using True \<open>s - newest < w\<close> assms(3) by (cases d) (auto simp: bit_simps)
  next
    case False
    then have "bit b (d - (s - newest)) \<longleftrightarrow> d - (s - newest) < newest \<and> s - d \<in> seen"
      using assms(1,3,5) by (auto simp: diff_diff_right)
    moreover have "d \<noteq> 0" "d < 64" using False assms(3-5) by auto
    moreover have "d - (s - newest) < newest \<longleftrightarrow> d < s" using False assms(3) by auto
    moreover have "s - d \<noteq> s \<or> s = 0" using \<open>d \<noteq> 0\<close> assms(3) by auto
    ultimately show ?thesis using True False assms(3) by (auto simp: bit_simps)
  qed
next
  case False
  then have "\<not> s - d \<le> newest" using assms(5) by simp
  then have "s - d \<notin> seen" using assms(2) by auto
  then show ?thesis using False assms(3) by (cases d) (auto simp: bit_simps)
qed

lemma bit_or_exp: "d < 64 \<Longrightarrow> bit ((b :: u64) OR 2 ^ n) d \<longleftrightarrow> bit b d \<or> d = n"
  by (auto simp: bit_simps)

lemma update_larger:
  assumes "seq > ips_replaywin_lastseq sa" "ips_replaywin sa \<noteq> 0" "override_window ov sa = sa"
  shows "ipsec_updatereplaywindow ov sa seq =
    (if unat seq - unat (ips_replaywin_lastseq sa) < unat (ips_replaywin sa) \<and> 64 \<le> unat seq - unat (ips_replaywin_lastseq sa)
     then Inl Bad_shift
     else Inr (True, sa\<lparr>ips_replaywin_bitmap :=
        (if unat seq - unat (ips_replaywin_lastseq sa) < unat (ips_replaywin sa)
         then push_bit (unat seq - unat (ips_replaywin_lastseq sa)) (ips_replaywin_bitmap sa) OR 1 else 1),
       ips_replaywin_maxdiff :=
         (if seq - ips_replaywin_lastseq sa - 1 > ips_replaywin_maxdiff sa
          then seq - ips_replaywin_lastseq sa - 1 else ips_replaywin_maxdiff sa),
       ips_replaywin_lastseq := seq\<rparr>))"
proof -
  have u: "unat (seq - ips_replaywin_lastseq sa) = unat seq - unat (ips_replaywin_lastseq sa)"
    using assms(1) by (intro unat_diff_u32) simp
  have "seq \<noteq> 0" using assms(1) by auto
  then show ?thesis using assms u
    by (auto simp: ipsec_updatereplaywindow_def Let_def shl64_def word_less_nat_alt unat_ucast_byte)
qed

lemma update_within:
  assumes "seq \<le> ips_replaywin_lastseq sa" "seq \<noteq> 0" "ips_replaywin sa \<noteq> 0" "override_window ov sa = sa"
  shows "ipsec_updatereplaywindow ov sa seq =
    (if unat (ips_replaywin sa) \<le> unat (ips_replaywin_lastseq sa) - unat seq then Inr (False, sa)
     else case int_one_shl (ips_replaywin_lastseq sa - seq) of
       Inl f \<Rightarrow> Inl f
     | Inr m \<Rightarrow> if ips_replaywin_bitmap sa AND m \<noteq> 0 then Inr (False, sa)
              else Inr (True, sa\<lparr>ips_replaywin_bitmap := ips_replaywin_bitmap sa OR m\<rparr>))"
proof -
  have "\<not> ips_replaywin_lastseq sa < seq" using assms(1) by auto
  moreover have "ucast (ips_replaywin sa) \<le> ips_replaywin_lastseq sa - seq \<longleftrightarrow>
      unat (ips_replaywin sa) \<le> unat (ips_replaywin_lastseq sa) - unat seq"
    by (simp only: word_le_nat_alt unat_ucast_byte unat_diff_u32 [OF assms(1)])
  ultimately show ?thesis using assms(2-4) by (simp add: ipsec_updatereplaywindow_def Let_def)
qed

text \<open>The check gives the answer of the update, and changes nothing.\<close>

lemma check_update:
  assumes "ips_replaywin sa \<noteq> 0" "override_window ov sa = sa" "ipsec_updatereplaywindow ov sa seq = Inr (ok, sa')"
  shows "ipsec_checkreplaywindow ov sa seq = Inr (ok, sa)"
  using assms
  by (auto simp: ipsec_checkreplaywindow_def ipsec_updatereplaywindow_def Let_def split: sum.splits if_splits)

lemma update_window:
  "ipsec_updatereplaywindow ov sa seq = Inr (ok, sa') \<Longrightarrow> override_window ov sa = sa \<Longrightarrow>
     ips_replaywin sa' = ips_replaywin sa \<and> (\<not> ok \<longrightarrow> sa' = sa) \<and>
     ips_replaywin_errs sa' = ips_replaywin_errs sa \<and> ips_auth_errs sa' = ips_auth_errs sa"
  by (auto simp: ipsec_updatereplaywindow_def Let_def split: sum.splits if_splits)

text \<open>What the update makes of a number, against the abstract window.\<close>

definition update_refines :: "int \<Rightarrow> ipsec_sa \<Rightarrow> nat \<times> nat set \<Rightarrow> u32 \<Rightarrow> ipsec_sa \<Rightarrow> bool" where
  "update_refines ov sa a seq sa' \<longleftrightarrow>
     ipsec_updatereplaywindow ov sa seq = Inr (window_accepts (unat (ips_replaywin sa)) (unat seq) a, sa') \<and>
     window_rel sa' (if window_accepts (unat (ips_replaywin sa)) (unat seq) a then window_add (unat seq) a else a)"

lemma window_relE:
  assumes "window_rel sa a"
  obtains seen where "a = (unat (ips_replaywin_lastseq sa), seen)" "seen \<subseteq> {1..unat (ips_replaywin_lastseq sa)}"
    "\<forall>d < unat (ips_replaywin sa). bit (ips_replaywin_bitmap sa) d \<longleftrightarrow>
      d < unat (ips_replaywin_lastseq sa) \<and> unat (ips_replaywin_lastseq sa) - d \<in> seen"
  using assms by (cases a) (auto simp: window_rel_def)

lemma update_larger_refines:
  assumes "window_rel sa a" "ips_replaywin sa \<noteq> 0" "unat (ips_replaywin sa) \<le> 31" "override_window ov sa = sa"
    "seq > ips_replaywin_lastseq sa"
  shows "\<exists>sa'. update_refines ov sa a seq sa'"
proof -
  let ?w = "unat (ips_replaywin sa)" and ?last = "unat (ips_replaywin_lastseq sa)" and ?s = "unat seq"
  obtain seen where a: "a = (?last, seen)" and seen: "seen \<subseteq> {1..?last}"
    and bits: "\<forall>d < ?w. bit (ips_replaywin_bitmap sa) d \<longleftrightarrow> d < ?last \<and> ?last - d \<in> seen"
    by (rule window_relE [OF assms(1)])
  have lt: "?last < ?s" using assms(5) by (simp add: word_less_nat_alt)
  then have acc: "window_accepts ?w ?s a" using seen by (auto simp: window_accepts_def a)
  obtain sa' where sa': "ipsec_updatereplaywindow ov sa seq = Inr (True, sa')" "ips_replaywin sa' = ips_replaywin sa"
      "ips_replaywin_lastseq sa' = seq"
      "ips_replaywin_bitmap sa' = (if ?s - ?last < ?w then push_bit (?s - ?last) (ips_replaywin_bitmap sa) OR 1 else 1)"
    using update_larger [OF assms(5,2,4)] assms(3) by auto
  have "\<forall>d < ?w. bit (ips_replaywin_bitmap sa') d \<longleftrightarrow> d < ?s \<and> ?s - d \<in> insert ?s seen"
    using shifted_window [OF bits seen lt] assms(3) unfolding sa'(4) by simp
  moreover have "insert ?s seen \<subseteq> {1..?s}" using seen lt by auto
  ultimately have "window_rel sa' (window_add ?s a)"
    using sa'(2,3) lt by (simp add: window_rel_def window_add_def a max_def)
  then show ?thesis using sa'(1) acc by (auto simp: update_refines_def)
qed

lemma update_within_refines:
  assumes "window_rel sa a" "ips_replaywin sa \<noteq> 0" "unat (ips_replaywin sa) \<le> 31" "override_window ov sa = sa"
    "\<not> seq > ips_replaywin_lastseq sa"
  shows "\<exists>sa'. update_refines ov sa a seq sa'"
proof -
  let ?w = "unat (ips_replaywin sa)" and ?last = "unat (ips_replaywin_lastseq sa)" and ?s = "unat seq"
  obtain seen where a: "a = (?last, seen)" and seen: "seen \<subseteq> {1..?last}"
    and bits: "\<forall>d < ?w. bit (ips_replaywin_bitmap sa) d \<longleftrightarrow> d < ?last \<and> ?last - d \<in> seen"
    by (rule window_relE [OF assms(1)])
  have le: "seq \<le> ips_replaywin_lastseq sa" using assms(5) by simp
  then have "?s \<le> ?last" by (simp only: word_le_nat_alt)
  with le have le: "seq \<le> ips_replaywin_lastseq sa" "?s \<le> ?last" by blast+
  note ud = unat_diff_u32 [OF le(1)]
  show ?thesis
  proof (cases "seq = 0 \<or> ?w \<le> ?last - ?s")
    case True
    then have "\<not> window_accepts ?w ?s a" using le by (auto simp: window_accepts_def a)
    moreover have "ipsec_updatereplaywindow ov sa seq = Inr (False, sa)"
      using True update_within [OF le(1) _ assms(2,4)] assms(2,4)
      by (cases "seq = 0") (auto simp: ipsec_updatereplaywindow_def)
    ultimately show ?thesis using assms(1) by (auto simp: update_refines_def)
  next
    case F: False
    then have n0: "seq \<noteq> 0" "?s \<noteq> 0" by (auto simp: unat_eq_0)
    have d: "?last - ?s < ?w" "?last - ?s < 31" using F assms(3) by auto
    have b: "bit (ips_replaywin_bitmap sa) (?last - ?s) \<longleftrightarrow> ?s \<in> seen" using bits d(1) le n0 by auto
    have sh: "int_one_shl (ips_replaywin_lastseq sa - seq) = Inr (2 ^ (?last - ?s))"
      using int_one_shl_small [of "ips_replaywin_lastseq sa - seq"] ud d(2) by simp
    let ?sa = "sa\<lparr>ips_replaywin_bitmap := ips_replaywin_bitmap sa OR 2 ^ (?last - ?s)\<rparr>"
    have acc: "window_accepts ?w ?s a \<longleftrightarrow> ?s \<notin> seen" using F le n0(2) by (auto simp: window_accepts_def a)
    have u: "ipsec_updatereplaywindow ov sa seq = (if ?s \<in> seen then Inr (False, sa) else Inr (True, ?sa))"
      using update_within [OF le(1) n0(1) assms(2,4)] d b sh by (simp add: and_exp_eq_0)
    have "window_rel ?sa (window_add ?s a)"
      using bits seen le n0 assms(3) by (auto simp: window_rel_def window_add_def a bit_or_exp)
    then show ?thesis using u acc assms(1) by (cases "?s \<in> seen") (auto simp: update_refines_def)
  qed
qed

text \<open>
  C10: For windows of up to 31 numbers the bitmap implements the set of numbers seen. Check and
  update both accept exactly the numbers the abstract window accepts (not zero, not seen, and
  not older than the window), a refusal changes nothing, an acceptance adds the number, and no shift is
  undefined.
\<close>

theorem replay_window_refines:
  assumes "window_rel sa a" "0 < unat (ips_replaywin sa)" "unat (ips_replaywin sa) \<le> 31" "override_window ov sa = sa"
  shows "\<exists>sa'. ipsec_updatereplaywindow ov sa seq = Inr (window_accepts (unat (ips_replaywin sa)) (unat seq) a, sa') \<and>
    ipsec_checkreplaywindow ov sa seq = Inr (window_accepts (unat (ips_replaywin sa)) (unat seq) a, sa) \<and>
    window_rel sa' (if window_accepts (unat (ips_replaywin sa)) (unat seq) a then window_add (unat seq) a else a)"
proof -
  have w0: "ips_replaywin sa \<noteq> 0" using assms(2) by auto
  have "\<exists>sa'. update_refines ov sa a seq sa'"
    using update_larger_refines [OF assms(1) w0 assms(3,4)] update_within_refines [OF assms(1) w0 assms(3,4)]
    by (cases "seq > ips_replaywin_lastseq sa") auto
  then show ?thesis using check_update [OF w0 assms(4)] unfolding update_refines_def by blast
qed

definition empty_sa :: "byte \<Rightarrow> ipsec_sa" where
  "empty_sa win = \<lparr>ips_auth_errs = 0, ips_replaywin_errs = 0, ips_replaywin = win, ips_replaywin_lastseq = 0,
     ips_replaywin_bitmap = 0, ips_replaywin_maxdiff = 0\<rparr>"

lemma new_replaywin_rel: "window_rel (new_replaywin win sa) (0, {})"
  by (simp add: window_rel_def new_replaywin_def)

lemma no_override [simp]: "override_window (- 1) sa = sa"
  by (simp add: override_window_def)

theorem replay_window_refines_witness:
  "\<exists>sa'. ipsec_updatereplaywindow (- 1) (new_replaywin 31 (empty_sa 0)) 5 = Inr (True, sa') \<and> window_rel sa' (5, {5})"
  using replay_window_refines [OF new_replaywin_rel, of 31 "empty_sa 0" "- 1" 5]
  by (auto simp: new_replaywin_def window_accepts_def window_add_def)

section \<open>No number twice\<close>

text \<open>
  What is known whatever the window: each accepted number up to 31 behind the newest and within the
  window has its bit. The masks that set more bits than one only refuse more.
\<close>

definition marks :: "ipsec_sa \<Rightarrow> nat set \<Rightarrow> bool" where
  "marks sa seen \<longleftrightarrow> (\<forall>s \<in> seen. 0 < s \<and> s \<le> unat (ips_replaywin_lastseq sa) \<and>
     (unat (ips_replaywin_lastseq sa) - s < unat (ips_replaywin sa) \<and> unat (ips_replaywin_lastseq sa) - s < 32 \<longrightarrow>
      bit (ips_replaywin_bitmap sa) (unat (ips_replaywin_lastseq sa) - s)))"

lemma int_one_shl_bit: "int_one_shl diff = Inr m \<Longrightarrow> unat diff < 32 \<and> bit m (unat diff)"
  by (auto simp: int_one_shl_def bit_simps split: if_splits)

lemma marks_larger:
  assumes "marks sa seen" "seq > ips_replaywin_lastseq sa" "ips_replaywin sa \<noteq> 0" "override_window ov sa = sa"
    "ipsec_updatereplaywindow ov sa seq = Inr (ok, sa')"
  shows "unat seq \<notin> seen \<and> marks sa' (insert (unat seq) seen)"
proof -
  let ?last = "unat (ips_replaywin_lastseq sa)" and ?w = "unat (ips_replaywin sa)" and ?s = "unat seq"
  have lt: "?last < ?s" using assms(2) by (simp add: word_less_nat_alt)
  have sa': "ips_replaywin sa' = ips_replaywin sa" "ips_replaywin_lastseq sa' = seq"
      "ips_replaywin_bitmap sa' = (if ?s - ?last < ?w then push_bit (?s - ?last) (ips_replaywin_bitmap sa) OR 1 else 1)"
      "?s - ?last < ?w \<longrightarrow> ?s - ?last < 64"
    using update_larger [OF assms(2-4)] assms(5) by (auto split: if_splits)
  have "bit (ips_replaywin_bitmap sa') (?s - s)" if s: "s \<in> seen" "?s - s < ?w" "?s - s < 32" for s
  proof -
    have m: "s \<le> ?last" "?last - s < ?w \<and> ?last - s < 32 \<longrightarrow> bit (ips_replaywin_bitmap sa) (?last - s)"
      using assms(1) s(1) by (auto simp: marks_def)
    have e: "?s - s = (?s - ?last) + (?last - s)" using lt m(1) by simp
    then have "bit (ips_replaywin_bitmap sa) (?last - s)" "?s - ?last < ?w" using m(2) s(2,3) by auto
    then show ?thesis using e s(3) unfolding sa'(3) by (simp add: bit_simps)
  qed
  moreover have "bit (ips_replaywin_bitmap sa') 0" unfolding sa'(3) by (simp add: bit_simps)
  ultimately show ?thesis using assms(1) lt sa'(1,2) by (auto simp: marks_def)
qed

lemma marks_within:
  assumes "marks sa seen" "seq \<le> ips_replaywin_lastseq sa" "seq \<noteq> 0" "ips_replaywin sa \<noteq> 0" "override_window ov sa = sa"
    "ipsec_updatereplaywindow ov sa seq = Inr (True, sa')"
  shows "unat seq \<notin> seen \<and> marks sa' (insert (unat seq) seen)"
proof -
  let ?last = "unat (ips_replaywin_lastseq sa)" and ?w = "unat (ips_replaywin sa)" and ?s = "unat seq"
  have le: "?s \<le> ?last" "0 < ?s" using assms(2,3) by (auto simp: word_le_nat_alt unat_gt_0)
  obtain m where m: "int_one_shl (ips_replaywin_lastseq sa - seq) = Inr m" "?last - ?s < ?w"
      "ips_replaywin_bitmap sa AND m = 0" "sa' = sa\<lparr>ips_replaywin_bitmap := ips_replaywin_bitmap sa OR m\<rparr>"
    using update_within [OF assms(2-5)] assms(6) by (auto split: if_splits sum.splits)
  have b: "?last - ?s < 32" "bit m (?last - ?s)"
    using int_one_shl_bit [OF m(1)] unat_diff_u32 [OF assms(2)] by auto
  have "\<not> bit (ips_replaywin_bitmap sa AND m) (?last - ?s)" using m(3) by simp
  then have "\<not> bit (ips_replaywin_bitmap sa) (?last - ?s)" using b(2) by (simp add: bit_simps)
  then have "?s \<notin> seen" using assms(1) m(2) b(1) by (auto simp: marks_def)
  moreover have "marks sa' (insert ?s seen)"
    using assms(1) le b unfolding m(4) marks_def by (auto simp: bit_simps)
  ultimately show ?thesis by simp
qed

lemma update_marks:
  assumes "marks sa seen" "ips_replaywin sa \<noteq> 0" "override_window ov sa = sa" "ipsec_updatereplaywindow ov sa seq = Inr (ok, sa')"
  shows "(ok \<longrightarrow> unat seq \<notin> seen \<and> seq \<noteq> 0 \<and> marks sa' (insert (unat seq) seen)) \<and> (\<not> ok \<longrightarrow> marks sa' seen)"
proof (cases "seq > ips_replaywin_lastseq sa")
  case True
  then have "seq \<noteq> 0" by auto
  then show ?thesis using marks_larger [OF assms(1) True assms(2,3)] update_larger [OF True assms(2,3)] assms(4)
    by (cases ok) (auto split: if_splits)
next
  case False
  then have le: "seq \<le> ips_replaywin_lastseq sa" by simp
  have z: "ok \<Longrightarrow> seq \<noteq> 0" using assms(2-4) by (auto simp: ipsec_updatereplaywindow_def)
  show ?thesis
    using marks_within [OF assms(1) le _ assms(2,3)] z update_window [OF assms(4,3)] assms(1,4) by (cases ok) auto
qed

text \<open>
  The sequence numbers of the packets that a receiving association accepts, in order; \<open>calc\<close> puts
  the hash of a packet next to the authenticator that it came with.
\<close>

fun receive_all :: "int \<Rightarrow> rcv_calc_auth \<Rightarrow> ipsec_sa \<Rightarrow> ipsec_rcv_state list \<Rightarrow> fault + u32 list" where
  "receive_all ov calc sa [] = Inr []"
| "receive_all ov calc sa (p # ps) =
     (case rcv_authenticate ov (Some calc) (p\<lparr>ipsp := sa\<rparr>) of
        Inl f \<Rightarrow> Inl f
      | Inr (v, irs) \<Rightarrow>
          map_sum id (\<lambda>r. if v = IPSEC_RCV_OK then replay p # r else r) (receive_all ov calc (ipsp irs) ps))"

definition fresh_packet :: "ipsec_rcv_state \<Rightarrow> bool" where
  "fresh_packet p \<longleftrightarrow> irs_auth p \<and> \<not> auth_checked p"

definition hashes :: "rcv_calc_auth \<Rightarrow> bool" where
  "hashes calc \<longleftrightarrow> (\<forall>irs. \<exists>v h. calc irs = (v, irs\<lparr>hash := h\<rparr>))"

definition count_errs :: "ipsec_sa \<Rightarrow> ipsec_sa \<Rightarrow> bool" where
  "count_errs sa sa' \<longleftrightarrow> ips_replaywin sa' = ips_replaywin sa \<and>
     ips_replaywin_lastseq sa' = ips_replaywin_lastseq sa \<and> ips_replaywin_bitmap sa' = ips_replaywin_bitmap sa"

lemma count_errs_refl [simp]: "count_errs sa sa"
  by (simp add: count_errs_def)

lemma check_same: "ipsec_checkreplaywindow ov sa seq = Inr (ok, sa') \<Longrightarrow> override_window ov sa = sa \<Longrightarrow> sa' = sa"
  by (auto simp: ipsec_checkreplaywindow_def Let_def split: if_splits sum.splits)

text \<open>A packet that is not accepted, forged ones in particular, leaves the window as it was.\<close>

lemma auth_calc_cases:
  assumes "ipsec_rcv_auth_calc ov (Some calc) irs = Inr (v, irs')" "hashes calc" "irs_auth irs" "override_window ov (ipsp irs) = ipsp irs"
  shows "count_errs (ipsp irs) (ipsp irs') \<and>
    (v = IPSEC_RCV_OK \<longrightarrow> (\<exists>h. irs' = irs\<lparr>hash := h\<rparr>) \<and> authenticator irs \<noteq> None)"
proof (cases "authenticator irs")
  case None
  then show ?thesis using assms
    by (auto simp: ipsec_rcv_auth_calc_def drop_packet_def count_auth_def count_errs_def)
next
  case (Some auth)
  show ?thesis
  proof (cases "ipsec_checkreplaywindow ov (ipsp irs) (replay irs)")
    case (Inr r)
    obtain ok where r: "r = (ok, ipsp irs)" using check_same [of ov "ipsp irs" "replay irs"] Inr assms(4) by (cases r) auto
    show ?thesis
    proof (cases ok)
      case False
      then show ?thesis using assms Some Inr r
        by (auto simp: ipsec_rcv_auth_calc_def drop_packet_def count_replay_def count_errs_def)
    next
      case True
      obtain v0 h where "calc irs = (v0, irs\<lparr>hash := h\<rparr>)" using assms(2) unfolding hashes_def by blast
      then show ?thesis using assms Some Inr r True by (auto simp: ipsec_rcv_auth_calc_def)
    qed
  qed (use assms Some in \<open>simp add: ipsec_rcv_auth_calc_def\<close>)
qed

lemma auth_chk_cases:
  assumes "ipsec_rcv_auth_chk ov irs = Inr (v, irs')" "irs_auth irs" "\<not> auth_checked irs" "override_window ov (ipsp irs) = ipsp irs"
  shows "(v = IPSEC_RCV_OK \<and> ipsec_updatereplaywindow ov (ipsp irs) (replay irs) = Inr (True, ipsp irs')) \<or>
    (v \<noteq> IPSEC_RCV_OK \<and> count_errs (ipsp irs) (ipsp irs'))"
proof -
  obtain auth where a: "authenticator irs = Some auth"
    using assms(1-3) by (auto simp: ipsec_rcv_auth_chk_def split: option.splits)
  have c: "count_errs sa (count_auth sa)" "count_errs sa (count_replay sa)" for sa
    by (simp_all add: count_errs_def count_auth_def count_replay_def)
  have n: "ipsec_updatereplaywindow ov (ipsp irs) (replay irs) = Inr (False, sa) \<Longrightarrow> sa = ipsp irs" for sa
    using update_window assms(4) by blast
  show ?thesis using assms(1-3) a c n
    by (auto simp: ipsec_rcv_auth_chk_def Let_def drop_packet_def split: if_splits sum.splits prod.splits bool.splits)
qed

lemma marks_count: "count_errs sa sa' \<Longrightarrow> marks sa' seen = marks sa seen"
  by (auto simp: count_errs_def marks_def)

lemma window_count: "count_errs sa sa' \<Longrightarrow> ips_replaywin sa' = ips_replaywin sa"
  by (auto simp: count_errs_def)

lemma receive_all_distinct:
  assumes "marks sa seen" "ips_replaywin sa \<noteq> 0" "ov < 0" "hashes calc" "\<forall>p \<in> set ps. fresh_packet p"
    "receive_all ov calc sa ps = Inr l"
  shows "distinct l \<and> 0 \<notin> set l \<and> unat ` set l \<inter> seen = {}"
  using assms
proof (induction ps arbitrary: sa seen l)
  case (Cons p ps)
  have o: "override_window ov sa = sa" for sa using Cons.prems(3) by (simp add: override_window_def)
  obtain v irs where r: "rcv_authenticate ov (Some calc) (p\<lparr>ipsp := sa\<rparr>) = Inr (v, irs)"
    using Cons.prems(6) by (auto split: sum.splits)
  obtain l' where l': "receive_all ov calc (ipsp irs) ps = Inr l'" "l = (if v = IPSEC_RCV_OK then replay p # l' else l')"
    using Cons.prems(6) r by (cases "receive_all ov calc (ipsp irs) ps") auto
  have p: "irs_auth (p\<lparr>ipsp := sa\<rparr>)" "\<not> auth_checked (p\<lparr>ipsp := sa\<rparr>)" using Cons.prems(5) by (auto simp: fresh_packet_def)
  obtain v1 irs1 where c: "ipsec_rcv_auth_calc ov (Some calc) (p\<lparr>ipsp := sa\<rparr>) = Inr (v1, irs1)"
    using r by (auto simp: rcv_authenticate_def split: sum.splits)
  note cc = auth_calc_cases [OF c Cons.prems(4) p(1), unfolded ipsec_rcv_state.simps, OF o]
  show ?case
  proof (cases "v1 = IPSEC_RCV_OK")
    case False
    then have e: "v = v1" "irs = irs1" using r c by (auto simp: rcv_authenticate_def split: ipsec_rcv_value.splits)
    have "marks (ipsp irs) seen" "ips_replaywin (ipsp irs) \<noteq> 0"
      using cc e Cons.prems(1,2) by (auto simp: marks_count window_count)
    from Cons.IH [OF this Cons.prems(3,4) _ l'(1)] show ?thesis using l'(2) e False Cons.prems(5) by simp
  next
    case True
    then obtain h where h: "irs1 = p\<lparr>ipsp := sa, hash := h\<rparr>" using cc by auto
    have k: "ipsec_rcv_auth_chk ov irs1 = Inr (v, irs)" using r c True by (simp add: rcv_authenticate_def)
    have "(v = IPSEC_RCV_OK \<and> ipsec_updatereplaywindow ov sa (replay p) = Inr (True, ipsp irs)) \<or>
        (v \<noteq> IPSEC_RCV_OK \<and> count_errs sa (ipsp irs))"
      using auth_chk_cases [OF k] p h o by simp
    then show ?thesis
    proof (elim disjE conjE)
      assume v: "v = IPSEC_RCV_OK" and u: "ipsec_updatereplaywindow ov sa (replay p) = Inr (True, ipsp irs)"
      have m: "unat (replay p) \<notin> seen" "replay p \<noteq> 0" "marks (ipsp irs) (insert (unat (replay p)) seen)"
        using update_marks [OF Cons.prems(1,2) o u] by auto
      have "ips_replaywin (ipsp irs) \<noteq> 0" using update_window [OF u o] Cons.prems(2) by simp
      from Cons.IH [OF m(3) this Cons.prems(3,4) _ l'(1)] show ?thesis
        using l'(2) v m(1,2) Cons.prems(5) by (auto simp: image_iff)
    next
      assume v: "v \<noteq> IPSEC_RCV_OK" and ce: "count_errs sa (ipsp irs)"
      have "marks (ipsp irs) seen" "ips_replaywin (ipsp irs) \<noteq> 0"
        using ce Cons.prems(1,2) by (auto simp: marks_count window_count)
      from Cons.IH [OF this Cons.prems(3,4) _ l'(1)] show ?thesis using l'(2) v Cons.prems(5) by simp
    qed
  qed
qed auto

text \<open>A window of up to 32 numbers never shifts by more than its types allow.\<close>

lemma small_window_total:
  assumes "unat (ips_replaywin sa) \<le> 32" "override_window ov sa = sa"
  shows "\<exists>r. ipsec_updatereplaywindow ov sa seq = Inr r" "\<exists>r. ipsec_checkreplaywindow ov sa seq = Inr r"
proof -
  have m: "d < ucast (ips_replaywin sa) \<Longrightarrow> \<exists>m. int_one_shl d = Inr m" "d < ucast (ips_replaywin sa) \<Longrightarrow> \<exists>w'. shl64 w d = Inr w'" for d w
    using assms(1) by (auto simp: int_one_shl_def shl64_def word_less_nat_alt unat_ucast_byte)
  have u: "\<not> isl (ipsec_updatereplaywindow ov sa seq)"
    using m(1) [of "ips_replaywin_lastseq sa - seq"] m(2) [of "seq - ips_replaywin_lastseq sa" "ips_replaywin_bitmap sa"] assms(2)
    by (cases "seq > ips_replaywin_lastseq sa") (auto simp: ipsec_updatereplaywindow_def Let_def not_le split: if_splits)
  show "\<exists>r. ipsec_updatereplaywindow ov sa seq = Inr r" using u by (cases "ipsec_updatereplaywindow ov sa seq") auto
  have c: "\<not> isl (ipsec_checkreplaywindow ov sa seq)"
    using m(1) [of "ips_replaywin_lastseq sa - seq"] assms(2) by (auto simp: ipsec_checkreplaywindow_def Let_def not_le)
  show "\<exists>r. ipsec_checkreplaywindow ov sa seq = Inr r" using c by (cases "ipsec_checkreplaywindow ov sa seq") auto
qed

lemma rcv_authenticate_total:
  assumes "unat (ips_replaywin (ipsp p)) \<le> 32" "ov < 0" "hashes calc" "fresh_packet p"
  shows "\<exists>v irs. rcv_authenticate ov (Some calc) p = Inr (v, irs) \<and> ips_replaywin (ipsp irs) = ips_replaywin (ipsp p)"
proof -
  have o: "override_window ov sa = sa" for sa using assms(2) by (simp add: override_window_def)
  have f: "irs_auth p" "\<not> auth_checked p" using assms(4) by (auto simp: fresh_packet_def)
  obtain r where k: "ipsec_checkreplaywindow ov (ipsp p) (replay p) = Inr r" using small_window_total(2) [OF assms(1) o] by blast
  have "\<not> isl (ipsec_rcv_auth_calc ov (Some calc) p)"
    using f(1) k by (cases r; cases "fst r") (simp_all add: ipsec_rcv_auth_calc_def)
  then obtain v irs where c: "ipsec_rcv_auth_calc ov (Some calc) p = Inr (v, irs)"
    by (cases "ipsec_rcv_auth_calc ov (Some calc) p") auto
  note cc = auth_calc_cases [OF c assms(3) f(1) o]
  show ?thesis
  proof (cases "v = IPSEC_RCV_OK")
    case False
    then have "rcv_authenticate ov (Some calc) p = Inr (v, irs)"
      using c by (simp add: rcv_authenticate_def split: ipsec_rcv_value.splits)
    then show ?thesis using cc by (simp add: window_count)
  next
    case True
    then obtain h auth where h: "irs = p\<lparr>hash := h\<rparr>" and a: "authenticator p = Some auth" using cc by auto
    obtain ok sa' where u: "ipsec_updatereplaywindow ov (ipsp p) (replay p) = Inr (ok, sa')"
      using small_window_total(1) [OF assms(1) o] by fastforce
    have "\<not> isl (ipsec_rcv_auth_chk ov irs)"
      using h a f u by (cases ok) (simp_all add: ipsec_rcv_auth_chk_def Let_def)
    then obtain v' irs' where k': "ipsec_rcv_auth_chk ov irs = Inr (v', irs')"
      by (cases "ipsec_rcv_auth_chk ov irs") auto
    have "ips_replaywin (ipsp irs') = ips_replaywin (ipsp p)"
      using auth_chk_cases [OF k' _ _ o] h f update_window [OF _ o] by (auto simp: window_count)
    then show ?thesis using c True k' by (simp add: rcv_authenticate_def)
  qed
qed

lemma receive_all_total:
  assumes "unat (ips_replaywin sa) \<le> 32" "ov < 0" "hashes calc" "\<forall>p \<in> set ps. fresh_packet p"
  shows "\<exists>l. receive_all ov calc sa ps = Inr l"
  using assms
proof (induction ps arbitrary: sa)
  case (Cons p ps)
  obtain v irs where r: "rcv_authenticate ov (Some calc) (p\<lparr>ipsp := sa\<rparr>) = Inr (v, irs)" "ips_replaywin (ipsp irs) = ips_replaywin sa"
    using rcv_authenticate_total [of "p\<lparr>ipsp := sa\<rparr>" ov calc] Cons.prems by (auto simp: fresh_packet_def)
  then obtain l where "receive_all ov calc (ipsp irs) ps = Inr l" using Cons.IH [of "ipsp irs"] Cons.prems by auto
  then show ?case using r(1) by simp
qed simp

text \<open>
  C4: In a window of up to 32 numbers, which pluto's default is, nothing is accepted twice. Whatever
  packets a new association receives, in any order and with forged ones among them, no step of the
  run is undefined, and the packets that authenticate and pass have distinct sequence numbers, none
  of them zero. For wider windows there is no such statement: the code then shifts out of range.
\<close>

theorem replay_no_duplicates:
  assumes "0 < win" "win \<le> 32" "ov < 0" "hashes calc" "\<forall>p \<in> set ps. fresh_packet p"
  shows "\<exists>l. receive_all ov calc (new_replaywin win sa) ps = Inr l \<and> distinct l \<and> 0 \<notin> set l"
proof -
  have "unat (ips_replaywin (new_replaywin win sa)) \<le> 32"
    using assms(2) by (simp add: new_replaywin_def word_le_nat_alt)
  from receive_all_total [OF this assms(3-5)] obtain l where l: "receive_all ov calc (new_replaywin win sa) ps = Inr l" by blast
  have "marks (new_replaywin win sa) {}" "ips_replaywin (new_replaywin win sa) \<noteq> 0"
    using assms(1) by (auto simp: marks_def new_replaywin_def)
  from receive_all_distinct [OF this assms(3-5) l] l show ?thesis by simp
qed

definition sample_packet :: "u32 \<Rightarrow> ipsec_rcv_state" where
  "sample_packet n = \<lparr>ipsp = empty_sa 0, irs_auth = True, authenticator = Some [7], hash = [7], authlen = 1,
     replay = n, auth_checked = False, rx_dropped = Some 0, irs_removed = False\<rparr>"

definition sample_calc :: rcv_calc_auth where
  "sample_calc irs = (IPSEC_RCV_OK, irs\<lparr>hash := [7]\<rparr>)"

lemmas replay_eval = rcv_authenticate_def ipsec_rcv_auth_calc_def ipsec_rcv_auth_chk_def ipsec_checkreplaywindow_def
  ipsec_updatereplaywindow_def override_window_def new_replaywin_def empty_sa_def int_one_shl_def shl64_def
  sample_packet_def sample_calc_def drop_packet_def count_replay_def count_auth_def

theorem replay_no_duplicates_witness:
  "receive_all (- 1) sample_calc (new_replaywin 32 (empty_sa 0)) (map sample_packet [3, 1, 3, 1]) = Inr [3, 1] \<and>
   (\<exists>l. receive_all (- 1) sample_calc (new_replaywin 32 (empty_sa 0)) (map sample_packet [3, 1, 3, 1]) = Inr l \<and> distinct l \<and> 0 \<notin> set l)"
proof
  show "receive_all (- 1) sample_calc (new_replaywin 32 (empty_sa 0)) (map sample_packet [3, 1, 3, 1]) = Inr [3, 1]"
    by (simp add: replay_eval)
  have "hashes sample_calc" by (auto simp: hashes_def sample_calc_def)
  then show "\<exists>l. receive_all (- 1) sample_calc (new_replaywin 32 (empty_sa 0)) (map sample_packet [3, 1, 3, 1]) = Inr l \<and>
      distinct l \<and> 0 \<notin> set l"
    by (intro replay_no_duplicates) (auto simp: fresh_packet_def sample_packet_def)
qed

section \<open>Windows wider than an int\<close>

text \<open>
  C21: The mask \<open>1 << diff\<close> of a window check is a shift of an \<open>int\<close>. In a window of more than 32
  numbers (\<^verbatim>\<open>ipsec spi\<close> takes up to 64), each packet that is 32 or more behind the newest, though inside the
  window, shifts by more than the width of the type, in the check and in the update.
\<close>

theorem replay_mask_is_int:
  assumes "override_window ov sa = sa" "seq \<noteq> 0" "seq \<le> ips_replaywin_lastseq sa"
    and "32 \<le> unat (ips_replaywin_lastseq sa) - unat seq"
    and "unat (ips_replaywin_lastseq sa) - unat seq < unat (ips_replaywin sa)"
  shows "ipsec_checkreplaywindow ov sa seq = Inl Bad_shift \<and> ipsec_updatereplaywindow ov sa seq = Inl Bad_shift"
proof -
  have "ips_replaywin sa \<noteq> 0" using assms(5) by auto
  moreover have "int_one_shl (ips_replaywin_lastseq sa - seq) = Inl Bad_shift"
    using unat_diff_u32 [OF assms(3)] assms(4) by (simp add: int_one_shl_def)
  moreover have "\<not> ucast (ips_replaywin sa) \<le> ips_replaywin_lastseq sa - seq"
    using unat_diff_u32 [OF assms(3)] assms(5) by (simp add: word_le_nat_alt unat_ucast_byte)
  moreover have "\<not> ips_replaywin_lastseq sa < seq" using assms(3) by simp
  ultimately show ?thesis using assms(1,2)
    by (simp add: ipsec_checkreplaywindow_def ipsec_updatereplaywindow_def Let_def)
qed

theorem replay_mask_is_int_witness:
  "ipsec_checkreplaywindow (- 1) (new_replaywin 64 (empty_sa 0)\<lparr>ips_replaywin_lastseq := 40\<rparr>) 1 = Inl Bad_shift"
  using replay_mask_is_int [of "- 1" "new_replaywin 64 (empty_sa 0)\<lparr>ips_replaywin_lastseq := 40\<rparr>" 1]
  by (simp add: new_replaywin_def)

text \<open>
  At the width itself the mask is negative and the widening to the 64 bits of the map sets the upper half:
  in a window of 32, after 32, 1 and 33 the number 2 is refused though it never came.
\<close>

lemma window_32_refuses_unseen:
  "receive_all (- 1) sample_calc (new_replaywin 32 (empty_sa 0)) (map sample_packet [32, 1, 33, 2]) = Inr [32, 1, 33]"
  by (simp add: replay_eval mask_eq_exp_minus_1)

text \<open>
  A number of zero never reaches the branch of \<open>ipsec_rcv_auth_chk\<close> that drops the packet as rolled over
  and is to expire the association: with a window the check before it refuses zero as a replay.
\<close>

lemma zero_is_replay:
  assumes "ips_replaywin (ipsp irs) \<noteq> 0" "override_window ov (ipsp irs) = ipsp irs" "irs_auth irs" "authenticator irs \<noteq> None"
    "replay irs = 0"
  shows "\<exists>irs'. rcv_authenticate ov (Some calc) irs = Inr (IPSEC_RCV_REPLAYFAILED, irs')"
  using assms by (auto simp: rcv_authenticate_def ipsec_rcv_auth_calc_def ipsec_checkreplaywindow_def)

end
