(* ===== verification/Ikev2Payloads.thy ===== *)
theory Ikev2Payloads
  imports PacketCodec
begin

text \<open>
  The payloads of an IKEv2 message, \<^verbatim>\<open>programs/pluto/ikev2.c\<close>: splitting a message into payloads
  (\<^verbatim>\<open>ikev2_decode_payloads\<close>) and checking that those found are the ones a state expects
  (\<^verbatim>\<open>ikev2_verify_payloads\<close>). The digest of a message is the list of its payloads up to \<^verbatim>\<open>digest_roof\<close>;
  the chains of payloads of one kind are lists of positions in it. A status is a value of
  \<^verbatim>\<open>stf_status\<close>, \<^verbatim>\<open>STF_FAIL + n\<close> being \<open>STF_FAIL n\<close>.
\<close>

section \<open>Status and sets of payload kinds\<close>

datatype stf_status = STF_IGNORE | STF_INLINE | STF_SUSPEND | STF_OK | STF_INTERNAL_ERROR
  | STF_TOOMUCHCRYPTO | STF_FATAL | STF_DROP | STF_FAIL nat

definition v2N_UNSUPPORTED_CRITICAL_PAYLOAD :: nat where "v2N_UNSUPPORTED_CRITICAL_PAYLOAD = 1"
definition v2N_INVALID_SYNTAX :: nat where "v2N_INVALID_SYNTAX = 7"

type_synonym lset = u64

definition LELEM :: "u32 \<Rightarrow> lset" where
  "LELEM opt = push_bit (unat opt) 1"

definition PINDEX :: "u32 \<Rightarrow> u32" where
  "PINDEX np = np - 33"

abbreviation v2NONE :: u32 where "v2NONE \<equiv> 0"
abbreviation v2SA :: u32 where "v2SA \<equiv> 33"
abbreviation v2KE :: u32 where "v2KE \<equiv> 34"
abbreviation v2IDi :: u32 where "v2IDi \<equiv> 35"
abbreviation v2IDr :: u32 where "v2IDr \<equiv> 36"
abbreviation v2CERT :: u32 where "v2CERT \<equiv> 37"
abbreviation v2CERTREQ :: u32 where "v2CERTREQ \<equiv> 38"
abbreviation v2AUTH :: u32 where "v2AUTH \<equiv> 39"
abbreviation v2Ni :: u32 where "v2Ni \<equiv> 40"
abbreviation v2Nr :: u32 where "v2Nr \<equiv> 40"
abbreviation v2N :: u32 where "v2N \<equiv> 41"
abbreviation v2D :: u32 where "v2D \<equiv> 42"
abbreviation v2V :: u32 where "v2V \<equiv> 43"
abbreviation v2TSi :: u32 where "v2TSi \<equiv> 44"
abbreviation v2TSr :: u32 where "v2TSr \<equiv> 45"
abbreviation v2SK :: u32 where "v2SK \<equiv> 46"
abbreviation v2CP :: u32 where "v2CP \<equiv> 47"
abbreviation v2SKF :: u32 where "v2SKF \<equiv> 53"

definition P :: "u32 \<Rightarrow> lset" where
  "P np = LELEM (PINDEX np)"

definition Ps :: "u32 list \<Rightarrow> lset" where
  "Ps nps = foldr (\<lambda>np s. P np OR s) nps 0"

definition everywhere_payloads :: lset where
  "everywhere_payloads = Ps [v2N, v2V]"

definition repeatable_payloads :: lset where
  "repeatable_payloads = Ps [v2N, v2D, v2CP, v2V, v2CERT, v2CERTREQ]"

section \<open>Digests\<close>

record payload_digest =
  pd_np :: u32
  pd_payload :: "hval list"
  pd_pbs :: pb_stream

definition PAYLIMIT :: nat where "PAYLIMIT = 30"
definition chain_roof :: u32 where "chain_roof = 133"

record digests =
  digest :: "payload_digest list"
  chain :: "u32 \<Rightarrow> nat list"

definition no_digests :: digests where
  "no_digests = \<lparr>digest = [], chain = (\<lambda>_. [])\<rparr>"

text \<open>The loop that appends to the chain of a kind, and \<^verbatim>\<open>pd++\<close>.\<close>

definition add_payload :: "u32 \<Rightarrow> hval list \<Rightarrow> pb_stream \<Rightarrow> digests \<Rightarrow> digests" where
  "add_payload np hs obj md =
     \<lparr>digest = digest md @ [\<lparr>pd_np = np, pd_payload = hs, pd_pbs = obj\<rparr>],
      chain = (chain md)(np := chain md np @ [length (digest md)])\<rparr>"

record payloads_summary =
  sm_status :: stf_status
  sm_seen :: lset
  sm_repeated :: lset

text \<open>The first two members of every payload header, through the member \<^verbatim>\<open>generic\<close> of the union.\<close>

definition isag_np :: "hval list \<Rightarrow> u32" where
  "isag_np hs = (case hs of HNum n # _ \<Rightarrow> n | _ \<Rightarrow> 0)"

definition isag_critical :: "hval list \<Rightarrow> u32" where
  "isag_critical hs = (case hs of _ # HNum n # _ \<Rightarrow> n | _ \<Rightarrow> 0)"

section \<open>Splitting a message\<close>

text \<open>What \<^verbatim>\<open>in_struct\<close> consumes, for any descriptor and stream.\<close>

lemma in_length_consumes:
  "in_length sd ins fp n imm = Ok r \<Longrightarrow> pbs_cur ins + sd_size sd \<le> pbs_roof ins \<Longrightarrow> roof_ok sd ins r"
  by (auto simp: in_length_def roof_ok_def Let_def pbs_left_def size_diff_def split: if_splits)

lemma in_field_roof:
  assumes "in_field mem sd ins fp st = Ok st'" "roof_ok sd ins (is_roof st)"
  shows "roof_ok sd ins (is_roof st')"
proof -
  have "pbs_cur ins + sd_size sd \<le> pbs_roof ins" using assms(2) by (simp add: roof_ok_def)
  then show ?thesis using assms in_length_consumes [of sd ins]
    by (cases "read_block mem (is_cur st) (fd_size fp)") (auto simp: in_field_def in_number_def deposit_def bind_outcome_Ok_iff
      split: if_splits sum.splits outcome.splits)
qed

lemma in_fields_roof:
  "in_fields mem sd ins fps st = Ok st' \<Longrightarrow> roof_ok sd ins (is_roof st) \<Longrightarrow> roof_ok sd ins (is_roof st')"
  by (induction fps arbitrary: st) (auto simp: passert_Ok_iff bind_outcome_Ok_iff split: if_splits dest: in_field_roof)

lemma in_struct_consumes:
  assumes "in_struct mem sd ins = Ok (hs, ins', obj)"
  shows "pbs_roof ins' = pbs_roof ins \<and> pbs_cur ins + sd_size sd \<le> pbs_cur ins' \<and> pbs_cur ins' \<le> pbs_roof ins"
proof -
  have "pbs_cur ins + sd_size sd \<le> pbs_roof ins" using assms by (auto simp: in_struct_def split: if_splits)
  then show ?thesis
    using assms in_fields_roof [of mem sd ins "sd_fields sd"]
    by (fastforce simp: in_struct_def bind_outcome_Ok_iff roof_ok_def split: if_splits)
qed

lemma v2_descs_of_packet: "Some sd \<in> set v2_payload_descs \<Longrightarrow> sd \<in> set packet_descs"
  by (auto simp: v2_payload_descs_def packet_descs_def)

lemma v2_descs_header:
  "Some sd \<in> set v2_payload_descs \<Longrightarrow> 4 \<le> sd_size sd \<and> field_type (hd (sd_fields sd)) = ft_enum \<and>
    1 < length (sd_fields sd)"
  by (auto simp: v2_payload_descs_def struct_desc_defs field_array_defs)

lemma v2_desc_cases:
  assumes "v2_payload_desc np = Some sd"
  shows "33 \<le> np \<and> np < 54 \<and> Some sd \<in> set v2_payload_descs"
proof -
  have le: "33 \<le> np" and q: "unat (np - 33) < length v2_payload_descs" "v2_payload_descs ! unat (np - 33) = Some sd"
    using assms by (auto simp: v2_payload_desc_def Let_def split: if_splits)
  have "unat (np - 33) = unat np - 33" using unat_sub [OF le] by simp
  moreover have "length v2_payload_descs = 21" by (simp add: v2_payload_descs_def)
  ultimately have "np < 54" using q(1) by (simp add: word_less_nat_alt)
  then show ?thesis using le q nth_mem by metis
qed

function ikev2_decode_loop ::
    "memory \<Rightarrow> pb_stream \<Rightarrow> u32 \<Rightarrow> digests \<Rightarrow> payloads_summary \<Rightarrow> fault + digests \<times> payloads_summary" where
  "ikev2_decode_loop mem ins np md sm =
     (if np = v2NONE then Inr (md, sm)
      else if length (digest md) = PAYLIMIT then Inr (md, sm\<lparr>sm_status := STF_FAIL v2N_INVALID_SYNTAX\<rparr>)
      else (case v2_payload_desc np of
          None \<Rightarrow>
            (case in_struct mem ikev2_generic_desc ins of
               Abort f \<Rightarrow> Inl f
             | Err _ \<Rightarrow> Inr (md, sm\<lparr>sm_status := STF_FAIL v2N_INVALID_SYNTAX\<rparr>)
             | Ok (hs, ins', obj) \<Rightarrow>
                 if isag_critical hs AND 0x80 \<noteq> 0
                 then Inr (md, sm\<lparr>sm_status := STF_FAIL v2N_UNSUPPORTED_CRITICAL_PAYLOAD\<rparr>)
                 else ikev2_decode_loop mem ins' (isag_np hs) md sm)
        | Some sd \<Rightarrow>
            if \<not> PINDEX np < 64 then Inl Passert
            else
              let sm' = sm\<lparr>sm_repeated := sm_repeated sm OR (sm_seen sm AND LELEM (PINDEX np)),
                           sm_seen := sm_seen sm OR LELEM (PINDEX np)\<rparr> in
              (case in_struct mem sd ins of
                 Abort f \<Rightarrow> Inl f
               | Err _ \<Rightarrow> Inr (md, sm'\<lparr>sm_status := STF_FAIL v2N_INVALID_SYNTAX\<rparr>)
               | Ok (hs, ins', obj) \<Rightarrow>
                   if \<not> np < chain_roof then Inl Out_of_bounds
                   else
                     let md' = add_payload np hs obj md in
                     ikev2_decode_loop mem ins' (if np = v2SK \<or> np = v2SKF then v2NONE else isag_np hs) md' sm')))"
  by pat_completeness auto

termination
proof (relation "measure (\<lambda>(mem, ins, np, md, sm). pbs_roof ins - pbs_cur ins)", goal_cases)
  case (2 mem ins np md sm hs p ins' obj)
  then show ?case using in_struct_consumes [of mem ikev2_generic_desc ins] by (fastforce simp: ikev2_generic_desc_def)
next
  case (3 mem ins np md sm sd sm' hs p ins' obj md')
  then show ?case using in_struct_consumes [of mem sd ins] v2_desc_cases [of np sd] v2_descs_header [of sd] by fastforce
qed simp

declare ikev2_decode_loop.simps [simp del]

definition ikev2_decode_payloads ::
    "memory \<Rightarrow> digests \<Rightarrow> pb_stream \<Rightarrow> u32 \<Rightarrow> fault + digests \<times> payloads_summary" where
  "ikev2_decode_payloads mem md in_pbs np =
     ikev2_decode_loop mem in_pbs np md \<lparr>sm_status = STF_OK, sm_seen = 0, sm_repeated = 0\<rparr>"

section \<open>What a state expects\<close>

record expected_payloads =
  required :: lset
  optional :: lset

record payload_errors =
  pe_status :: stf_status
  bad_repeat :: lset
  missing :: lset
  unexpected :: lset

definition ikev2_verify_payloads :: "payloads_summary \<Rightarrow> expected_payloads \<Rightarrow> payload_errors" where
  "ikev2_verify_payloads summary payloads =
     (let seen = (if sm_seen summary AND (P v2SKF OR P v2SK) = P v2SKF
                  then (sm_seen summary AND NOT (P v2SKF)) OR P v2SK else sm_seen summary);
          req = required payloads; opt = optional payloads;
          repeats = sm_repeated summary AND NOT repeatable_payloads;
          miss = req AND NOT seen;
          unexp = seen AND NOT req AND NOT opt AND NOT everywhere_payloads
      in \<lparr>pe_status = (if repeats OR miss OR unexp \<noteq> 0 then STF_FAIL v2N_INVALID_SYNTAX else STF_OK),
          bad_repeat = repeats, missing = miss, unexpected = unexp\<rparr>)"

section \<open>The payloads found\<close>

text \<open>
  The kinds of the payloads in the order of the message, and what the two sets of a summary say of
  them: the kinds that occur, and those that occur more than once.
\<close>

definition kinds :: "payload_digest list \<Rightarrow> u32 list" where
  "kinds pds = map pd_np pds"

definition counts :: "payloads_summary \<Rightarrow> u32 list \<Rightarrow> bool" where
  "counts sm ks \<longleftrightarrow> (\<forall>np. 33 \<le> np \<and> np < 97 \<longrightarrow>
     bit (sm_seen sm) (unat np - 33) = (np \<in> set ks) \<and>
     bit (sm_repeated sm) (unat np - 33) = (2 \<le> count_list ks np))"

text \<open>A payload of the digest: within its stream, with the members its descriptor has.\<close>

definition payload_ok :: "memory \<Rightarrow> pb_stream \<Rightarrow> payload_digest \<Rightarrow> bool" where
  "payload_ok mem ins pd \<longleftrightarrow> (\<exists>sd. v2_payload_desc (pd_np pd) = Some sd \<and>
     list_all2 host_ok (butlast (sd_fields sd)) (pd_payload pd) \<and> wf_pbs mem (pd_pbs pd) \<and>
     pbs_cur (pd_pbs pd) = pbs_start (pd_pbs pd) + sd_size sd \<and>
     pbs_cur ins \<le> pbs_start (pd_pbs pd) \<and> pbs_roof (pd_pbs pd) \<le> pbs_roof ins)"

text \<open>The chains are the positions of each kind, in order.\<close>

definition chains_ok :: "digests \<Rightarrow> bool" where
  "chains_ok md \<longleftrightarrow> (\<forall>np. chain md np = filter (\<lambda>i. pd_np (digest md ! i) = np) [0..<length (digest md)])"

lemma LELEM_PINDEX: "33 \<le> np \<Longrightarrow> LELEM (PINDEX np) = 2 ^ (unat np - 33)"
  using unat_sub [of 33 np] by (simp add: LELEM_def PINDEX_def)

lemma bit_LELEM: "33 \<le> np \<Longrightarrow> np < 97 \<Longrightarrow> bit (LELEM (PINDEX np)) n \<longleftrightarrow> n = unat np - 33"
  by (auto simp: LELEM_PINDEX bit_simps word_less_nat_alt)

lemma kind_index_inject: "(33 :: u32) \<le> np \<Longrightarrow> 33 \<le> k \<Longrightarrow> unat k - 33 = unat np - 33 \<longleftrightarrow> k = np"
proof -
  assume "33 \<le> np" "33 \<le> k"
  then have "33 \<le> unat np" "33 \<le> unat k" by (simp_all add: word_le_nat_alt)
  then show ?thesis by (auto simp: eq_diff_iff word_unat_eq_iff)
qed

lemma chains_ok_add:
  assumes "chains_ok md"
  shows "chains_ok (add_payload np hs obj md)"
proof -
  have "filter (\<lambda>i. pd_np ((digest md @ [pd]) ! i) = k) [0..<length (digest md)] = chain md k" for k pd
    unfolding assms [unfolded chains_ok_def, rule_format]
    by (intro filter_cong refl) (simp add: nth_append)
  then show ?thesis by (simp add: chains_ok_def add_payload_def)
qed

lemma counts_add:
  assumes "counts sm ks" "33 \<le> np" "np < 54"
  shows "counts (sm\<lparr>sm_repeated := sm_repeated sm OR (sm_seen sm AND LELEM (PINDEX np)),
     sm_seen := sm_seen sm OR LELEM (PINDEX np)\<rparr>) (ks @ [np])"
proof -
  have np: "np < 97" using assms(3) by (simp add: word_less_nat_alt)
  have pos: "0 < count_list ks k \<longleftrightarrow> k \<in> set ks" for k :: u32 by (simp add: count_list_0_iff neq0_conv [symmetric])
  have "2 \<le> count_list (ks @ [np]) k \<longleftrightarrow> 2 \<le> count_list ks k \<or> (k = np \<and> k \<in> set ks)" for k
    using pos [of np] by auto
  then show ?thesis
    using assms(1) bit_LELEM [OF assms(2) np] kind_index_inject [OF assms(2)]
    unfolding counts_def by (auto simp: bit_simps)
qed

definition encrypted_last :: "payload_digest list \<Rightarrow> bool" where
  "encrypted_last pds \<longleftrightarrow> (\<forall>pd \<in> set (butlast pds). pd_np pd \<noteq> v2SK \<and> pd_np pd \<noteq> v2SKF)"

lemma payload_ok_mono:
  "payload_ok mem ins' pd \<Longrightarrow> pbs_cur ins \<le> pbs_cur ins' \<Longrightarrow> pbs_roof ins' = pbs_roof ins \<Longrightarrow> payload_ok mem ins pd"
  by (auto simp: payload_ok_def)

definition decoded :: "memory \<Rightarrow> pb_stream \<Rightarrow> digests \<Rightarrow> u32 list \<Rightarrow> fault + digests \<times> payloads_summary \<Rightarrow> bool" where
  "decoded mem ins md ks r \<longleftrightarrow> (\<exists>md' sm' new. r = Inr (md', sm') \<and> digest md' = digest md @ new \<and>
     list_all (payload_ok mem ins) new \<and> encrypted_last new \<and> length (digest md') \<le> PAYLIMIT \<and> chains_ok md' \<and>
     (sm_status sm' = STF_OK \<longrightarrow> counts sm' (ks @ kinds new)))"

lemma decoded_stop:
  "length (digest md) \<le> PAYLIMIT \<Longrightarrow> chains_ok md \<Longrightarrow> sm_status sm = STF_OK \<longrightarrow> counts sm ks \<Longrightarrow>
    decoded mem ins md ks (Inr (md, sm))"
  by (auto simp: decoded_def encrypted_last_def kinds_def)

lemma decoded_add:
  assumes "decoded mem ins' (add_payload np hs obj md) (ks @ [np]) r" "payload_ok mem ins \<lparr>pd_np = np, pd_payload = hs, pd_pbs = obj\<rparr>"
    "pbs_cur ins \<le> pbs_cur ins'" "pbs_roof ins' = pbs_roof ins"
    "(np = v2SK \<or> np = v2SKF) \<longrightarrow> (\<exists>sm. r = Inr (add_payload np hs obj md, sm))"
  shows "decoded mem ins md ks r"
proof -
  let ?pd = "\<lparr>pd_np = np, pd_payload = hs, pd_pbs = obj\<rparr>"
  obtain md' sm' new where d: "r = Inr (md', sm')" "digest md' = digest md @ ?pd # new"
      "list_all (payload_ok mem ins') new" "encrypted_last new" "length (digest md') \<le> PAYLIMIT" "chains_ok md'"
      "sm_status sm' = STF_OK \<longrightarrow> counts sm' (ks @ np # kinds new)"
    using assms(1) by (auto simp: decoded_def add_payload_def)
  have "(np = v2SK \<or> np = v2SKF) \<longrightarrow> new = []" using assms(5) d(1,2) by (auto simp: add_payload_def)
  then have "encrypted_last (?pd # new)" using d(4) by (auto simp: encrypted_last_def)
  moreover have "list_all (payload_ok mem ins) (?pd # new)"
    using d(3) assms(2) payload_ok_mono [OF _ assms(3,4)] by (auto simp: list_all_iff)
  ultimately show ?thesis unfolding decoded_def using d
    by (intro exI [of _ md'] exI [of _ sm'] exI [of _ "?pd # new"]) (simp add: kinds_def)
qed

lemma decode_none [simp]: "ikev2_decode_loop mem ins 0 md sm = Inr (md, sm)"
  by (simp add: ikev2_decode_loop.simps)

lemma in_struct_packet_ok:
  assumes "sd \<in> set packet_descs" "wf_pbs mem ins"
  shows "yields (in_struct mem sd ins) (\<lambda>(hs, ins', obj). list_all2 host_ok (butlast (sd_fields sd)) hs \<and>
    wf_pbs mem obj \<and> pbs_cur obj = pbs_start obj + sd_size sd \<and> pbs_cur ins \<le> pbs_start obj \<and>
    pbs_roof obj \<le> pbs_roof ins \<and> wf_pbs mem ins' \<and> pbs_cur ins \<le> pbs_cur ins' \<and> pbs_roof ins' = pbs_roof ins)"
  by (rule yields_mono [OF in_struct_ok [OF packet_desc_wf [OF assms(1)] assms(2)]]) (auto simp: wf_pbs_def)

lemma generic_desc_of_packet: "ikev2_generic_desc \<in> set packet_descs"
  by (simp add: packet_descs_def)

lemma ikev2_decode_loop_ok:
  assumes "wf_pbs mem ins" "length (digest md) \<le> PAYLIMIT" "chains_ok md" "sm_status sm = STF_OK \<longrightarrow> counts sm ks"
  shows "decoded mem ins md ks (ikev2_decode_loop mem ins np md sm)"
  using assms
proof (induction mem ins np md sm arbitrary: ks rule: ikev2_decode_loop.induct)
  case (1 mem ins np md sm)
  note prems = "1.prems" and stop = decoded_stop [OF "1.prems"(2,3), of _ ks mem ins]
  show ?case
  proof (cases "np = v2NONE \<or> length (digest md) = PAYLIMIT")
    case True
    then show ?thesis using prems(4) by (auto simp: ikev2_decode_loop.simps intro!: stop)
  next
    case go: False
    show ?thesis
    proof (cases "v2_payload_desc np")
      case None
      show ?thesis
      proof (cases "in_struct mem ikev2_generic_desc ins")
        case (Ok r)
        obtain hs ins' obj where r: "r = (hs, ins', obj)" by (cases r) auto
        have i: "wf_pbs mem ins'" "pbs_cur ins \<le> pbs_cur ins'" "pbs_roof ins' = pbs_roof ins"
          using in_struct_packet_ok [OF generic_desc_of_packet prems(1)] Ok r by simp_all
        show ?thesis
        proof (cases "isag_critical hs AND 0x80 \<noteq> 0")
          case True
          then show ?thesis using go None Ok r by (auto simp: ikev2_decode_loop.simps [of mem ins np] intro!: stop)
        next
          case False
          have "decoded mem ins' md ks (ikev2_decode_loop mem ins' (isag_np hs) md sm)"
            using go None Ok r False i(1) prems(2-4) by (intro "1.IH"(1) [OF _ _ None Ok r [symmetric] refl]) auto
          then have "decoded mem ins md ks (ikev2_decode_loop mem ins' (isag_np hs) md sm)"
            using payload_ok_mono [OF _ i(2,3)] unfolding decoded_def by (fastforce simp: list_all_iff)
          then show ?thesis using go None Ok r False by (simp add: ikev2_decode_loop.simps [of mem ins np])
        qed
      qed (use go None in_struct_packet_ok [OF generic_desc_of_packet prems(1)]
          in \<open>auto simp: ikev2_decode_loop.simps [of mem ins np] intro!: stop\<close>)
    next
      case (Some sd)
      note d = v2_desc_cases [OF Some]
      have p: "PINDEX np < 64" "np < chain_roof"
        using d unat_sub [of 33 np] by (auto simp: PINDEX_def chain_roof_def word_less_nat_alt)
      let ?sm = "sm\<lparr>sm_repeated := sm_repeated sm OR (sm_seen sm AND LELEM (PINDEX np)),
                    sm_seen := sm_seen sm OR LELEM (PINDEX np)\<rparr>"
      have s: "yields (in_struct mem sd ins) (\<lambda>(hs, ins', obj). list_all2 host_ok (butlast (sd_fields sd)) hs \<and>
          wf_pbs mem obj \<and> pbs_cur obj = pbs_start obj + sd_size sd \<and> pbs_cur ins \<le> pbs_start obj \<and>
          pbs_roof obj \<le> pbs_roof ins \<and> wf_pbs mem ins' \<and> pbs_cur ins \<le> pbs_cur ins' \<and> pbs_roof ins' = pbs_roof ins)"
        using d by (intro in_struct_packet_ok [OF v2_descs_of_packet prems(1)]) simp
      show ?thesis
      proof (cases "in_struct mem sd ins")
        case (Ok r)
        obtain hs ins' obj where r: "r = (hs, ins', obj)" by (cases r) auto
        have i: "list_all2 host_ok (butlast (sd_fields sd)) hs" "wf_pbs mem obj" "pbs_cur obj = pbs_start obj + sd_size sd"
            "pbs_cur ins \<le> pbs_start obj" "pbs_roof obj \<le> pbs_roof ins" "wf_pbs mem ins'" "pbs_cur ins \<le> pbs_cur ins'"
            "pbs_roof ins' = pbs_roof ins"
          using s Ok r by simp_all
        let ?np = "if np = v2SK \<or> np = v2SKF then v2NONE else isag_np hs" and ?md = "add_payload np hs obj md"
        have e: "ikev2_decode_loop mem ins np md sm = ikev2_decode_loop mem ins' ?np ?md ?sm"
          using go Some p Ok r by (simp add: ikev2_decode_loop.simps [of mem ins np] Let_def)
        have "decoded mem ins' ?md (ks @ [np]) (ikev2_decode_loop mem ins' ?np ?md ?sm)"
        proof (rule "1.IH"(2) [OF _ _ Some _ refl Ok r [symmetric] refl _ refl])
          show "length (digest ?md) \<le> PAYLIMIT" using go prems(2) by (simp add: add_payload_def)
          show "chains_ok ?md" by (rule chains_ok_add [OF prems(3)])
          show "sm_status ?sm = STF_OK \<longrightarrow> counts ?sm (ks @ [np])"
            using prems(4) counts_add [of sm ks np] d by simp
        qed (use go p i(6) in auto)
        then show ?thesis unfolding e
        proof (rule decoded_add [OF _ _ i(7,8)])
          show "payload_ok mem ins \<lparr>pd_np = np, pd_payload = hs, pd_pbs = obj\<rparr>"
            using Some i by (auto simp: payload_ok_def)
        qed auto
      qed (use go Some p s in \<open>auto simp: ikev2_decode_loop.simps [of mem ins np] Let_def intro!: stop\<close>)
    qed
  qed
qed

text \<open>
  C2: Splitting a message into payloads is safe for every sequence of octets: no assertion fails, nothing
  outside the message is read, no chain outside the array of chains is touched, and it ends. At most
  \<^verbatim>\<open>PAYLIMIT\<close> payloads are kept, each within the message and with the members of its descriptor,
  an encrypted one last; the chains list the payloads of each kind in order; and unless the message is
  refused, the summary says which kinds occur and which more than once.
\<close>

theorem ikev2_decode_payloads_safe:
  assumes "wf_pbs mem in_pbs" "length (digest md) \<le> PAYLIMIT" "chains_ok md"
  shows "\<exists>md' sm new. ikev2_decode_payloads mem md in_pbs np = Inr (md', sm) \<and> digest md' = digest md @ new \<and>
    list_all (payload_ok mem in_pbs) new \<and> encrypted_last new \<and> length (digest md') \<le> PAYLIMIT \<and> chains_ok md' \<and>
    (sm_status sm = STF_OK \<longrightarrow> counts sm (kinds new))"
proof -
  have "counts \<lparr>sm_status = STF_OK, sm_seen = 0, sm_repeated = 0\<rparr> []" by (simp add: counts_def)
  from ikev2_decode_loop_ok [OF assms, of _ "[]", OF impI, OF this] show ?thesis
    unfolding ikev2_decode_payloads_def decoded_def by simp
qed

section \<open>The payloads expected\<close>

definition kinds_of :: "lset \<Rightarrow> u32 set" where
  "kinds_of s = {np. 33 \<le> np \<and> np < 97 \<and> bit s (unat np - 33)}"

lemma kinds_of_mem: "33 \<le> np \<Longrightarrow> np < 97 \<Longrightarrow> np \<in> kinds_of s \<longleftrightarrow> bit s (unat np - 33)"
  by (simp add: kinds_of_def)

lemma bit_via_kind:
  assumes "n < 64"
  shows "bit s n \<longleftrightarrow> (of_nat (n + 33) :: u32) \<in> kinds_of s"
proof -
  have u: "unat (of_nat (n + 33) :: u32) = n + 33" using assms unfolding unat_of_nat by simp
  then have "33 \<le> (of_nat (n + 33) :: u32)" "(of_nat (n + 33) :: u32) < 97"
    using assms by (simp_all only: word_le_nat_alt word_less_nat_alt) simp_all
  then show ?thesis using kinds_of_mem [of "of_nat (n + 33)" s] u by simp
qed

lemma lset_eq_iff: "a = b \<longleftrightarrow> kinds_of a = kinds_of b"
proof
  assume e: "kinds_of a = kinds_of b"
  show "a = b"
  proof (rule bit_word_eqI)
    fix n assume "n < LENGTH(64)"
    then have n: "n < 64" by simp
    show "bit a n = bit b n" unfolding bit_via_kind [OF n] e ..
  qed
qed simp

lemma lset_zero_iff: "s = 0 \<longleftrightarrow> kinds_of s = {}"
  unfolding lset_eq_iff [of s 0] by (simp add: kinds_of_def)

lemma lset_unat: "(33 :: u32) \<le> np \<Longrightarrow> np < 97 \<Longrightarrow> unat np - 33 < 64"
  by (simp add: word_le_nat_alt word_less_nat_alt)

definition all_kinds :: "u32 set" where
  "all_kinds = {np. 33 \<le> np \<and> np < 97}"

lemma kinds_of_simps [simp]:
  "kinds_of (a OR b) = kinds_of a \<union> kinds_of b" "kinds_of (a AND b) = kinds_of a \<inter> kinds_of b"
  "kinds_of (NOT b) = all_kinds - kinds_of b" "kinds_of 0 = {}"
  by (auto simp: kinds_of_def all_kinds_def bit_simps dest: lset_unat)

lemma kinds_of_all: "kinds_of s \<inter> (all_kinds - A) = kinds_of s - A"
  by (auto simp: kinds_of_def all_kinds_def)

lemma kinds_of_P: "33 \<le> np \<Longrightarrow> np < 97 \<Longrightarrow> kinds_of (P np) = {np}"
  using kind_index_inject [of np] by (auto simp: kinds_of_def P_def bit_LELEM)

lemma kinds_of_Ps: "\<forall>np \<in> set nps. 33 \<le> np \<and> np < 97 \<Longrightarrow> kinds_of (Ps nps) = set nps"
  by (induction nps) (auto simp: Ps_def kinds_of_P)

lemma kinds_of_everywhere: "kinds_of everywhere_payloads = {v2N, v2V}"
  by (simp add: everywhere_payloads_def kinds_of_Ps)

lemma kinds_of_repeatable: "kinds_of repeatable_payloads = {v2N, v2D, v2CP, v2V, v2CERT, v2CERTREQ}"
  by (simp add: repeatable_payloads_def kinds_of_Ps)

text \<open>The kinds of a message, an encrypted fragment on its own being taken for an encrypted payload.\<close>

definition effective_kinds :: "u32 set \<Rightarrow> u32 set" where
  "effective_kinds K = (if v2SKF \<in> K \<and> v2SK \<notin> K then insert v2SK (K - {v2SKF}) else K)"

definition effective_seen :: "lset \<Rightarrow> lset" where
  "effective_seen seen = (if seen AND (P v2SKF OR P v2SK) = P v2SKF then (seen AND NOT (P v2SKF)) OR P v2SK else seen)"

lemma kinds_of_effective_seen: "kinds_of (effective_seen seen) = effective_kinds (kinds_of seen)"
proof -
  have c: "seen AND (P v2SKF OR P v2SK) = P v2SKF \<longleftrightarrow> v2SKF \<in> kinds_of seen \<and> v2SK \<notin> kinds_of seen"
    unfolding lset_eq_iff by (auto simp: kinds_of_P)
  show ?thesis unfolding effective_kinds_def effective_seen_def c by (simp add: kinds_of_P kinds_of_all)
qed

lemma diff_empty_iff: "kinds_of s \<inter> (all_kinds - A) = {} \<longleftrightarrow> kinds_of s \<subseteq> A"
  by (auto simp: kinds_of_def all_kinds_def)

lemma status_ok: "(if \<not> A then STF_FAIL n else STF_OK) = STF_OK \<longleftrightarrow> A"
  by simp

lemma ikev2_verify_kinds:
  "pe_status (ikev2_verify_payloads sm e) = STF_OK \<longleftrightarrow>
     kinds_of (required e) \<subseteq> effective_kinds (kinds_of (sm_seen sm)) \<and>
     effective_kinds (kinds_of (sm_seen sm)) \<subseteq> kinds_of (required e) \<union> kinds_of (optional e) \<union> {v2N, v2V} \<and>
     kinds_of (sm_repeated sm) \<subseteq> {v2N, v2D, v2CP, v2V, v2CERT, v2CERTREQ}"
proof -
  have u: "seen AND NOT r AND NOT opt AND NOT a = 0 \<longleftrightarrow> kinds_of seen \<subseteq> kinds_of r \<union> kinds_of opt \<union> kinds_of a"
    for seen r opt a :: lset
    unfolding lset_zero_iff by (auto simp: kinds_of_all) (auto simp: kinds_of_def all_kinds_def)
  have "pe_status (ikev2_verify_payloads sm e) = STF_OK \<longleftrightarrow>
      (let seen = effective_seen (sm_seen sm) in sm_repeated sm AND NOT repeatable_payloads = 0 \<and>
       required e AND NOT seen = 0 \<and> seen AND NOT (required e) AND NOT (optional e) AND NOT everywhere_payloads = 0)"
    unfolding ikev2_verify_payloads_def effective_seen_def Let_def payload_errors.simps or_eq_0_iff
    by (rule status_ok)
  then show ?thesis
    unfolding Let_def u by (simp add: lset_zero_iff kinds_of_effective_seen diff_empty_iff
      kinds_of_everywhere kinds_of_repeatable) argo
qed

lemma decoded_kinds:
  assumes "ikev2_decode_payloads mem no_digests in_pbs np = Inr (md, sm)" "wf_pbs mem in_pbs" "sm_status sm = STF_OK"
  shows "kinds_of (sm_seen sm) = {k. chain md k \<noteq> []} \<and> kinds_of (sm_repeated sm) = {k. 2 \<le> length (chain md k)}"
proof -
  have "chains_ok no_digests" "length (digest no_digests) \<le> PAYLIMIT" by (simp_all add: chains_ok_def no_digests_def)
  moreover have "counts \<lparr>sm_status = STF_OK, sm_seen = 0, sm_repeated = 0\<rparr> []" by (simp add: counts_def)
  ultimately have "decoded mem in_pbs no_digests [] (Inr (md, sm))"
    using ikev2_decode_loop_ok [OF assms(2), of no_digests _ "[]"] assms(1)
    unfolding ikev2_decode_payloads_def by metis
  then have d: "list_all (payload_ok mem in_pbs) (digest md)" "chains_ok md" "counts sm (kinds (digest md))"
    using assms(3) by (auto simp: decoded_def no_digests_def)
  have l: "length (chain md k) = count_list (kinds (digest md)) k" for k
    unfolding d(2) [unfolded chains_ok_def, rule_format] kinds_def count_list_eq_length_filter
    by (simp add: filter_map comp_def length_filter_conv_card eq_commute [of k] cong: conj_cong)
  have r: "0 < count_list (kinds (digest md)) k \<Longrightarrow> 33 \<le> k \<and> k < 97" for k
    using d(1) v2_desc_cases [of k] by (fastforce simp: kinds_def count_list_0_iff list_all_iff payload_ok_def word_less_nat_alt
      simp flip: neq0_conv)
  have p: "k \<in> set (kinds (digest md)) \<longleftrightarrow> 0 < count_list (kinds (digest md)) k" for k
    by (simp add: count_list_0_iff flip: neq0_conv)
  have "k \<in> kinds_of (sm_seen sm) \<longleftrightarrow> 0 < length (chain md k)" "k \<in> kinds_of (sm_repeated sm) \<longleftrightarrow> 2 \<le> length (chain md k)" for k
  proof -
    have c: "33 \<le> k \<and> k < 97 \<Longrightarrow> bit (sm_seen sm) (unat k - 33) = (0 < length (chain md k)) \<and>
        bit (sm_repeated sm) (unat k - 33) = (2 \<le> length (chain md k))"
      using d(3) unfolding counts_def p l by blast
    have "0 < length (chain md k) \<Longrightarrow> 33 \<le> k \<and> k < 97" using r unfolding l .
    moreover have "2 \<le> length (chain md k) \<Longrightarrow> 0 < length (chain md k)" by linarith
    ultimately show "k \<in> kinds_of (sm_seen sm) \<longleftrightarrow> 0 < length (chain md k)" "k \<in> kinds_of (sm_repeated sm) \<longleftrightarrow> 2 \<le> length (chain md k)"
      using c unfolding kinds_of_def by blast+
  qed
  then show ?thesis by auto
qed

text \<open>
  C3: A message whose payloads are split without an error passes the check against what a state
  expects exactly when each required kind is there, each kind that is there is required, optional or a
  notification or vendor identity, and only the kinds that may be repeated have a chain of more than one, a fragment
  on its own being taken for an encrypted payload. So the processor of the state finds the head of
  the chain of each kind that it requires, or that of the fragment in place of the encrypted payload.
\<close>

theorem ikev2_expected_payloads:
  assumes "wf_pbs mem in_pbs" "ikev2_decode_payloads mem no_digests in_pbs np = Inr (md, sm)" "sm_status sm = STF_OK"
  shows "pe_status (ikev2_verify_payloads sm e) = STF_OK \<longleftrightarrow>
    kinds_of (required e) \<subseteq> effective_kinds {k. chain md k \<noteq> []} \<and>
    effective_kinds {k. chain md k \<noteq> []} \<subseteq> kinds_of (required e) \<union> kinds_of (optional e) \<union> {v2N, v2V} \<and>
    {k. 2 \<le> length (chain md k)} \<subseteq> {v2N, v2D, v2CP, v2V, v2CERT, v2CERTREQ}"
  unfolding ikev2_verify_kinds decoded_kinds [OF assms(2,1,3), THEN conjunct1] decoded_kinds [OF assms(2,1,3), THEN conjunct2]
  by (rule refl)

definition nonce_message :: "byte list" where
  "nonce_message = [0, 0, 0, 5, 0xAA]"

definition nonce_pbs :: pb_stream where
  "nonce_pbs = init_pbs 0 5 ''message''"

lemma nonce_decodes:
  "case ikev2_decode_payloads nonce_message no_digests nonce_pbs v2Ni of
     Inl _ \<Rightarrow> False
   | Inr (md, sm) \<Rightarrow> sm_status sm = STF_OK \<and>
       pe_status (ikev2_verify_payloads sm \<lparr>required = P v2Ni, optional = 0\<rparr>) = STF_OK"
  by code_simp

lemma nonce_pbs_wf: "wf_pbs nonce_message nonce_pbs"
  by (simp add: wf_pbs_def nonce_message_def nonce_pbs_def init_pbs_def)

theorem ikev2_decode_payloads_safe_witness:
  "\<exists>md' sm. ikev2_decode_payloads nonce_message no_digests nonce_pbs v2Ni = Inr (md', sm) \<and> chains_ok md'"
  using ikev2_decode_payloads_safe [OF nonce_pbs_wf, of no_digests v2Ni]
  by (auto simp: no_digests_def chains_ok_def)

theorem ikev2_expected_payloads_witness:
  "\<exists>md sm. ikev2_decode_payloads nonce_message no_digests nonce_pbs v2Ni = Inr (md, sm) \<and> chain md v2Ni \<noteq> []"
proof -
  obtain md sm where d: "ikev2_decode_payloads nonce_message no_digests nonce_pbs v2Ni = Inr (md, sm)" "sm_status sm = STF_OK"
      "pe_status (ikev2_verify_payloads sm \<lparr>required = P v2Ni, optional = 0\<rparr>) = STF_OK"
    using nonce_decodes by (auto split: sum.splits)
  from ikev2_expected_payloads [OF nonce_pbs_wf d(1,2), THEN iffD1, OF d(3)] d(1) show ?thesis
    by (auto simp: kinds_of_P effective_kinds_def split: if_splits)
qed

end
