(* ===== verification/Spec2Isabelle.thy ===== *)
theory Spec2Isabelle
  imports PayloadChain AddressProps IdentityProps AddressPoolProps ReplayProps Ikev2Payloads
begin

text \<open>
  A model of libreswan, an implementation of IPsec for Linux: of the daemon \<^verbatim>\<open>pluto\<close> that speaks
  IKE (\<^verbatim>\<open>programs/pluto\<close>), of the library that it shares with its tools (\<^verbatim>\<open>lib/libswan\<close>) and of
  the receiving side of the kernel module KLIPS (\<^verbatim>\<open>linux/net/ipsec\<close>).

  \<^bold>\<open>The parts and how they interact.\<close> A message reaches the daemon as octets. The descriptors of
  \<^verbatim>\<open>packet.c\<close> say how a header is laid out, and \<^verbatim>\<open>in_struct\<close> reads it, consulting the name tables of
  \<^verbatim>\<open>constants.c\<close> for the values that a field may have. The payloads of an IKEv2 message are split off one
  by one and compared with those that the state expects (\<^verbatim>\<open>ikev2.c\<close>). A reply is built with \<^verbatim>\<open>out_struct\<close>,
  \<^verbatim>\<open>out_raw\<close> and \<^verbatim>\<open>close_output_pbs\<close>. The identity that a peer claims is compared with the
  configured one (\<^verbatim>\<open>id.c\<close>); when it is a distinguished name the comparison parses the DER encoding
  (\<^verbatim>\<open>x509dn.c\<close>, \<^verbatim>\<open>asn1.c\<close>). A client that asks for an address gets one of a pool
  (\<^verbatim>\<open>addresspool.c\<close>), whose leases are kept by identity; ranges and subnets are those of the address
  library. When the negotiation is done, the kernel receives packets and refuses those that
  have come before (\<^verbatim>\<open>ipsec_rcv.c\<close>).

  \<^bold>\<open>How the code is modelled.\<close> A C function is a function of the values it reads that returns the
  values it writes. What can go wrong is in the type: \<open>outcome\<close> (\<^verbatim>\<open>Prelude\<close>) is a value, an error
  that the code reports, or a fault: a failed assertion, a \<^verbatim>\<open>bad_case\<close>, an access outside an object,
  a shift by too much, the use of memory that nothing was written to, a loop that does not end. A structure is a record, an enumeration a datatype or its numbers where the
  code computes with them. An integer that the code lets wrap is a word of its width: sequence numbers and
  windows, masks, sets of bits, the counts of references of leases and pools. Sizes and offsets are natural
  numbers. A pointer into a buffer is an offset, a chunk the list of its octets, a linked list a list. Log and debug output
  is left out, and so is the release of memory.

  \<^bold>\<open>Theories.\<close>

  \<^item> \<^verbatim>\<open>Prelude\<close>: faults and outcomes, network byte order (\<open>be_bytes\<close>, \<open>be_value\<close>), memory with block
    reads and writes, and the lemmas on words, lists and outcomes that the others share.
  \<^item> \<^verbatim>\<open>Transitions\<close>: the interface \<open>counted_system\<close> of state machines with an invariant that holds for a
    bounded number of steps.
  \<^item> \<^verbatim>\<open>EnumNames\<close>, \<^verbatim>\<open>EnumTables\<close>: \<^verbatim>\<open>enum_name\<close>, \<^verbatim>\<open>enum_search\<close>, \<^verbatim>\<open>testset\<close> and others
    of \<^verbatim>\<open>constants.c\<close>, its tables, and the check that the daemon makes of them when it starts. The tables pass
    that check; searching and naming are inverse on every table in the registry.
  \<^item> \<^verbatim>\<open>PacketDesc\<close>, \<^verbatim>\<open>Packet\<close>: the descriptors of \<^verbatim>\<open>packet.c\<close>, all of them, and the functions that read
    and write through them. Each member of a host structure is a value of \<open>hval\<close>.
  \<^item> \<^verbatim>\<open>PacketCodec\<close>: for every descriptor and every input, \<^verbatim>\<open>in_struct\<close> neither fails an assertion nor
    reads outside the message; \<^verbatim>\<open>out_struct\<close> likewise on every structure of the right shape,
    and it succeeds exactly when there is room and the values are what their fields allow
    (\<open>members_allowed\<close>, stated without the checks of the code). What is
    written is the image of a reference encoder, and reading it gives back what was written.
  \<^item> \<^verbatim>\<open>PayloadChain\<close>: payloads in a message. The locale \<open>generic_emitter\<close> is the contract of the generic
    payload emitters, interpreted on those of IKEv1 and IKEv2; emitted payloads form a chain, on which
    \<^verbatim>\<open>out_modify_previous_np\<close> terminates and changes one octet of memory; on a payload of length zero it
    does not terminate.
  \<^item> \<^verbatim>\<open>Ikev2Payloads\<close>: \<^verbatim>\<open>ikev2_decode_payloads\<close> with its digest and chains, and \<^verbatim>\<open>ikev2_verify_payloads\<close>. Decoding
    is safe on every message and the chains are those of the digest; what passes the check against the
    kinds that a state expects.
  \<^item> \<^verbatim>\<open>Addresses\<close>, \<^verbatim>\<open>AddressFacts\<close>, \<^verbatim>\<open>AddressProps\<close>: addresses, subnets, masks and ranges. Each operation is
    described over the number that an address spells: membership, the subnet of a range, the mask of
    a count and back, the size of a range (where the comment in the code promises another); and what becomes of a mask with a hole or a count
    too large.
  \<^item> \<^verbatim>\<open>Asn1\<close>, \<^verbatim>\<open>DistinguishedNames\<close>, \<^verbatim>\<open>DnProps\<close>, \<^verbatim>\<open>DnText\<close>: the coding of lengths, the table of object
    identifiers, and names: parsing, printing, comparing, counting wildcards and encoding a text. A buffer
    that is printed to is an optional text, \<open>None\<close> as long as nothing is written. The
    functions are safe on every name with an octet, the search for an object identifier ends, and a buffer is
    left unwritten in two cases only; the encoder writes what a reference encoding says,
    the parser accepts it, and printing gives the canonical form of the text back.
  \<^item> \<^verbatim>\<open>Identity\<close>, \<^verbatim>\<open>IdentityProps\<close>: \<^verbatim>\<open>struct id\<close>, its comparisons and the escaping of text for the shell. What
    \<^verbatim>\<open>same_id\<close> compares, when names match in any order, what escaped text has no more, and
    where the escaping fails its assertion, where the comparison in any order is misled by a separator or reads a
    buffer that was not written.
  \<^item> \<^verbatim>\<open>AddressPool\<close>, \<^verbatim>\<open>AddressPoolFacts\<close>, \<^verbatim>\<open>AddressPoolProps\<close>: pools and leases. Leasing refines a table from indices
    to identities with a count modulo \<open>2 ^ 32\<close>; an address is found whenever there is one. Over every
    interleaving of fewer than \<open>2 ^ 32\<close> grants and releases (\<open>pool_step\<close>, an instance of \<open>counted_system\<close>) no
    lease is shared by strangers and no release fails an assertion; after \<open>2 ^ 32\<close> grants the count has wrapped
    and the address of one client goes to another. Installed pools stay apart.
  \<^item> \<^verbatim>\<open>ReplayWindow\<close>, \<^verbatim>\<open>ReplayProps\<close>: the replay window of KLIPS and the two receive steps around the
    authentication. The window refines the set of numbers seen; in a window of 32, the default, or
    less no number is accepted twice; the mask of type \<^verbatim>\<open>int\<close> is too narrow for the windows of up to 64 that
    \<^verbatim>\<open>ipsec spi\<close> takes.

  \<^bold>\<open>Bounds and termination.\<close> The loops of the code are recursive functions over the lists or the octets
  that they consume, so they end, except two, which are \<open>partial_function\<close>s. \<^verbatim>\<open>out_modify_previous_np\<close> may
  run forever: that it returns on a chain of emitted payloads is proved, and that it does not on a zero
  length. The other is the walk through the table of object identifiers. The functions on names turn a walk
  that does not end into the fault \<open>Endless\<close> and an index outside the table into \<open>Out_of_bounds\<close>; that neither
  happens is part of their safety. The count of references of a lease is below \<open>2 ^ 32\<close> and grows by one in a
  grant, so the bound on the steps of \<open>pool_step\<close> is the largest for which it cannot wrap. Sizes of objects are natural numbers where
  the code has bounded them before; the buffers of fixed size (\<^verbatim>\<open>IDTOA_BUF\<close>, \<^verbatim>\<open>ASN1_BUF_LEN\<close>) have
  the code's size.

  \<^bold>\<open>Parameters.\<close> NSS, which compares names for \<^verbatim>\<open>match_dn_unordered\<close>, is a record of the functions that are called;
  the hash of a packet in \<^verbatim>\<open>ipsec_rcv_auth_calc\<close> is the function pointer of the protocol.

  \<^bold>\<open>Not modelled.\<close> The exchanges of IKEv1 and the processing of the contents of IKEv2 payloads: each of their steps works on
  connections and states linked through the heap, on NSS objects and on the kernel. The kernel
  interfaces (PF_KEY, netlink, the updown script), the event loop, timers, whack and the log are input and output.
  Ciphers, hashes, signatures, certificates and key derivation are done by NSS. The parser of \<^verbatim>\<open>ipsec.conf\<close>
  is generated from a grammar. Of the kernel module only the replay window is modelled; the
  rest works on socket buffers and network devices. Proposals and algorithm strings depend on the
  tables of algorithms of NSS and the kernel.
\<close>

end
